(* ===== verification/Prelude.thy ===== *)
theory Prelude
  imports Main "HOL-Library.Word"
begin

section \<open>Machine integers, bytes and shared list facts\<close>

text \<open>
  What every component of the model shares: names for the fixed-width C++ integer types,
  the power-of-two masking used by the event ring buffer, big-endian byte encodings used by
  the packet decoder and the Confluent header, and the lemma collections the component
  theories add to.

  Signed and unsigned integers of one width share a type: \<open>int64_t\<close> is a 64-bit word read
  with \<open>sint\<close> and compared with the signed order of HOL-Library.Word, \<open>uint64_t\<close> the same
  word read with \<open>uint\<close>.  A C++20 \<open>static_cast\<close> between the two is then the identity, and
  an unsigned sum wraps as it does in the program.  Signed sums wrap in the model where they
  are undefined in C++; theorems about times carry the range conditions that exclude this.
\<close>

unbundle bit_operations_syntax

type_synonym u8 = "8 word"
type_synonym u16 = "16 word"
type_synonym u32 = "32 word"
type_synonym u64 = "64 word"
type_synonym i32 = "32 word"
type_synonym i64 = "64 word"
type_synonym size_t = "64 word"

named_theorems word_bounds \<open>bounds on the values of small words\<close>

subsection \<open>Bounds of the small word types\<close>

lemma unat_less_pow: "unat (w :: 'a::len word) < 2 ^ LENGTH('a)"
  by (rule unsigned_less)

lemma unat_u8_less [word_bounds, simp]: "unat (b :: u8) < 256"
  using unat_less_pow [of b] by simp

lemma unat_u16_less [word_bounds, simp]: "unat (w :: u16) < 65536"
  using unat_less_pow [of w] by simp

lemma unat_u32_less [word_bounds]: "unat (w :: u32) < 4294967296"
  using unat_less_pow [of w] by simp

lemma unat_size_less [word_bounds]: "unat (w :: size_t) < 18446744073709551616"
  using unat_less_pow [of w] by simp

subsection \<open>Powers of two and masking\<close>

text \<open>The test \<open>(n & (n - 1)) == 0\<close> singles out the powers of two.\<close>

lemma nat_and_pred_zero: "0 < n \<Longrightarrow> n AND (n - 1) = 0 \<Longrightarrow> \<exists>k. n = 2 ^ k" for n :: nat
proof (induction n rule: less_induct)
  case (less n)
  show ?case
  proof (cases "even n")
    case True
    then obtain m where n: "n = 2 * m" by (elim evenE)
    with less.prems have m: "0 < m" by simp
    have pred: "n - 1 = Suc (2 * (m - 1))" using n m by simp
    have "2 * m AND Suc (2 * (m - 1)) = 2 * (m AND (m - 1))"
      by (simp add: and_rec [of "2 * m"])
    moreover have "n AND (n - 1) = 2 * m AND Suc (2 * (m - 1))"
      by (subst pred) (simp only: n)
    ultimately have "2 * (m AND (m - 1)) = n AND (n - 1)" by simp
    with less.prems have "m AND (m - 1) = 0" by simp
    with less.IH [of m] m n obtain k where "m = 2 ^ k" by auto
    with n have "n = 2 ^ Suc k" by simp
    then show ?thesis by blast
  next
    case False
    then obtain m where n: "n = Suc (2 * m)" by (auto elim: oddE)
    have "n AND (n - 1) = 2 * m"
      unfolding n by (simp add: and_rec [of "Suc (2 * m)"])
    with less.prems have "n = 2 ^ 0" by (simp add: n)
    then show ?thesis by blast
  qed
qed

lemma unat_and: "unat (a AND b) = unat a AND unat b"
  by (simp add: unsigned_and_eq)

text \<open>The same test on a machine word: masking is then the remainder, and \<open>n\<close> divides \<open>2 ^ w\<close>.\<close>

lemma word_pow2_cases:
  fixes n :: "'a::len word"
  assumes n: "0 < n" and pow: "n AND (n - 1) = 0"
  obtains k where "unat n = 2 ^ k" "unat (n - 1) = 2 ^ k - 1"
proof -
  have pos: "0 < unat n" using n by (simp add: word_less_nat_alt)
  have pred: "unat (n - 1) = unat n - 1"
    using n by (simp add: unat_minus_one word_gt_0)
  have "unat n AND (unat n - 1) = 0"
    using arg_cong [OF pow, of unat] by (simp add: unat_and pred)
  then obtain k where "unat n = 2 ^ k" using nat_and_pred_zero pos by blast
  with pred that show ?thesis by simp
qed

lemma and_pred_eq_mod:
  fixes x n :: "'a::len word"
  assumes "0 < n" and "n AND (n - 1) = 0"
  shows "unat (x AND (n - 1)) = unat x mod unat n"
proof -
  obtain k where k: "unat n = 2 ^ k" "unat (n - 1) = 2 ^ k - 1"
    using word_pow2_cases [OF assms] .
  have "unat (x AND (n - 1)) = unat x AND (2 ^ k - 1)"
    by (simp add: unat_and k)
  also have "\<dots> = take_bit k (unat x)"
    by (simp add: take_bit_eq_mask mask_eq_exp_minus_1)
  finally show ?thesis by (simp add: take_bit_eq_mod k)
qed

lemma pow2_word_dvd:
  fixes n :: "'a::len word"
  assumes "0 < n" and "n AND (n - 1) = 0"
  shows "unat n dvd 2 ^ LENGTH('a)"
proof -
  obtain k where k: "unat n = 2 ^ k" using word_pow2_cases [OF assms] .
  then have "(2::nat) ^ k < 2 ^ LENGTH('a)" using unat_less_pow [of n] by simp
  then have "k \<le> LENGTH('a)" by simp
  then show ?thesis unfolding k by (rule le_imp_power_dvd)
qed

subsection \<open>Positions on a ring\<close>

lemma ring_pos_inj:
  assumes "(h + i) mod n = (h + j) mod n" and "i < n" and "j < (n :: nat)"
  shows "i = j"
  using assms
proof (induction i j rule: linorder_wlog)
  case (le i j)
  then have "n dvd j - i"
    using mod_eq_dvd_iff_nat [of "h + i" "h + j" n] by simp
  with le show ?case by (metis diff_is_0_eq dvd_imp_le le_antisym less_imp_diff_less
    linorder_not_less neq0_conv)
next
  case (sym i j)
  then show ?case by simp
qed

lemma replicate_small: "replicate 2 x = [x, x]" "replicate 4 x = [x, x, x, x]"
  by (simp_all add: numeral_eq_Suc)

lemma ring_count_pos:
  fixes h t n :: nat
  assumes "h < n" and "t < n"
  shows "(h + (t + n - h) mod n) mod n = t"
proof -
  have "(h + (t + n - h) mod n) mod n = (h + (t + n - h)) mod n"
    by (rule mod_add_right_eq)
  also have "h + (t + n - h) = t + n" using assms by simp
  finally show ?thesis using assms by simp
qed

lemma ring_count_unique:
  fixes h t n c :: nat
  assumes "h < n" and "t < n" and "c < n" and "(h + c) mod n = t"
  shows "(t + n - h) mod n = c"
proof (rule ring_pos_inj)
  show "(h + (t + n - h) mod n) mod n = (h + c) mod n"
    using ring_count_pos assms by simp
qed (use assms in simp_all)

lemma ring_pos_Suc: "(h + c) mod n = t \<Longrightarrow> (h + Suc c) mod n = Suc t mod n" for h :: nat
  by (auto simp: mod_Suc_eq)

lemma ring_pos_shift: "(Suc h mod n + i) mod n = (h + Suc i) mod n" for h :: nat
  by (simp add: mod_add_left_eq)

end
