(* ===== verification/Flow_Key.thy ===== *)
theory Flow_Key
  imports Prelude
begin

section \<open>Flow keys and their hash (events/flow_key.hpp)\<close>

text \<open>
  The 5-tuple that names a unidirectional flow and the FNV-1a hash the flow table's
  \<open>std::unordered_map\<close> uses.  A \<open>std::array<uint8_t, 16>\<close> is a byte list; \<open>wf_key\<close> records
  that both addresses have sixteen bytes.  The lemmas show that the hash is a fold over a
  37-byte encoding of the key that determines the key, that one mixing step is injective in
  the running hash and in the byte, and therefore that keys whose encodings differ in a
  single byte never collide.
\<close>

record flow_key =
  fk_src_ip :: "u8 list"
  fk_dst_ip :: "u8 list"
  fk_src_port :: u16
  fk_dst_port :: u16
  fk_protocol :: u8

definition wf_key :: "flow_key \<Rightarrow> bool" where
  "wf_key k \<longleftrightarrow> length (fk_src_ip k) = 16 \<and> length (fk_dst_ip k) = 16"

definition default_flow_key :: flow_key where
  "default_flow_key =
     \<lparr>fk_src_ip = replicate 16 0, fk_dst_ip = replicate 16 0,
      fk_src_port = 0, fk_dst_port = 0, fk_protocol = 0\<rparr>"

definition FNV_OFFSET :: u64 where
  "FNV_OFFSET = 14695981039346656037"

definition FNV_PRIME :: u64 where
  "FNV_PRIME = 1099511628211"

text \<open>The lambda \<open>mix\<close>: exclusive-or the byte into the hash, then multiply modulo \<open>2 ^ 64\<close>.\<close>

definition fnv_mix :: "u64 \<Rightarrow> u8 \<Rightarrow> u64" where
  "fnv_mix h b = (h XOR ucast b) * FNV_PRIME"

text \<open>The two \<open>static_cast<uint8_t>\<close> of a port: its high and its low byte.\<close>

definition port_hi :: "u16 \<Rightarrow> u8" where
  "port_hi p = ucast (drop_bit 8 p)"

definition port_lo :: "u16 \<Rightarrow> u8" where
  "port_lo p = ucast (p AND 0xFF)"

definition flow_key_hash :: "flow_key \<Rightarrow> size_t" where
  "flow_key_hash k =
     (let h = FNV_OFFSET;
          h = foldl fnv_mix h (fk_src_ip k);
          h = foldl fnv_mix h (fk_dst_ip k);
          h = fnv_mix h (port_hi (fk_src_port k));
          h = fnv_mix h (port_lo (fk_src_port k));
          h = fnv_mix h (port_hi (fk_dst_port k));
          h = fnv_mix h (port_lo (fk_dst_port k));
          h = fnv_mix h (fk_protocol k)
      in h)"

subsection \<open>The byte encoding behind the hash\<close>

definition port_bytes :: "u16 \<Rightarrow> u8 list" where
  "port_bytes p = [port_hi p, port_lo p]"

definition key_bytes :: "flow_key \<Rightarrow> u8 list" where
  "key_bytes k =
     fk_src_ip k @ fk_dst_ip k @ port_bytes (fk_src_port k) @ port_bytes (fk_dst_port k) @
     [fk_protocol k]"

lemma flow_key_hash_bytes: "flow_key_hash k = foldl fnv_mix FNV_OFFSET (key_bytes k)"
  by (simp add: flow_key_hash_def key_bytes_def port_bytes_def Let_def)

lemma length_key_bytes: "wf_key k \<Longrightarrow> length (key_bytes k) = 37"
  by (simp add: wf_key_def key_bytes_def port_bytes_def)

lemma port_hi_lo_inj:
  assumes "port_hi p = port_hi q" and "port_lo p = port_lo q"
  shows "p = q"
proof (rule bit_word_eqI)
  fix n assume n: "n < LENGTH(16)"
  have ff: "(0xFF :: u16) = mask 8" by (simp add: mask_eq_exp_minus_1)
  have hi: "bit (port_hi r) m = (m < 8 \<and> bit r (8 + m))" for r m
    by (auto simp: port_hi_def bit_simps)
  have lo: "bit (port_lo r) m = (m < 8 \<and> bit r m)" for r m
    unfolding port_lo_def ff by (auto simp: bit_simps)
  show "bit p n = bit q n"
  proof (cases "n < 8")
    case True
    then show ?thesis using lo [of p n] lo [of q n] assms(2) by simp
  next
    case False
    with n have "n - 8 < 8" "8 + (n - 8) = n" by simp_all
    then show ?thesis using hi [of p "n - 8"] hi [of q "n - 8"] assms(1) by simp
  qed
qed

lemma key_bytes_inj:
  assumes wf: "wf_key k" "wf_key k'" and eq: "key_bytes k = key_bytes k'"
  shows "k = k'"
proof -
  have "fk_src_ip k = fk_src_ip k'" and "fk_dst_ip k = fk_dst_ip k'"
    and ports: "port_bytes (fk_src_port k) = port_bytes (fk_src_port k')"
      "port_bytes (fk_dst_port k) = port_bytes (fk_dst_port k')"
    and "fk_protocol k = fk_protocol k'"
    using wf eq by (auto simp: key_bytes_def wf_key_def port_bytes_def)
  moreover from ports have "fk_src_port k = fk_src_port k'" "fk_dst_port k = fk_dst_port k'"
    by (auto simp: port_bytes_def intro: port_hi_lo_inj)
  ultimately show ?thesis by simp
qed

subsection \<open>Each mixing step is injective\<close>

text \<open>The FNV prime is odd, hence invertible modulo \<open>2 ^ 64\<close>.\<close>

definition FNV_PRIME_INV :: u64 where
  "FNV_PRIME_INV = 14886173955864302971"

lemma fnv_prime_inverse: "FNV_PRIME * FNV_PRIME_INV = 1"
  by (simp add: FNV_PRIME_def FNV_PRIME_INV_def)

lemma fnv_prime_cancel:
  assumes "a * FNV_PRIME = b * FNV_PRIME"
  shows "a = b"
proof -
  have "a * FNV_PRIME * FNV_PRIME_INV = b * FNV_PRIME * FNV_PRIME_INV"
    using assms by simp
  then show ?thesis by (simp only: mult.assoc fnv_prime_inverse mult.right_neutral)
qed

lemma xor_cancel_left:
  assumes "c XOR a = c XOR b"
  shows "a = (b :: 'a::len word)"
proof -
  have "c XOR (c XOR a) = c XOR (c XOR b)" using assms by simp
  then show ?thesis by (simp only: xor.assoc [symmetric] xor_self_eq xor.left_neutral)
qed

lemma fnv_mix_eqD: "fnv_mix h b = fnv_mix h' b' \<Longrightarrow> h XOR ucast b = h' XOR ucast b'"
  unfolding fnv_mix_def by (rule fnv_prime_cancel)

lemma fnv_mix_inj_hash:
  assumes "fnv_mix h b = fnv_mix h' b"
  shows "h = h'"
proof -
  have "ucast b XOR h = ucast b XOR h'"
    using fnv_mix_eqD [OF assms] by (simp add: xor.commute)
  then show ?thesis by (rule xor_cancel_left)
qed

lemma ucast_u8_inj:
  fixes b b' :: u8
  assumes "(ucast b :: u64) = ucast b'"
  shows "b = b'"
proof (rule bit_word_eqI)
  fix n assume "n < LENGTH(8)"
  then show "bit b n = bit b' n"
    using arg_cong [OF assms, of "\<lambda>w. bit w n"] by (simp add: bit_ucast_iff)
qed

lemma fnv_mix_inj_byte:
  assumes "fnv_mix h b = fnv_mix h b'"
  shows "b = b'"
  using xor_cancel_left [OF fnv_mix_eqD [OF assms]] by (rule ucast_u8_inj)

lemma foldl_fnv_mix_inj: "foldl fnv_mix h bs = foldl fnv_mix h' bs \<Longrightarrow> h = h'"
  by (induction bs arbitrary: h h') (auto dest: fnv_mix_inj_hash)

lemma foldl_split_nth:
  assumes "i < length xs"
  shows "foldl f a xs = foldl f (f (foldl f a (take i xs)) (xs ! i)) (drop (Suc i) xs)"
proof -
  have "foldl f a xs = foldl f a (take i xs @ xs ! i # drop (Suc i) xs)"
    using id_take_nth_drop [OF assms] by (rule arg_cong)
  then show ?thesis by (simp only: foldl_append foldl_Cons)
qed

lemma fnv_single_byte:
  assumes "length bs = length bs'" and "i < length bs" and "bs ! i \<noteq> bs' ! i"
    and same: "\<And>j. j < length bs \<Longrightarrow> j \<noteq> i \<Longrightarrow> bs ! j = bs' ! j"
  shows "foldl fnv_mix h bs \<noteq> foldl fnv_mix h bs'"
proof
  assume eq: "foldl fnv_mix h bs = foldl fnv_mix h bs'"
  have pre: "take i bs = take i bs'"
    using assms by (intro nth_equalityI) auto
  have post: "drop (Suc i) bs = drop (Suc i) bs'"
    using assms by (intro nth_equalityI) auto
  from eq have "foldl fnv_mix (fnv_mix (foldl fnv_mix h (take i bs)) (bs ! i)) (drop (Suc i) bs) =
    foldl fnv_mix (fnv_mix (foldl fnv_mix h (take i bs)) (bs' ! i)) (drop (Suc i) bs)"
    using foldl_split_nth [of i bs fnv_mix h] foldl_split_nth [of i bs' fnv_mix h] assms(1,2)
    by (simp only: pre post)
  then have "fnv_mix (foldl fnv_mix h (take i bs)) (bs ! i) =
    fnv_mix (foldl fnv_mix h (take i bs)) (bs' ! i)"
    by (rule foldl_fnv_mix_inj)
  then have "bs ! i = bs' ! i" by (rule fnv_mix_inj_byte)
  with assms(3) show False by simp
qed

subsection \<open>Near keys do not collide\<close>

text \<open>
  Two flow keys whose 37-byte encodings (addresses, ports and
  protocol, as the hash reads them) differ in exactly one byte have different hashes: the
  neighbouring hosts and ports of one subnet never share a hash value.
\<close>

theorem flow_key_hash_single_byte:
  assumes "wf_key k" and "wf_key k'" and "i < 37"
    and "key_bytes k ! i \<noteq> key_bytes k' ! i"
    and "\<And>j. j < 37 \<Longrightarrow> j \<noteq> i \<Longrightarrow> key_bytes k ! j = key_bytes k' ! j"
  shows "flow_key_hash k \<noteq> flow_key_hash k'"
  unfolding flow_key_hash_bytes
  by (rule fnv_single_byte [of _ _ i]) (use assms in \<open>simp_all add: length_key_bytes\<close>)

theorem flow_key_hash_single_byte_witness:
  "flow_key_hash (default_flow_key\<lparr>fk_protocol := 6\<rparr>) \<noteq>
   flow_key_hash (default_flow_key\<lparr>fk_protocol := 17\<rparr>)"
proof -
  let ?k = "\<lambda>p. default_flow_key\<lparr>fk_protocol := p\<rparr>"
  have wf: "wf_key (?k p)" for p by (simp add: wf_key_def default_flow_key_def)
  have b: "key_bytes (?k p) = (key_bytes default_flow_key)[36 := p]" for p
    by (simp add: key_bytes_def default_flow_key_def port_bytes_def list_update_append)
  have len: "length (key_bytes default_flow_key) = 37"
    by (simp add: length_key_bytes wf_key_def default_flow_key_def)
  have nth: "key_bytes (?k p) ! j = (if j = 36 then p else key_bytes default_flow_key ! j)"
    if "j < 37" for p j
    using that len by (simp add: b nth_list_update)
  show ?thesis
    by (rule flow_key_hash_single_byte [of _ _ 36]) (simp_all add: wf nth)
qed

end
