(* ===== verification/Flow_Event.thy ===== *)
theory Flow_Event
  imports Flow_Key
begin

section \<open>Flow states and flow events (events/flow\_state.hpp, events/flow\_event.hpp)\<close>

text \<open>
  The value types that travel from the flow table to the Kafka sink.  Default member
  initialisers are the \<open>default_\<dots>\<close> constants.
\<close>

record flow_state =
  fs_key :: flow_key
  fs_start_us :: i64
  fs_last_seen_us :: i64
  fs_packet_count :: u64
  fs_byte_count :: u64

definition default_flow_state :: flow_state where
  "default_flow_state =
     \<lparr>fs_key = default_flow_key, fs_start_us = 0, fs_last_seen_us = 0,
      fs_packet_count = 0, fs_byte_count = 0\<rparr>"

datatype flow_event_type = Start | End | Stats

datatype expire_reason = IdleTimeout | TcpTeardown

record flow_event =
  ev_type :: flow_event_type
  ev_state :: flow_state
  ev_timestamp_us :: i64
  ev_reason :: expire_reason

definition default_flow_event :: flow_event where
  "default_flow_event =
     \<lparr>ev_type = Start, ev_state = default_flow_state, ev_timestamp_us = 0,
      ev_reason = IdleTimeout\<rparr>"

abbreviation ev_key :: "flow_event \<Rightarrow> flow_key" where
  "ev_key e \<equiv> fs_key (ev_state e)"

subsection \<open>The enumerations as finite, ordered types\<close>

text \<open>The order is the order of the enumerators, as \<open>enum class : uint8_t\<close> has it.\<close>

fun event_type_code :: "flow_event_type \<Rightarrow> nat" where
  "event_type_code Start = 0"
| "event_type_code End = 1"
| "event_type_code Stats = 2"

instantiation flow_event_type :: linorder
begin

definition less_eq_flow_event_type :: "flow_event_type \<Rightarrow> flow_event_type \<Rightarrow> bool" where
  "less_eq_flow_event_type a b \<longleftrightarrow> event_type_code a \<le> event_type_code b"

definition less_flow_event_type :: "flow_event_type \<Rightarrow> flow_event_type \<Rightarrow> bool" where
  "less_flow_event_type a b \<longleftrightarrow> event_type_code a < event_type_code b"

instance
proof
  fix x y z :: flow_event_type
  show "(x < y) = (x \<le> y \<and> \<not> y \<le> x)" "x \<le> x" "x \<le> y \<or> y \<le> x"
    by (auto simp: less_eq_flow_event_type_def less_flow_event_type_def)
  show "x \<le> y \<Longrightarrow> y \<le> z \<Longrightarrow> x \<le> z"
    by (simp add: less_eq_flow_event_type_def)
  show "x \<le> y \<Longrightarrow> y \<le> x \<Longrightarrow> x = y"
    by (cases x; cases y; simp add: less_eq_flow_event_type_def)
qed

end

instantiation expire_reason :: enum
begin

definition enum_expire_reason :: "expire_reason list" where
  "enum_expire_reason = [IdleTimeout, TcpTeardown]"

definition enum_all_expire_reason :: "(expire_reason \<Rightarrow> bool) \<Rightarrow> bool" where
  "enum_all_expire_reason P \<longleftrightarrow> P IdleTimeout \<and> P TcpTeardown"

definition enum_ex_expire_reason :: "(expire_reason \<Rightarrow> bool) \<Rightarrow> bool" where
  "enum_ex_expire_reason P \<longleftrightarrow> P IdleTimeout \<or> P TcpTeardown"

instance
proof
  have all: "r = IdleTimeout \<or> r = TcpTeardown" for r :: expire_reason
    by (cases r) simp_all
  show "(UNIV :: expire_reason set) = set enum_class.enum"
    using all by (auto simp: enum_expire_reason_def)
  show "distinct (enum_class.enum :: expire_reason list)"
    by (simp add: enum_expire_reason_def)
  show "enum_class.enum_all P \<longleftrightarrow> Ball UNIV P" for P :: "expire_reason \<Rightarrow> bool"
    using all by (metis UNIV_I enum_all_expire_reason_def)
  show "enum_class.enum_ex P \<longleftrightarrow> Bex UNIV P" for P :: "expire_reason \<Rightarrow> bool"
    using all by (metis UNIV_I enum_ex_expire_reason_def)
qed

end

end
