(* ===== verification/Event_Queue.thy ===== *)
theory Event_Queue
  imports Flow_Event
begin

section \<open>The event queue (events/event\_queue.hpp)\<close>

text \<open>
  \<open>EventQueue<N>\<close>: a ring of \<open>N\<close> slots with two indices.  The template parameter is the
  first argument of every operation and \<open>valid_capacity\<close> is the class's \<open>static_assert\<close>.
  Here the operations are the complete bodies of \<open>push\<close>, \<open>pop\<close>, \<open>pop_wait\<close>, \<open>empty\<close> and
  \<open>size\<close>, each run without interference; Event\_Queue\_Conc interleaves their atomic
  accesses.  The model is parametric in the element type: it never looks into an event.

  \<open>eq_contents\<close> abstracts a ring to the list of its elements, oldest first.  The locale
  \<open>bounded_fifo\<close> states the contract of such a queue, its derived lemmas say that a run of
  pushes and pops delivers what was accepted, in order, each exactly once; the
  interpretation discharges the contract for the ring.
\<close>

record 'a event_queue =
  eq_buffer :: "'a list"
  eq_head :: size_t
  eq_tail :: size_t

definition valid_capacity :: "size_t \<Rightarrow> bool" where
  "valid_capacity n \<longleftrightarrow> 0 < n \<and> n AND (n - 1) = 0"

definition kDefaultEventQueueCapacity :: size_t where
  "kDefaultEventQueueCapacity = 65536"

text \<open>A new queue: \<open>N\<close> default-constructed elements, both indices zero.\<close>

definition eq_new :: "size_t \<Rightarrow> 'a \<Rightarrow> 'a event_queue" where
  "eq_new n d = \<lparr>eq_buffer = replicate (unat n) d, eq_head = 0, eq_tail = 0\<rparr>"

definition eq_push :: "size_t \<Rightarrow> 'a \<Rightarrow> 'a event_queue \<Rightarrow> bool \<times> 'a event_queue" where
  "eq_push n evt q =
     (let tail = eq_tail q;
          next_tail = (tail + 1) AND (n - 1)
      in if next_tail = eq_head q then (False, q)
         else (True, q\<lparr>eq_buffer := (eq_buffer q)[unat tail := evt], eq_tail := next_tail\<rparr>))"

definition eq_pop :: "size_t \<Rightarrow> 'a event_queue \<Rightarrow> 'a option \<times> 'a event_queue" where
  "eq_pop n q =
     (let head = eq_head q
      in if head = eq_tail q then (None, q)
         else (Some (eq_buffer q ! unat head), q\<lparr>eq_head := (head + 1) AND (n - 1)\<rparr>))"

text \<open>
  \<open>pop_wait\<close>: pop, and if that finds nothing wait for the condition variable or the timeout
  and pop once more.  What the producer does to the queue during the wait is the argument
  \<open>during\<close>.
\<close>

definition eq_pop_wait ::
  "size_t \<Rightarrow> ('a event_queue \<Rightarrow> 'a event_queue) \<Rightarrow> 'a event_queue \<Rightarrow>
   'a option \<times> 'a event_queue" where
  "eq_pop_wait n during q =
     (case eq_pop n q of
        (Some evt, q') \<Rightarrow> (Some evt, q')
      | (None, q') \<Rightarrow> eq_pop n (during q'))"

definition eq_empty :: "'a event_queue \<Rightarrow> bool" where
  "eq_empty q \<longleftrightarrow> eq_head q = eq_tail q"

definition eq_size :: "size_t \<Rightarrow> 'a event_queue \<Rightarrow> size_t" where
  "eq_size n q = (eq_tail q - eq_head q + n) AND (n - 1)"

subsection \<open>The contract of a bounded FIFO queue\<close>

datatype 'a queue_op = Push 'a | Pop

text \<open>
  A run of operations, with the elements the queue accepted and the elements it delivered,
  each in order.
\<close>

fun queue_run ::
  "('a \<Rightarrow> 'q \<Rightarrow> bool \<times> 'q) \<Rightarrow> ('q \<Rightarrow> 'a option \<times> 'q) \<Rightarrow> 'a queue_op list \<Rightarrow> 'q \<Rightarrow>
   'a list \<times> 'a list \<times> 'q" where
  "queue_run push pop [] q = ([], [], q)"
| "queue_run push pop (Push x # ops) q =
     (let (ok, q') = push x q; (ins, outs, q'') = queue_run push pop ops q'
      in ((if ok then x # ins else ins), outs, q''))"
| "queue_run push pop (Pop # ops) q =
     (let (r, q') = pop q; (ins, outs, q'') = queue_run push pop ops q'
      in (ins, (case r of Some x \<Rightarrow> x # outs | None \<Rightarrow> outs), q''))"

locale bounded_fifo =
  fixes push :: "'a \<Rightarrow> 'q \<Rightarrow> bool \<times> 'q"
    and pop :: "'q \<Rightarrow> 'a option \<times> 'q"
    and contents :: "'q \<Rightarrow> 'a list"
    and cap :: nat
    and valid :: "'q \<Rightarrow> bool"
  assumes push_full: "valid q \<Longrightarrow> length (contents q) = cap \<Longrightarrow> push x q = (False, q)"
    and push_room: "valid q \<Longrightarrow> length (contents q) < cap \<Longrightarrow>
      \<exists>q'. push x q = (True, q') \<and> valid q' \<and> contents q' = contents q @ [x]"
    and pop_nil: "valid q \<Longrightarrow> contents q = [] \<Longrightarrow> pop q = (None, q)"
    and pop_cons: "valid q \<Longrightarrow> contents q = x # xs \<Longrightarrow>
      \<exists>q'. pop q = (Some x, q') \<and> valid q' \<and> contents q' = xs"
    and bound: "valid q \<Longrightarrow> length (contents q) \<le> cap"
begin

lemma push_cases:
  assumes "valid q"
  obtains "length (contents q) = cap" "push x q = (False, q)"
  | q' where "length (contents q) < cap" "push x q = (True, q')" "valid q'"
      "contents q' = contents q @ [x]"
proof (cases "length (contents q) = cap")
  case True
  with assms push_full that(1) show ?thesis by blast
next
  case False
  with bound [OF assms] have "length (contents q) < cap" by simp
  with assms push_room that(2) show ?thesis by blast
qed

lemma pop_cases:
  assumes "valid q"
  obtains "contents q = []" "pop q = (None, q)"
  | x xs q' where "contents q = x # xs" "pop q = (Some x, q')" "valid q'" "contents q' = xs"
  using assms pop_nil pop_cons by (cases "contents q") blast+

lemma valid_push: "valid q \<Longrightarrow> valid (snd (push x q))"
  by (rule push_cases [of q x]) auto

lemma valid_pop: "valid q \<Longrightarrow> valid (snd (pop q))"
  by (rule pop_cases [of q]) auto

text \<open>What went in is what came out followed by what is left.\<close>

lemma run_fifo:
  assumes "valid q" and "queue_run push pop ops q = (ins, outs, q')"
  shows "valid q' \<and> contents q @ ins = outs @ contents q'"
  using assms
proof (induction ops arbitrary: q ins outs q')
  case Nil
  then show ?case by simp
next
  case (Cons op ops)
  show ?case
  proof (cases op)
    case (Push x)
    obtain ok q1 where p: "push x q = (ok, q1)" by fastforce
    obtain ins' outs' q2 where r: "queue_run push pop ops q1 = (ins', outs', q2)"
      using prod_cases3 by blast
    have "valid q2 \<and> contents q1 @ ins' = outs' @ contents q2"
      using Cons.IH [OF _ r] valid_push [OF Cons.prems(1), of x] p by simp
    with Cons.prems(2) Push p r show ?thesis
      by (cases rule: push_cases [OF Cons.prems(1), of x]) auto
  next
    case Pop
    obtain res q1 where p: "pop q = (res, q1)" by fastforce
    obtain ins' outs' q2 where r: "queue_run push pop ops q1 = (ins', outs', q2)"
      using prod_cases3 by blast
    have "valid q2 \<and> contents q1 @ ins' = outs' @ contents q2"
      using Cons.IH [OF _ r] valid_pop [OF Cons.prems(1)] p by simp
    with Cons.prems(2) Pop p r show ?thesis
      by (cases rule: pop_cases [OF Cons.prems(1)]) auto
  qed
qed

end

text \<open>A queue that can also be asked for its size and whether it is empty.\<close>

locale observed_fifo = bounded_fifo push pop contents cap valid
  for push :: "'a \<Rightarrow> 'q \<Rightarrow> bool \<times> 'q" and pop contents cap valid +
  fixes size_of :: "'q \<Rightarrow> nat" and is_empty :: "'q \<Rightarrow> bool"
  assumes size_contents: "valid q \<Longrightarrow> size_of q = length (contents q)"
    and empty_contents: "valid q \<Longrightarrow> is_empty q \<longleftrightarrow> contents q = []"
begin

lemma push_accepts_iff: "valid q \<Longrightarrow> fst (push x q) \<longleftrightarrow> size_of q < cap"
  by (rule push_cases [of q x]) (auto simp: size_contents)

lemma pop_delivers_iff: "valid q \<Longrightarrow> fst (pop q) = None \<longleftrightarrow> is_empty q"
  by (rule pop_cases [of q]) (auto simp: empty_contents)

lemma size_after_run:
  assumes "valid q" and "queue_run push pop ops q = (ins, outs, q')"
  shows "size_of q' + length outs = size_of q + length ins"
proof -
  from run_fifo [OF assms] have "valid q'" and "contents q @ ins = outs @ contents q'" by auto
  from arg_cong [OF this(2), of length] this(1) assms(1) show ?thesis
    by (simp add: size_contents)
qed

end

subsection \<open>The ring as a list\<close>

definition ring_count :: "size_t \<Rightarrow> 'a event_queue \<Rightarrow> nat" where
  "ring_count n q = (unat (eq_tail q) + unat n - unat (eq_head q)) mod unat n"

definition eq_contents :: "size_t \<Rightarrow> 'a event_queue \<Rightarrow> 'a list" where
  "eq_contents n q =
     map (\<lambda>i. eq_buffer q ! ((unat (eq_head q) + i) mod unat n)) [0 ..< ring_count n q]"

definition eq_valid :: "size_t \<Rightarrow> 'a event_queue \<Rightarrow> bool" where
  "eq_valid n q \<longleftrightarrow>
     length (eq_buffer q) = unat n \<and> eq_head q < n \<and> eq_tail q < n"

lemmas ring_defs = ring_count_def eq_contents_def eq_valid_def

lemma valid_capacityD:
  assumes "valid_capacity n"
  shows "0 < unat n" "unat (x AND (n - 1)) = unat x mod unat n"
  using assms and_pred_eq_mod [of n x]
  by (simp_all add: valid_capacity_def word_less_nat_alt)

text \<open>The index arithmetic, on naturals.  Wrapping of \<open>size_t\<close> does no harm: \<open>n\<close> divides \<open>2 ^ 64\<close>.\<close>

lemma succ_index:
  assumes n: "valid_capacity n" and i: "i < n"
  shows "unat ((i + 1) AND (n - 1)) = (unat i + 1) mod unat n"
proof -
  have "unat i < unat n" using i by (simp add: word_less_nat_alt)
  then have "unat (i + 1) = unat i + 1"
    using unat_size_less [of n] by (simp add: unat_word_ariths)
  then show ?thesis using valid_capacityD(2) [OF n, of "i + 1"] by simp
qed

lemma ring_count_cases:
  assumes "eq_valid n q"
  shows "ring_count n q =
    (if eq_head q \<le> eq_tail q then unat (eq_tail q) - unat (eq_head q)
     else unat (eq_tail q) + unat n - unat (eq_head q))"
proof (cases "eq_head q \<le> eq_tail q")
  case True
  then have "unat (eq_tail q) + unat n - unat (eq_head q) =
      unat (eq_tail q) - unat (eq_head q) + unat n"
    by (simp add: word_le_nat_alt)
  with True assms show ?thesis by (auto simp: ring_defs word_less_nat_alt)
next
  case False
  with assms show ?thesis by (auto simp: ring_defs word_less_nat_alt word_le_nat_alt)
qed

lemma eq_size_count:
  assumes n: "valid_capacity n" and v: "eq_valid n q"
  shows "unat (eq_size n q) = ring_count n q"
proof -
  let ?x = "unat (eq_tail q) + unat n - unat (eq_head q)"
  have "unat (eq_head q) \<le> unat (eq_tail q) + unat n"
    using v by (simp add: eq_valid_def word_less_nat_alt)
  then have "eq_tail q - eq_head q + n = word_of_nat ?x"
    by (simp add: of_nat_diff)
  then have "unat (eq_size n q) = unat (word_of_nat ?x :: size_t) mod unat n"
    using n by (simp add: eq_size_def valid_capacityD)
  also have "\<dots> = ?x mod 2 ^ 64 mod unat n"
    by (simp add: unat_of_nat)
  also have "\<dots> = ?x mod unat n"
    using n pow2_word_dvd [of n] by (simp add: valid_capacity_def mod_mod_cancel)
  finally show ?thesis by (simp add: ring_count_def)
qed

subsection \<open>Pushing and popping on the list\<close>

lemma eq_validD:
  assumes "eq_valid n q"
  shows "unat (eq_head q) < unat n" "unat (eq_tail q) < unat n"
    "length (eq_buffer q) = unat n" "ring_count n q < unat n"
    "(unat (eq_head q) + ring_count n q) mod unat n = unat (eq_tail q)"
  using assms ring_count_pos [of "unat (eq_head q)" "unat n" "unat (eq_tail q)"]
  by (auto simp: ring_defs word_less_nat_alt)

lemma ring_countI:
  assumes "eq_valid n q" and "c < unat n"
    and "(unat (eq_head q) + c) mod unat n = unat (eq_tail q)"
  shows "ring_count n q = c"
  using assms eq_validD [OF assms(1)] by (simp add: ring_count_def ring_count_unique)

lemma length_contents [simp]: "length (eq_contents n q) = ring_count n q"
  by (simp add: eq_contents_def)

lemma contents_nth:
  "i < ring_count n q \<Longrightarrow>
    eq_contents n q ! i = eq_buffer q ! ((unat (eq_head q) + i) mod unat n)"
  by (simp add: eq_contents_def)

lemma push_full_iff:
  assumes n: "valid_capacity n" and v: "eq_valid n q"
  shows "(eq_tail q + 1) AND (n - 1) = eq_head q \<longleftrightarrow> ring_count n q = unat n - 1"
proof -
  note d = eq_validD [OF v]
  have "(unat (eq_head q) + (ring_count n q + 1)) mod unat n = (unat (eq_tail q) + 1) mod unat n"
    using ring_pos_Suc [OF d(5)] by simp
  then have next_tail: "unat ((eq_tail q + 1) AND (n - 1)) =
      (unat (eq_head q) + (ring_count n q + 1)) mod unat n"
    using succ_index [OF n, of "eq_tail q"] v by (simp add: eq_valid_def)
  show ?thesis
  proof (cases "ring_count n q = unat n - 1")
    case True
    with d(1,4) next_tail have "unat ((eq_tail q + 1) AND (n - 1)) = unat (eq_head q)"
      by simp
    with True show ?thesis by (simp add: word_unat_eq_iff)
  next
    case False
    with d(4) have lt: "ring_count n q + 1 < unat n" by simp
    have "unat ((eq_tail q + 1) AND (n - 1)) \<noteq> unat (eq_head q)"
    proof
      assume "unat ((eq_tail q + 1) AND (n - 1)) = unat (eq_head q)"
      with next_tail d(1)
      have "(unat (eq_head q) + (ring_count n q + 1)) mod unat n = (unat (eq_head q) + 0) mod unat n"
        by simp
      then have "ring_count n q + 1 = 0" by (rule ring_pos_inj) (use lt in simp_all)
      then show False by simp
    qed
    with False show ?thesis by auto
  qed
qed

lemma eq_push_room:
  assumes n: "valid_capacity n" and v: "eq_valid n q" and room: "ring_count n q < unat n - 1"
  shows "\<exists>q'. eq_push n x q = (True, q') \<and> eq_valid n q' \<and>
    eq_contents n q' = eq_contents n q @ [x]"
proof -
  note d = eq_validD [OF v]
  let ?q' = "q\<lparr>eq_buffer := (eq_buffer q)[unat (eq_tail q) := x],
               eq_tail := (eq_tail q + 1) AND (n - 1)\<rparr>"
  have next_tail: "unat ((eq_tail q + 1) AND (n - 1)) = (unat (eq_tail q) + 1) mod unat n"
    using succ_index [OF n] v by (simp add: eq_valid_def)
  have push: "eq_push n x q = (True, ?q')"
    using push_full_iff [OF n v] room by (simp add: eq_push_def Let_def)
  have v': "eq_valid n ?q'"
    using v next_tail valid_capacityD(1) [OF n] by (simp add: eq_valid_def word_less_nat_alt)
  have count: "ring_count n ?q' = ring_count n q + 1"
  proof (rule ring_countI [OF v'])
    show "(unat (eq_head ?q') + (ring_count n q + 1)) mod unat n = unat (eq_tail ?q')"
      using next_tail ring_pos_Suc [OF d(5)] by simp
  qed (use room in simp)
  have "eq_contents n ?q' = eq_contents n q @ [x]"
  proof (rule nth_equalityI)
    show "length (eq_contents n ?q') = length (eq_contents n q @ [x])" by (simp add: count)
    fix i assume "i < length (eq_contents n ?q')"
    then have i: "i < ring_count n q + 1" by (simp add: count)
    have left: "eq_contents n ?q' ! i =
        (eq_buffer q)[unat (eq_tail q) := x] ! ((unat (eq_head q) + i) mod unat n)"
      using i count by (subst contents_nth) simp_all
    show "eq_contents n ?q' ! i = (eq_contents n q @ [x]) ! i"
    proof (cases "i = ring_count n q")
      case True
      then have "(unat (eq_head q) + i) mod unat n = unat (eq_tail q)" using d(5) by simp
      with True left d(2,3) show ?thesis by (simp add: nth_append)
    next
      case False
      with i have lt: "i < ring_count n q" by simp
      have "(unat (eq_head q) + i) mod unat n \<noteq> unat (eq_tail q)"
      proof
        assume "(unat (eq_head q) + i) mod unat n = unat (eq_tail q)"
        then have "i = ring_count n q"
          using ring_pos_inj [of "unat (eq_head q)" i "unat n" "ring_count n q"] lt d(4,5)
          by simp
        with lt show False by simp
      qed
      then show ?thesis using lt left by (simp add: contents_nth nth_append)
    qed
  qed
  with push v' show ?thesis by blast
qed

lemma eq_push_full:
  assumes "valid_capacity n" and "eq_valid n q" and "ring_count n q = unat n - 1"
  shows "eq_push n x q = (False, q)"
  using push_full_iff [OF assms(1,2)] assms(3) by (simp add: eq_push_def Let_def)

lemma eq_empty_iff: "eq_valid n q \<Longrightarrow> eq_empty q \<longleftrightarrow> eq_contents n q = []"
proof -
  assume v: "eq_valid n q"
  note d = eq_validD [OF v]
  have "eq_head q = eq_tail q \<longleftrightarrow> ring_count n q = 0"
  proof
    assume "eq_head q = eq_tail q"
    then show "ring_count n q = 0" using d(1) by (simp add: ring_count_def)
  next
    assume "ring_count n q = 0"
    with d(1,5) show "eq_head q = eq_tail q" by (simp add: word_unat_eq_iff)
  qed
  then show ?thesis by (simp add: eq_empty_def flip: length_0_conv)
qed

lemma eq_pop_empty: "eq_valid n q \<Longrightarrow> eq_contents n q = [] \<Longrightarrow> eq_pop n q = (None, q)"
  using eq_empty_iff [of n q] by (simp add: eq_pop_def eq_empty_def)

lemma eq_pop_cons:
  assumes n: "valid_capacity n" and v: "eq_valid n q" and c: "eq_contents n q = x # xs"
  shows "\<exists>q'. eq_pop n q = (Some x, q') \<and> eq_valid n q' \<and> eq_contents n q' = xs"
proof -
  note d = eq_validD [OF v]
  have count: "ring_count n q = Suc (length xs)"
    using arg_cong [OF c, of length] by simp
  let ?q' = "q\<lparr>eq_head := (eq_head q + 1) AND (n - 1)\<rparr>"
  have next_head: "unat ((eq_head q + 1) AND (n - 1)) = (unat (eq_head q) + 1) mod unat n"
    using succ_index [OF n] v by (simp add: eq_valid_def)
  have hd: "eq_buffer q ! unat (eq_head q) = x"
    using contents_nth [of 0 n q] c count d(1) by simp
  have pop: "eq_pop n q = (Some x, ?q')"
    using eq_empty_iff [OF v] c hd by (simp add: eq_pop_def eq_empty_def)
  have v': "eq_valid n ?q'"
    using v next_head valid_capacityD(1) [OF n] by (simp add: eq_valid_def word_less_nat_alt)
  have shift: "((unat (eq_head q) + 1) mod unat n + i) mod unat n =
      (unat (eq_head q) + Suc i) mod unat n" for i
    using ring_pos_shift [of "unat (eq_head q)" "unat n" i] by simp
  have count': "ring_count n ?q' = length xs"
  proof (rule ring_countI [OF v'])
    show "(unat (eq_head ?q') + length xs) mod unat n = unat (eq_tail ?q')"
      using shift [of "length xs"] d(5) count next_head by simp
  qed (use d(4) count in simp)
  have "eq_contents n ?q' = xs"
  proof (rule nth_equalityI)
    show "length (eq_contents n ?q') = length xs" by (simp add: count')
    fix i assume "i < length (eq_contents n ?q')"
    then have i: "i < length xs" by (simp add: count')
    then have "xs ! i = eq_contents n q ! Suc i" by (simp add: c)
    also have "\<dots> = eq_buffer q ! ((unat (eq_head q) + Suc i) mod unat n)"
      using i count by (intro contents_nth) simp
    also have "\<dots> = eq_contents n ?q' ! i"
      using i count' shift [of i] next_head by (simp add: contents_nth)
    finally show "eq_contents n ?q' ! i = xs ! i" ..
  qed
  with pop v' show ?thesis by blast
qed

lemma eq_valid_new: "valid_capacity n \<Longrightarrow> eq_valid n (eq_new n d)"
  by (simp add: eq_valid_def eq_new_def valid_capacity_def)

lemma eq_new_4: "eq_new 4 d = \<lparr>eq_buffer = [d, d, d, d], eq_head = 0, eq_tail = 0\<rparr>"
  by (simp add: eq_new_def replicate_small)

lemma eq_contents_new: "eq_contents n (eq_new n d) = []"
  by (simp add: eq_contents_def ring_count_def eq_new_def)

interpretation ring: observed_fifo
  "eq_push n" "eq_pop n" "eq_contents n" "unat n - 1" "\<lambda>q. valid_capacity n \<and> eq_valid n q"
  "\<lambda>q. unat (eq_size n q)" eq_empty for n
proof (unfold_locales, goal_cases)
  case (1 q x)
  then show ?case by (simp add: eq_push_full)
next
  case (2 q x)
  then show ?case using eq_push_room [of n q x] by auto
next
  case (3 q)
  then show ?case by (simp add: eq_pop_empty)
next
  case (4 q x xs)
  then show ?case using eq_pop_cons [of n q x xs] by auto
next
  case (5 q)
  then show ?case using eq_validD(4) [of n q] by simp
next
  case (6 q)
  then show ?case by (simp add: eq_size_count)
next
  case (7 q)
  then show ?case by (simp add: eq_empty_iff)
qed

subsection \<open>Properties of the queue\<close>

text \<open>The abstract queue: a list with a bound.\<close>

definition abs_push :: "nat \<Rightarrow> 'a \<Rightarrow> 'a list \<Rightarrow> bool \<times> 'a list" where
  "abs_push cap x xs = (if length xs < cap then (True, xs @ [x]) else (False, xs))"

fun abs_pop :: "'a list \<Rightarrow> 'a option \<times> 'a list" where
  "abs_pop [] = (None, [])"
| "abs_pop (x # xs) = (Some x, xs)"

text \<open>
  C14. Every operation of \<open>EventQueue<N>\<close> refines a list of at most
  \<open>N - 1\<close> elements: \<open>push\<close> appends and returns true unless the list has \<open>N - 1\<close> elements,
  in which case it returns false and stores nothing, \<open>pop\<close> removes and returns the oldest
  element, \<open>empty\<close> and \<open>size\<close> report the list's, and the indices stay in range.
\<close>

theorem event_queue_refines_list:
  assumes "valid_capacity n" and "eq_valid n q"
  shows "map_prod id (eq_contents n) (eq_push n x q) = abs_push (unat n - 1) x (eq_contents n q)
    \<and> eq_valid n (snd (eq_push n x q))
    \<and> map_prod id (eq_contents n) (eq_pop n q) = abs_pop (eq_contents n q)
    \<and> eq_valid n (snd (eq_pop n q))
    \<and> (eq_empty q \<longleftrightarrow> eq_contents n q = [])
    \<and> unat (eq_size n q) = length (eq_contents n q)"
proof -
  have v: "valid_capacity n \<and> eq_valid n q" using assms by simp
  have "map_prod id (eq_contents n) (eq_push n x q) = abs_push (unat n - 1) x (eq_contents n q)
      \<and> eq_valid n (snd (eq_push n x q))"
    by (rule ring.push_cases [OF v, of x]) (use assms in \<open>auto simp: abs_push_def\<close>)
  moreover have "map_prod id (eq_contents n) (eq_pop n q) = abs_pop (eq_contents n q)
      \<and> eq_valid n (snd (eq_pop n q))"
    by (rule ring.pop_cases [OF v]) (use assms in auto)
  ultimately show ?thesis using ring.empty_contents [OF v] ring.size_contents [OF v] by blast
qed

theorem event_queue_refines_list_witness:
  "map_prod id (eq_contents 4)
     (eq_push 4 (7 :: nat) \<lparr>eq_buffer = [1, 2, 3, 4], eq_head = 3, eq_tail = 1\<rparr>) =
     abs_push 3 7 [4, 1]"
proof -
  let ?q = "\<lparr>eq_buffer = [1, 2, 3, 4 :: nat], eq_head = 3, eq_tail = 1\<rparr>"
  have "eq_contents 4 ?q = [4, 1]"
    by (simp add: eq_contents_def ring_count_def upt_rec)
  moreover have "valid_capacity 4" and "eq_valid 4 ?q"
    by (simp_all add: valid_capacity_def eq_valid_def)
  ultimately show ?thesis using event_queue_refines_list [of 4 ?q 7] by simp
qed

text \<open>
  In any run of pushes and pops on a new queue, the events delivered,
  followed by those still in the queue, are exactly the events accepted, in the order they
  were accepted: none is lost, duplicated or reordered, and at most \<open>N - 1\<close> are in flight.
\<close>

theorem event_queue_fifo:
  assumes "valid_capacity n"
    and "queue_run (eq_push n) (eq_pop n) ops (eq_new n d) = (ins, outs, q)"
  shows "ins = outs @ eq_contents n q \<and> unat (eq_size n q) = length ins - length outs
    \<and> length ins - length outs \<le> unat n - 1"
proof -
  have new: "valid_capacity n \<and> eq_valid n (eq_new n d)"
    using assms(1) by (simp add: eq_valid_new)
  from ring.run_fifo [OF new assms(2)]
  have v: "valid_capacity n \<and> eq_valid n q" and ins: "ins = outs @ eq_contents n q"
    by (simp_all add: eq_contents_new)
  from ins ring.bound [OF v] ring.size_contents [OF v] show ?thesis by simp
qed

theorem event_queue_fifo_witness:
  "\<exists>ins outs q. queue_run (eq_push 4) (eq_pop 4) [Push 1, Push 2, Pop, Push 3, Push 4, Push 5]
      (eq_new 4 (0 :: nat)) = (ins, outs, q) \<and> ins = [1, 2, 3, 4] \<and> outs = [1]
      \<and> ins = outs @ eq_contents 4 q"
proof -
  obtain ins outs q where r: "queue_run (eq_push 4) (eq_pop 4)
      [Push 1, Push 2, Pop, Push 3, Push 4, Push 5] (eq_new 4 (0 :: nat)) = (ins, outs, q)"
    using prod_cases3 by blast
  moreover have "ins = [1, 2, 3, 4]" "outs = [1]"
    using r by (auto simp: eq_push_def eq_pop_def eq_new_4 Let_def)
  moreover have "valid_capacity 4" by (simp add: valid_capacity_def)
  ultimately show ?thesis using event_queue_fifo [OF _ r] by blast
qed

text \<open>
  \<open>pop_wait\<close> returns the oldest element whenever the queue holds one,
  otherwise the oldest of whatever the producer put in during the wait, and nothing only if
  the queue was empty both before and after it.
\<close>

theorem event_queue_pop_wait:
  assumes "valid_capacity n" and "eq_valid n q" and "eq_valid n (during q)"
  shows "fst (eq_pop_wait n during q) =
    (case eq_contents n q of
       x # _ \<Rightarrow> Some x
     | [] \<Rightarrow> (case eq_contents n (during q) of x # _ \<Rightarrow> Some x | [] \<Rightarrow> None))"
proof (cases "eq_contents n q")
  case (Cons x xs)
  then show ?thesis using eq_pop_cons [OF assms(1,2)] by (auto simp: eq_pop_wait_def)
next
  case Nil
  then have "eq_pop_wait n during q = eq_pop n (during q)"
    using eq_pop_empty [OF assms(2)] by (simp add: eq_pop_wait_def)
  then show ?thesis
    using Nil eq_pop_empty [OF assms(3)] eq_pop_cons [OF assms(1,3)]
    by (auto split: list.splits)
qed

theorem event_queue_pop_wait_witness:
  "fst (eq_pop_wait 4 (\<lambda>q. snd (eq_push 4 (9 :: nat) q)) (eq_new 4 0)) = Some 9"
proof -
  have n: "valid_capacity 4" by (simp add: valid_capacity_def)
  let ?q = "eq_new 4 (0 :: nat)"
  have v: "eq_valid 4 ?q" using n by (rule eq_valid_new)
  have v': "eq_valid 4 (snd (eq_push 4 9 ?q))" using ring.valid_push [of 4 ?q 9] n v by simp
  have c: "eq_contents 4 ?q = []" "eq_contents 4 (snd (eq_push 4 9 ?q)) = [9]"
    by (simp_all add: eq_push_def eq_new_def eq_contents_def ring_count_def)
  show ?thesis
    using event_queue_pop_wait [OF n v, of "\<lambda>q. snd (eq_push 4 9 q)"] v' c by simp
qed

end
