(* ===== verification/Event_Queue_Conc.thy ===== *)
theory Event_Queue_Conc
  imports Event_Queue
begin

section \<open>The event queue with a producer and a consumer running at once\<close>

text \<open>
  \<open>push\<close> and \<open>pop\<close> of events/event\_queue.hpp as two threads, one step per access to shared
  memory.  \<open>head_\<close> and \<open>tail_\<close> are each written by one thread only; the state keeps all the
  values ever stored in them (their modification order).  A thread reads the latest value of
  its own index.  An acquire load of the other thread's index may return any stored value
  that is not older than the last one the thread has seen, so the model covers stale reads
  and not only sequentially consistent interleavings.  The slots are plain memory;
  \<open>spsc_no_race\<close> shows that the two threads never touch one slot at the same time and that
  each access is preceded by an observed release, which is what makes plain memory right.
\<close>

datatype 'a prod_pc =
    P_Idle
  | P_Tail 'a size_t           \<comment> \<open>\<open>tail\<close> loaded, \<open>head_\<close> not yet compared\<close>
  | P_Room 'a size_t size_t    \<comment> \<open>not full: about to write slot \<open>tail\<close>\<close>
  | P_Written 'a size_t        \<comment> \<open>slot written: about to store \<open>next_tail\<close>\<close>

datatype 'a cons_pc =
    C_Idle
  | C_Head size_t              \<comment> \<open>\<open>head\<close> loaded, \<open>tail_\<close> not yet compared\<close>
  | C_Some size_t              \<comment> \<open>not empty: about to read slot \<open>head\<close>\<close>
  | C_Read size_t 'a           \<comment> \<open>slot read: about to store the new head\<close>

record 'a spsc =
  sq_buffer :: "'a list"
  sq_heads :: "size_t list"
  sq_tails :: "size_t list"
  sq_prod :: "'a prod_pc"
  sq_cons :: "'a cons_pc"
  sq_head_seen :: nat
  sq_tail_seen :: nat
  sq_accepted :: "'a list"
  sq_delivered :: "'a list"

definition sq_new :: "size_t \<Rightarrow> 'a \<Rightarrow> 'a spsc" where
  "sq_new n d =
     \<lparr>sq_buffer = replicate (unat n) d, sq_heads = [0], sq_tails = [0], sq_prod = P_Idle,
      sq_cons = C_Idle, sq_head_seen = 0, sq_tail_seen = 0, sq_accepted = [],
      sq_delivered = []\<rparr>"

inductive sq_step :: "size_t \<Rightarrow> 'a spsc \<Rightarrow> 'a spsc \<Rightarrow> bool" for n :: size_t where
  p_load_tail:
    "sq_prod s = P_Idle \<Longrightarrow> sq_step n s (s\<lparr>sq_prod := P_Tail evt (last (sq_tails s))\<rparr>)"
| p_full:
    "sq_prod s = P_Tail evt tail \<Longrightarrow> sq_head_seen s \<le> i \<Longrightarrow> i < length (sq_heads s) \<Longrightarrow>
     (tail + 1) AND (n - 1) = sq_heads s ! i \<Longrightarrow>
     sq_step n s (s\<lparr>sq_prod := P_Idle, sq_head_seen := i\<rparr>)"
| p_room:
    "sq_prod s = P_Tail evt tail \<Longrightarrow> sq_head_seen s \<le> i \<Longrightarrow> i < length (sq_heads s) \<Longrightarrow>
     (tail + 1) AND (n - 1) \<noteq> sq_heads s ! i \<Longrightarrow>
     sq_step n s (s\<lparr>sq_prod := P_Room evt tail ((tail + 1) AND (n - 1)), sq_head_seen := i\<rparr>)"
| p_write:
    "sq_prod s = P_Room evt tail next_tail \<Longrightarrow>
     sq_step n s (s\<lparr>sq_prod := P_Written evt next_tail,
                    sq_buffer := (sq_buffer s)[unat tail := evt]\<rparr>)"
| p_store_tail:
    "sq_prod s = P_Written evt next_tail \<Longrightarrow>
     sq_step n s (s\<lparr>sq_prod := P_Idle, sq_tails := sq_tails s @ [next_tail],
                    sq_accepted := sq_accepted s @ [evt]\<rparr>)"
| c_load_head:
    "sq_cons s = C_Idle \<Longrightarrow> sq_step n s (s\<lparr>sq_cons := C_Head (last (sq_heads s))\<rparr>)"
| c_empty:
    "sq_cons s = C_Head head \<Longrightarrow> sq_tail_seen s \<le> i \<Longrightarrow> i < length (sq_tails s) \<Longrightarrow>
     head = sq_tails s ! i \<Longrightarrow>
     sq_step n s (s\<lparr>sq_cons := C_Idle, sq_tail_seen := i\<rparr>)"
| c_some:
    "sq_cons s = C_Head head \<Longrightarrow> sq_tail_seen s \<le> i \<Longrightarrow> i < length (sq_tails s) \<Longrightarrow>
     head \<noteq> sq_tails s ! i \<Longrightarrow>
     sq_step n s (s\<lparr>sq_cons := C_Some head, sq_tail_seen := i\<rparr>)"
| c_read:
    "sq_cons s = C_Some head \<Longrightarrow>
     sq_step n s (s\<lparr>sq_cons := C_Read head (sq_buffer s ! unat head)\<rparr>)"
| c_store_head:
    "sq_cons s = C_Read head evt \<Longrightarrow>
     sq_step n s (s\<lparr>sq_cons := C_Idle, sq_heads := sq_heads s @ [(head + 1) AND (n - 1)],
                    sq_delivered := sq_delivered s @ [evt]\<rparr>)"

inductive sq_reachable :: "size_t \<Rightarrow> 'a \<Rightarrow> 'a spsc \<Rightarrow> bool" for n d where
  sq_start: "sq_reachable n d (sq_new n d)"
| sq_next: "sq_reachable n d s \<Longrightarrow> sq_step n s t \<Longrightarrow> sq_reachable n d t"

inductive_cases sq_stepE: "sq_step n s t"

subsection \<open>The invariant\<close>

text \<open>The \<open>i\<close>-th value stored in an index is \<open>i mod N\<close>.\<close>

definition ring_history :: "nat \<Rightarrow> size_t list \<Rightarrow> nat \<Rightarrow> bool" where
  "ring_history N xs k \<longleftrightarrow> length xs = Suc k \<and> (\<forall>i \<le> k. unat (xs ! i) = i mod N)"

fun prod_inv :: "nat \<Rightarrow> 'a list \<Rightarrow> nat \<Rightarrow> nat \<Rightarrow> 'a prod_pc \<Rightarrow> bool" where
  "prod_inv N buf T seen P_Idle \<longleftrightarrow> True"
| "prod_inv N buf T seen (P_Tail evt tail) \<longleftrightarrow> unat tail = T mod N"
| "prod_inv N buf T seen (P_Room evt tail next_tail) \<longleftrightarrow>
     unat tail = T mod N \<and> unat next_tail = Suc T mod N \<and> Suc T < seen + N"
| "prod_inv N buf T seen (P_Written evt next_tail) \<longleftrightarrow>
     buf ! (T mod N) = evt \<and> unat next_tail = Suc T mod N \<and> Suc T < seen + N"

fun cons_inv :: "nat \<Rightarrow> 'a list \<Rightarrow> nat \<Rightarrow> nat \<Rightarrow> 'a cons_pc \<Rightarrow> bool" where
  "cons_inv N acc H seen C_Idle \<longleftrightarrow> True"
| "cons_inv N acc H seen (C_Head head) \<longleftrightarrow> unat head = H mod N"
| "cons_inv N acc H seen (C_Some head) \<longleftrightarrow> unat head = H mod N \<and> H < seen"
| "cons_inv N acc H seen (C_Read head evt) \<longleftrightarrow>
     unat head = H mod N \<and> H < seen \<and> acc ! H = evt"

definition sq_inv :: "size_t \<Rightarrow> 'a spsc \<Rightarrow> bool" where
  "sq_inv n s \<longleftrightarrow>
     (let N = unat n; H = length (sq_delivered s); T = length (sq_accepted s) in
      length (sq_buffer s) = N \<and>
      ring_history N (sq_heads s) H \<and> ring_history N (sq_tails s) T \<and>
      sq_head_seen s \<le> H \<and> H \<le> sq_tail_seen s \<and> sq_tail_seen s \<le> T \<and>
      T < sq_head_seen s + N \<and>
      sq_delivered s = take H (sq_accepted s) \<and>
      (\<forall>i. H \<le> i \<longrightarrow> i < T \<longrightarrow> sq_buffer s ! (i mod N) = sq_accepted s ! i) \<and>
      prod_inv N (sq_buffer s) T (sq_head_seen s) (sq_prod s) \<and>
      cons_inv N (sq_accepted s) H (sq_tail_seen s) (sq_cons s))"

lemma ring_history_last: "ring_history N xs k \<Longrightarrow> unat (last xs) = k mod N"
  by (cases xs rule: rev_cases) (auto simp: ring_history_def nth_append)

lemma ring_history_snoc:
  "ring_history N xs k \<Longrightarrow> unat x = Suc k mod N \<Longrightarrow> ring_history N (xs @ [x]) (Suc k)"
  by (auto simp: ring_history_def nth_append le_Suc_eq)

lemma ring_history_nth: "ring_history N xs k \<Longrightarrow> i < length xs \<Longrightarrow> unat (xs ! i) = i mod N"
  by (simp add: ring_history_def)

lemma ring_history_length: "ring_history N xs k \<Longrightarrow> length xs = Suc k"
  by (simp add: ring_history_def)

text \<open>Two positions less than a lap apart are different slots.\<close>

lemma slot_neq: "i < j \<Longrightarrow> j < i + N \<Longrightarrow> i mod N \<noteq> j mod (N :: nat)"
proof
  assume lt: "i < j" "j < i + N" and eq: "i mod N = j mod N"
  then have "0 < N" and "j - i < N" by linarith+
  with ring_pos_inj [of i 0 N "j - i"] lt eq show False by simp
qed

lemma mask_succ:
  assumes "valid_capacity n" and "unat i = k mod unat n"
  shows "unat ((i + 1) AND (n - 1)) = Suc k mod unat n"
proof -
  have "i < n"
    using assms valid_capacityD(1) [OF assms(1)] by (simp add: word_less_nat_alt)
  then show ?thesis using succ_index [OF assms(1)] assms(2) by (simp add: mod_Suc_eq)
qed

lemma sq_inv_new: "valid_capacity n \<Longrightarrow> sq_inv n (sq_new n d)"
  by (auto simp: sq_inv_def sq_new_def ring_history_def valid_capacityD)

lemma sq_inv_p_room:
  assumes n: "valid_capacity n" and inv: "sq_inv n s"
    and pc: "sq_prod s = P_Tail evt tail"
    and i: "sq_head_seen s \<le> i" "i < length (sq_heads s)"
    and room: "(tail + 1) AND (n - 1) \<noteq> sq_heads s ! i"
  shows "sq_inv n (s\<lparr>sq_prod := P_Room evt tail ((tail + 1) AND (n - 1)), sq_head_seen := i\<rparr>)"
proof -
  let ?T = "length (sq_accepted s)" and ?H = "length (sq_delivered s)"
  note d = inv [unfolded sq_inv_def Let_def]
  have tail: "unat tail = ?T mod unat n" using d pc by simp
  have nt: "unat ((tail + 1) AND (n - 1)) = Suc ?T mod unat n"
    using mask_succ [OF n tail] .
  have iH: "i \<le> ?H" using d i(2) ring_history_length by fastforce
  have hi: "unat (sq_heads s ! i) = i mod unat n" using d i(2) ring_history_nth by blast
  have "Suc ?T \<noteq> i + unat n"
    using room nt hi by (auto simp: word_unat_eq_iff)
  with d i have "Suc ?T < i + unat n" by linarith
  with d pc tail nt iH show ?thesis by (simp add: sq_inv_def Let_def)
qed

lemma sq_inv_c_some:
  assumes n: "valid_capacity n" and inv: "sq_inv n s"
    and pc: "sq_cons s = C_Head head"
    and i: "sq_tail_seen s \<le> i" "i < length (sq_tails s)"
    and some: "head \<noteq> sq_tails s ! i"
  shows "sq_inv n (s\<lparr>sq_cons := C_Some head, sq_tail_seen := i\<rparr>)"
proof -
  let ?T = "length (sq_accepted s)" and ?H = "length (sq_delivered s)"
  note d = inv [unfolded sq_inv_def Let_def]
  have head: "unat head = ?H mod unat n" using d pc by simp
  have iT: "i \<le> ?T" using d i(2) ring_history_length by fastforce
  have ti: "unat (sq_tails s ! i) = i mod unat n" using d i(2) ring_history_nth by blast
  have "i \<noteq> ?H" using some head ti by (auto simp: word_unat_eq_iff)
  with d i have "?H < i" by linarith
  with d pc head iT show ?thesis by (simp add: sq_inv_def Let_def)
qed

lemma sq_inv_p_write:
  assumes n: "valid_capacity n" and inv: "sq_inv n s"
    and pc: "sq_prod s = P_Room evt tail next_tail"
  shows "sq_inv n (s\<lparr>sq_prod := P_Written evt next_tail,
                     sq_buffer := (sq_buffer s)[unat tail := evt]\<rparr>)"
proof -
  let ?T = "length (sq_accepted s)" and ?H = "length (sq_delivered s)" and ?N = "unat n"
  note d = inv [unfolded sq_inv_def Let_def]
  have tail: "unat tail = ?T mod ?N" and lt: "Suc ?T < sq_head_seen s + ?N" using d pc by simp_all
  have "(sq_buffer s)[unat tail := evt] ! (i mod ?N) = sq_accepted s ! i"
    if "?H \<le> i" "i < ?T" for i
  proof -
    have "i mod ?N \<noteq> ?T mod ?N" by (rule slot_neq) (use that d lt in linarith)+
    with that d tail show ?thesis by simp
  qed
  moreover have "(sq_buffer s)[unat tail := evt] ! (?T mod ?N) = evt"
    using d tail valid_capacityD(1) [OF n] by simp
  ultimately show ?thesis using d pc by (simp add: sq_inv_def Let_def)
qed

lemma sq_inv_p_store_tail:
  assumes inv: "sq_inv n s" and pc: "sq_prod s = P_Written evt next_tail"
  shows "sq_inv n (s\<lparr>sq_prod := P_Idle, sq_tails := sq_tails s @ [next_tail],
                     sq_accepted := sq_accepted s @ [evt]\<rparr>)"
proof -
  let ?T = "length (sq_accepted s)" and ?H = "length (sq_delivered s)" and ?N = "unat n"
  note d = inv [unfolded sq_inv_def Let_def]
  have "ring_history ?N (sq_tails s @ [next_tail]) (Suc ?T)"
    using d pc by (auto intro: ring_history_snoc)
  moreover have "cons_inv ?N (sq_accepted s @ [evt]) ?H (sq_tail_seen s) (sq_cons s)"
    using d by (cases "sq_cons s") (auto simp: nth_append)
  moreover have "sq_buffer s ! (i mod ?N) = (sq_accepted s @ [evt]) ! i"
    if "?H \<le> i" "i < Suc ?T" for i
    using that d pc by (cases "i = ?T") (auto simp: nth_append)
  ultimately show ?thesis using d pc by (simp add: sq_inv_def Let_def)
qed

lemma sq_inv_c_read:
  assumes inv: "sq_inv n s" and pc: "sq_cons s = C_Some head"
  shows "sq_inv n (s\<lparr>sq_cons := C_Read head (sq_buffer s ! unat head)\<rparr>)"
  using assms by (auto simp: sq_inv_def Let_def)

lemma sq_inv_c_store_head:
  assumes n: "valid_capacity n" and inv: "sq_inv n s" and pc: "sq_cons s = C_Read head evt"
  shows "sq_inv n (s\<lparr>sq_cons := C_Idle, sq_heads := sq_heads s @ [(head + 1) AND (n - 1)],
                     sq_delivered := sq_delivered s @ [evt]\<rparr>)"
proof -
  let ?T = "length (sq_accepted s)" and ?H = "length (sq_delivered s)" and ?N = "unat n"
  note d = inv [unfolded sq_inv_def Let_def]
  have head: "unat head = ?H mod ?N" and H: "?H < sq_tail_seen s" "sq_accepted s ! ?H = evt"
    using d pc by simp_all
  have "ring_history ?N (sq_heads s @ [(head + 1) AND (n - 1)]) (Suc ?H)"
    using d mask_succ [OF n head] by (auto intro: ring_history_snoc)
  moreover have "sq_delivered s @ [evt] = take (Suc ?H) (sq_accepted s)"
    using d H by (auto simp: take_Suc_conv_app_nth)
  ultimately show ?thesis using d pc H by (simp add: sq_inv_def Let_def)
qed

lemma sq_step_inv:
  assumes n: "valid_capacity n" and step: "sq_step n s t" and inv: "sq_inv n s"
  shows "sq_inv n t"
  using step
proof cases
  case (p_load_tail evt)
  with inv show ?thesis by (auto simp: sq_inv_def Let_def ring_history_last)
next
  case (p_full evt tail i)
  then have "i \<le> length (sq_delivered s)"
    using inv by (auto simp: sq_inv_def Let_def dest: ring_history_length)
  with p_full inv show ?thesis by (simp add: sq_inv_def Let_def)
next
  case (c_load_head)
  with inv show ?thesis by (auto simp: sq_inv_def Let_def ring_history_last)
next
  case (c_empty head i)
  then have "i \<le> length (sq_accepted s)"
    using inv by (auto simp: sq_inv_def Let_def dest: ring_history_length)
  with c_empty inv show ?thesis by (simp add: sq_inv_def Let_def)
qed (use n inv in \<open>simp_all add: sq_inv_p_room sq_inv_c_some sq_inv_p_write sq_inv_p_store_tail
       sq_inv_c_read sq_inv_c_store_head\<close>)

lemma sq_reachable_inv: "sq_reachable n d s \<Longrightarrow> valid_capacity n \<Longrightarrow> sq_inv n s"
  by (induction rule: sq_reachable.induct) (auto intro: sq_inv_new sq_step_inv)

subsection \<open>Properties of the concurrent queue\<close>

text \<open>A run with one event accepted, the consumer about to read it and a second push under way.\<close>

definition sq_sample :: "nat spsc" where
  "sq_sample =
     \<lparr>sq_buffer = [7, 0, 0, 0], sq_heads = [0], sq_tails = [0, 1], sq_prod = P_Room 8 1 2,
      sq_cons = C_Some 0, sq_head_seen = 0, sq_tail_seen = 1, sq_accepted = [7],
      sq_delivered = []\<rparr>"

lemma sq_sample_reachable: "sq_reachable 4 0 sq_sample"
proof -
  note reach = sq_next [where n = 4 and d = "0 :: nat"]
  let ?s = "\<lambda>(b :: nat list) ts p c k acc. \<lparr>sq_buffer = b, sq_heads = [0], sq_tails = ts, sq_prod = p,
    sq_cons = c, sq_head_seen = 0, sq_tail_seen = k, sq_accepted = acc, sq_delivered = []\<rparr>"
  have "sq_new 4 (0 :: nat) = ?s [0, 0, 0, 0] [0] P_Idle C_Idle 0 []"
    by (simp add: sq_new_def replicate_small)
  then have "sq_reachable 4 0 (?s [0, 0, 0, 0] [0] P_Idle C_Idle 0 [])"
    using sq_start [of 4 "0 :: nat"] by simp
  from reach [OF this p_load_tail [where evt = 7]]
  have "sq_reachable 4 0 (?s [0, 0, 0, 0] [0] (P_Tail 7 0) C_Idle 0 [])" by simp
  from reach [OF this p_room [where i = 0 and evt = 7 and tail = 0]]
  have "sq_reachable 4 0 (?s [0, 0, 0, 0] [0] (P_Room 7 0 1) C_Idle 0 [])" by simp
  from reach [OF this p_write [where evt = 7 and tail = 0 and next_tail = 1]]
  have "sq_reachable 4 0 (?s [7, 0, 0, 0] [0] (P_Written 7 1) C_Idle 0 [])" by simp
  from reach [OF this p_store_tail [where evt = 7 and next_tail = 1]]
  have "sq_reachable 4 0 (?s [7, 0, 0, 0] [0, 1] P_Idle C_Idle 0 [7])" by simp
  from reach [OF this c_load_head]
  have "sq_reachable 4 0 (?s [7, 0, 0, 0] [0, 1] P_Idle (C_Head 0) 0 [7])" by simp
  from reach [OF this p_load_tail [where evt = 8]]
  have "sq_reachable 4 0 (?s [7, 0, 0, 0] [0, 1] (P_Tail 8 1) (C_Head 0) 0 [7])" by simp
  from reach [OF this c_some [where i = 1 and head = 0]]
  have "sq_reachable 4 0 (?s [7, 0, 0, 0] [0, 1] (P_Tail 8 1) (C_Some 0) 1 [7])" by simp
  from reach [OF this p_room [where i = 0 and evt = 8 and tail = 1]]
  have "sq_reachable 4 0 (?s [7, 0, 0, 0] [0, 1] (P_Room 8 1 2) (C_Some 0) 1 [7])" by simp
  then show ?thesis by (simp add: sq_sample_def)
qed

lemma valid_capacity_4: "valid_capacity 4"
  by (simp add: valid_capacity_def)

text \<open>
  C5. With a producer and a consumer interleaved at the level of their atomic
  accesses, stale acquire loads included, the events the consumer has got are at every
  moment a prefix of the events the producer has published, in the same order, and at most
  \<open>N - 1\<close> published events are outstanding.
\<close>

theorem spsc_fifo:
  assumes "valid_capacity n" and "sq_reachable n d s"
  shows "sq_delivered s = take (length (sq_delivered s)) (sq_accepted s)
    \<and> length (sq_accepted s) \<le> length (sq_delivered s) + (unat n - 1)"
proof -
  from sq_reachable_inv [OF assms(2,1)] have inv: "sq_inv n s" .
  then have "length (sq_accepted s) < length (sq_delivered s) + unat n"
    and "sq_delivered s = take (length (sq_delivered s)) (sq_accepted s)"
    unfolding sq_inv_def Let_def by linarith+
  then show ?thesis by linarith
qed

theorem spsc_fifo_witness:
  "sq_delivered sq_sample = take 0 [7] \<and> length (sq_accepted sq_sample) \<le> 0 + 3"
  using spsc_fifo [OF valid_capacity_4 sq_sample_reachable] by (simp add: sq_sample_def)

text \<open>
  C17. Whatever the other thread is doing, the producer about to write a slot has seen
  the head store that released that slot: every earlier event that was kept there had been
  taken by one of the pops whose stores it has seen.  The consumer about to read a slot has seen the
  tail store that published the event there, and reads that event.  Consequently the two are
  never at the same slot.
\<close>

theorem spsc_no_race:
  assumes "valid_capacity n" and "sq_reachable n d s"
  shows "(\<forall>evt tail next_tail. sq_prod s = P_Room evt tail next_tail \<longrightarrow>
      unat tail = length (sq_accepted s) mod unat n \<and>
      (\<forall>k < length (sq_accepted s). k mod unat n = unat tail \<longrightarrow> k < sq_head_seen s) \<and>
      sq_head_seen s < length (sq_heads s))
    \<and> (\<forall>head. sq_cons s = C_Some head \<longrightarrow>
      unat head = length (sq_delivered s) mod unat n \<and>
      length (sq_delivered s) < sq_tail_seen s \<and> sq_tail_seen s < length (sq_tails s) \<and>
      sq_buffer s ! unat head = sq_accepted s ! length (sq_delivered s))
    \<and> (\<forall>evt tail next_tail head.
      sq_prod s = P_Room evt tail next_tail \<and> sq_cons s = C_Some head \<longrightarrow> tail \<noteq> head)"
proof -
  let ?T = "length (sq_accepted s)" and ?H = "length (sq_delivered s)" and ?N = "unat n"
  note d = sq_reachable_inv [OF assms(2,1), unfolded sq_inv_def Let_def]
  have len: "length (sq_heads s) = Suc ?H" "length (sq_tails s) = Suc ?T"
    using d by (auto dest: ring_history_length)
  have prod: "unat tail = ?T mod ?N \<and> Suc ?T < sq_head_seen s + ?N"
    if "sq_prod s = P_Room evt tail next_tail" for evt tail next_tail using d that by simp
  have cons: "unat head = ?H mod ?N \<and> ?H < sq_tail_seen s" if "sq_cons s = C_Some head" for head
    using d that by simp
  have seen: "k < sq_head_seen s"
    if "Suc ?T < sq_head_seen s + ?N" "k < ?T" "k mod ?N = ?T mod ?N" for k
    using slot_neq [of k ?T ?N] that by linarith
  have "sq_buffer s ! (?H mod ?N) = sq_accepted s ! ?H" if "?H < sq_tail_seen s" using d that by simp
  moreover have "?H mod ?N \<noteq> ?T mod ?N" if "?H < sq_tail_seen s"
    by (rule slot_neq) (use d that in linarith)+
  moreover have "sq_head_seen s < Suc ?H" "sq_tail_seen s < Suc ?T" using d by linarith+
  ultimately show ?thesis using prod cons seen len by (metis (no_types))
qed

theorem spsc_no_race_witness:
  "(1 :: size_t) \<noteq> 0 \<and> sq_head_seen sq_sample < length (sq_heads sq_sample) \<and>
   sq_buffer sq_sample ! 0 = sq_accepted sq_sample ! 0"
  using spsc_no_race [OF valid_capacity_4 sq_sample_reachable]
  by (simp add: sq_sample_def)

text \<open>
  A push that returns false stored nothing and found all \<open>N - 1\<close> places
  taken: it had seen the release of exactly \<open>N - 1\<close> events fewer than it had published.
\<close>

theorem spsc_push_refused:
  assumes "valid_capacity n" and "sq_reachable n d s" and "sq_step n s t"
    and "sq_prod s = P_Tail evt tail" and "sq_prod t = P_Idle"
  shows "length (sq_accepted t) = sq_head_seen t + (unat n - 1)
    \<and> sq_accepted t = sq_accepted s \<and> sq_buffer t = sq_buffer s \<and> sq_tails t = sq_tails s"
proof -
  let ?T = "length (sq_accepted s)" and ?H = "length (sq_delivered s)" and ?N = "unat n"
  note d = sq_reachable_inv [OF assms(2,1), unfolded sq_inv_def Let_def]
  show ?thesis
    using assms(3)
  proof cases
    case (p_full evt' tail' i)
    have "unat tail' = ?T mod ?N" using d p_full by simp
    then have "unat (sq_heads s ! i) = Suc ?T mod ?N"
      using mask_succ [OF assms(1)] p_full by metis
    moreover have "unat (sq_heads s ! i) = i mod ?N" and "i \<le> ?H"
      using d p_full by (auto simp: ring_history_nth dest: ring_history_length)
    ultimately have "i mod ?N = Suc ?T mod ?N" by simp
    then have "\<not> Suc ?T < i + ?N"
      using slot_neq [of i "Suc ?T" ?N] d \<open>i \<le> ?H\<close> by linarith
    then have "?T = i + (?N - 1)" using d p_full valid_capacityD(1) [OF assms(1)] by linarith
    with p_full show ?thesis by simp
  qed (use assms(4,5) in auto)
qed

theorem spsc_push_refused_witness:
  "\<exists>s t :: nat spsc. sq_reachable 2 0 s \<and> sq_step 2 s t \<and> sq_prod s = P_Tail 8 1 \<and>
     sq_prod t = P_Idle \<and> length (sq_accepted t) = sq_head_seen t + 1"
proof -
  note reach = sq_next [where n = 2 and d = "0 :: nat"]
  let ?s = "\<lambda>(b :: nat list) ts p acc. \<lparr>sq_buffer = b, sq_heads = [0], sq_tails = ts, sq_prod = p,
    sq_cons = C_Idle, sq_head_seen = 0, sq_tail_seen = 0, sq_accepted = acc, sq_delivered = []\<rparr>"
  have "sq_new 2 (0 :: nat) = ?s [0, 0] [0] P_Idle []"
    by (simp add: sq_new_def replicate_small)
  then have "sq_reachable 2 0 (?s [0, 0] [0] P_Idle [])"
    using sq_start [of 2 "0 :: nat"] by simp
  from reach [OF this p_load_tail [where evt = 7]]
  have "sq_reachable 2 0 (?s [0, 0] [0] (P_Tail 7 0) [])" by simp
  from reach [OF this p_room [where i = 0 and evt = 7 and tail = 0]]
  have "sq_reachable 2 0 (?s [0, 0] [0] (P_Room 7 0 1) [])" by simp
  from reach [OF this p_write [where evt = 7 and tail = 0 and next_tail = 1]]
  have "sq_reachable 2 0 (?s [7, 0] [0] (P_Written 7 1) [])" by simp
  from reach [OF this p_store_tail [where evt = 7 and next_tail = 1]]
  have "sq_reachable 2 0 (?s [7, 0] [0, 1] P_Idle [7])" by simp
  from reach [OF this p_load_tail [where evt = 8]]
  have r: "sq_reachable 2 0 (?s [7, 0] [0, 1] (P_Tail 8 1) [7])" by simp
  have st: "sq_step 2 (?s [7, 0] [0, 1] (P_Tail 8 1) [7]) (?s [7, 0] [0, 1] P_Idle [7])"
    using p_full [where n = 2 and s = "?s [7, 0] [0, 1] (P_Tail 8 1) [7]" and i = 0 and tail = 1]
    by simp
  have "valid_capacity 2" by (simp add: valid_capacity_def)
  from spsc_push_refused [OF this r st, of 8 1] r st show ?thesis by fastforce
qed

text \<open>
  A pop that returns nothing took nothing and had already been given every
  event whose publication the consumer had seen.
\<close>

theorem spsc_pop_empty:
  assumes "valid_capacity n" and "sq_reachable n d s" and "sq_step n s t"
    and "sq_cons s = C_Head head" and "sq_cons t = C_Idle"
  shows "length (sq_delivered t) = sq_tail_seen t
    \<and> sq_delivered t = sq_delivered s \<and> sq_heads t = sq_heads s"
proof -
  let ?T = "length (sq_accepted s)" and ?H = "length (sq_delivered s)" and ?N = "unat n"
  note d = sq_reachable_inv [OF assms(2,1), unfolded sq_inv_def Let_def]
  show ?thesis
    using assms(3)
  proof cases
    case (c_empty head' i)
    have "unat (sq_tails s ! i) = ?H mod ?N" using d c_empty by simp
    moreover have "unat (sq_tails s ! i) = i mod ?N" and "i \<le> ?T"
      using d c_empty by (auto simp: ring_history_nth dest: ring_history_length)
    ultimately have "?H mod ?N = i mod ?N" by simp
    then have "\<not> ?H < i" using slot_neq [of ?H i ?N] d \<open>i \<le> ?T\<close> by linarith
    then have "?H = i" using d c_empty by linarith
    with c_empty show ?thesis by simp
  qed (use assms(4,5) in auto)
qed

theorem spsc_pop_empty_witness:
  "\<exists>s t :: nat spsc. sq_reachable 4 0 s \<and> sq_step 4 s t \<and> sq_cons s = C_Head 0 \<and>
     sq_cons t = C_Idle \<and> length (sq_delivered t) = sq_tail_seen t"
proof -
  let ?s = "(sq_new 4 0 :: nat spsc)\<lparr>sq_cons := C_Head 0\<rparr>"
  let ?t = "?s\<lparr>sq_cons := C_Idle, sq_tail_seen := 0\<rparr>"
  have "sq_step 4 (sq_new 4 (0 :: nat)) ?s"
    using c_load_head [where n = 4 and s = "sq_new 4 (0 :: nat)"] by (simp add: sq_new_def)
  then have r: "sq_reachable 4 0 ?s" by (rule sq_next [OF sq_start])
  have st: "sq_step 4 ?s ?t" by (rule c_empty [where head = 0]) (simp_all add: sq_new_def)
  from spsc_pop_empty [OF valid_capacity_4 r st, of 0] r st show ?thesis by fastforce
qed

end
