(* ===== verification/Event_Queue_Views.thy ===== *)
theory Event_Queue_Views
  imports Event_Queue_Conc
begin

section \<open>The two models of the event queue agree\<close>

text \<open>
  What the indices and the slots hold in a state of the concurrent model is a queue of the sequential one.  In
  every reachable state its contents are the events published and not yet taken; the store of an index is the
  point at which an operation takes effect, and there it does exactly what \<open>eq_push\<close> and \<open>eq_pop\<close> do.
\<close>

definition sq_view :: "'a spsc \<Rightarrow> 'a event_queue" where
  "sq_view s = \<lparr>eq_buffer = sq_buffer s, eq_head = last (sq_heads s), eq_tail = last (sq_tails s)\<rparr>"

lemma view_contents:
  assumes n: "valid_capacity n" and inv: "sq_inv n s"
  shows "eq_valid n (sq_view s) \<and>
    eq_contents n (sq_view s) = drop (length (sq_delivered s)) (sq_accepted s)"
proof
  let ?N = "unat n" and ?H = "length (sq_delivered s)" and ?T = "length (sq_accepted s)"
  note d = inv [unfolded sq_inv_def Let_def]
  have pos: "0 < ?N" using valid_capacityD(1) [OF n] .
  have H: "unat (last (sq_heads s)) = ?H mod ?N" and T: "unat (last (sq_tails s)) = ?T mod ?N"
    using d by (auto intro: ring_history_last)
  have len: "?H \<le> ?T" "?T < ?H + ?N" using d by linarith+
  show v: "eq_valid n (sq_view s)"
    using d pos by (simp add: eq_valid_def sq_view_def word_less_nat_alt H T)
  have count: "ring_count n (sq_view s) = ?T - ?H"
  proof (rule ring_countI [OF v])
    show "(unat (eq_head (sq_view s)) + (?T - ?H)) mod ?N = unat (eq_tail (sq_view s))"
      using len mod_add_left_eq [of ?H ?N "?T - ?H"] by (simp only: sq_view_def event_queue.simps H T) simp
  qed (use len in linarith)
  show "eq_contents n (sq_view s) = drop ?H (sq_accepted s)"
  proof (rule nth_equalityI)
    show "length (eq_contents n (sq_view s)) = length (drop ?H (sq_accepted s))"
      by (simp add: count)
    fix i assume "i < length (eq_contents n (sq_view s))"
    then have i: "i < ?T - ?H" by (simp add: count)
    have "sq_buffer s ! ((?H + i) mod ?N) = sq_accepted s ! (?H + i)" using d i by simp
    then show "eq_contents n (sq_view s) ! i = drop ?H (sq_accepted s) ! i"
      using i len by (simp add: eq_contents_def count) (simp add: sq_view_def H mod_add_left_eq)
  qed
qed

text \<open>The latest values of the indices.\<close>

lemma view_indices:
  assumes "sq_inv n s"
  shows "unat (eq_head (sq_view s)) = length (sq_delivered s) mod unat n"
    "unat (eq_tail (sq_view s)) = length (sq_accepted s) mod unat n"
    "sq_heads s ! length (sq_delivered s) = eq_head (sq_view s)"
    "sq_tails s ! length (sq_accepted s) = eq_tail (sq_view s)"
proof -
  note d = assms [unfolded sq_inv_def Let_def]
  show "unat (eq_head (sq_view s)) = length (sq_delivered s) mod unat n"
    "unat (eq_tail (sq_view s)) = length (sq_accepted s) mod unat n"
    using d by (auto simp: sq_view_def intro: ring_history_last)
  have "length (sq_heads s) = Suc (length (sq_delivered s))" "length (sq_tails s) = Suc (length (sq_accepted s))"
    using d by (auto dest: ring_history_length)
  then show "sq_heads s ! length (sq_delivered s) = eq_head (sq_view s)"
    "sq_tails s ! length (sq_accepted s) = eq_tail (sq_view s)"
    by (cases "sq_heads s" rule: rev_cases; cases "sq_tails s" rule: rev_cases; simp add: sq_view_def nth_append)+
qed

text \<open>What the sequential operations do on that queue.\<close>

lemma view_push:
  assumes n: "valid_capacity n" and inv: "sq_inv n s"
  shows "eq_push n e (sq_view s) = (False, sq_view s) \<longleftrightarrow>
      length (sq_accepted s) = length (sq_delivered s) + (unat n - 1)"
    and "fst (eq_push n e (sq_view s)) \<longleftrightarrow>
      length (sq_accepted s) \<noteq> length (sq_delivered s) + (unat n - 1)"
proof -
  have v: "eq_valid n (sq_view s)" "ring_count n (sq_view s) = length (sq_accepted s) - length (sq_delivered s)"
    using view_contents [OF n inv] by (metis, metis length_contents length_drop)
  have len: "length (sq_delivered s) \<le> length (sq_accepted s)" using inv by (simp add: sq_inv_def Let_def)
  have "0 < unat n" using valid_capacityD(1) [OF n] .
  with push_full_iff [OF n v(1)] v(2) len
  show "eq_push n e (sq_view s) = (False, sq_view s) \<longleftrightarrow>
      length (sq_accepted s) = length (sq_delivered s) + (unat n - 1)"
    and "fst (eq_push n e (sq_view s)) \<longleftrightarrow>
      length (sq_accepted s) \<noteq> length (sq_delivered s) + (unat n - 1)"
    by (auto simp: eq_push_def Let_def)
qed

lemma view_pop:
  assumes n: "valid_capacity n" and inv: "sq_inv n s"
  shows "eq_pop n (sq_view s) = (None, sq_view s) \<longleftrightarrow> length (sq_delivered s) = length (sq_accepted s)"
    and "fst (eq_pop n (sq_view s)) = None \<longleftrightarrow> length (sq_delivered s) = length (sq_accepted s)"
proof -
  let ?H = "length (sq_delivered s)" and ?T = "length (sq_accepted s)"
  note d = inv [unfolded sq_inv_def Let_def]
  note ix = view_indices [OF inv]
  have "eq_head (sq_view s) = eq_tail (sq_view s) \<longleftrightarrow> ?H = ?T"
  proof
    have "?H \<le> ?T" "?T < ?H + unat n" using d by linarith+
    moreover assume "eq_head (sq_view s) = eq_tail (sq_view s)"
    then have "?H mod unat n = ?T mod unat n" using ix by simp
    ultimately show "?H = ?T" using slot_neq [of ?H ?T "unat n"] by fastforce
  qed (simp add: ix word_unat_eq_iff)
  then show "eq_pop n (sq_view s) = (None, sq_view s) \<longleftrightarrow> ?H = ?T"
    and "fst (eq_pop n (sq_view s)) = None \<longleftrightarrow> ?H = ?T"
    by (auto simp: eq_pop_def Let_def)
qed

text \<open>The store of \<open>tail_\<close> is a sequential push, the store of \<open>head_\<close> a sequential pop.\<close>

lemma store_tail_pushes:
  assumes n: "valid_capacity n" and inv: "sq_inv n s" and pc: "sq_prod s = P_Written e next_tail"
  shows "eq_push n e (sq_view s) =
    (True, (sq_view s)\<lparr>eq_tail := next_tail\<rparr>)"
proof -
  note d = inv [unfolded sq_inv_def Let_def]
  note ix = view_indices [OF inv]
  have buf: "sq_buffer s ! (length (sq_accepted s) mod unat n) = e"
    and next_tail: "unat next_tail = Suc (length (sq_accepted s)) mod unat n"
    using d pc by simp_all
  have "length (sq_accepted s) \<noteq> length (sq_delivered s) + (unat n - 1)"
    using d pc by simp linarith
  then have "fst (eq_push n e (sq_view s))" by (simp add: view_push [OF n inv])
  moreover have "(eq_tail (sq_view s) + 1) AND (n - 1) = next_tail"
    using mask_succ [OF n ix(2)] next_tail by (simp add: word_unat_eq_iff)
  moreover have "(sq_buffer s)[unat (eq_tail (sq_view s)) := e] = sq_buffer s"
    using buf by (simp add: ix list_update_same_conv) (metis list_update_id)
  ultimately show ?thesis
    by (auto simp: eq_push_def Let_def sq_view_def split: if_splits)
qed

lemma store_head_pops:
  assumes n: "valid_capacity n" and inv: "sq_inv n s" and pc: "sq_cons s = C_Read head e"
  shows "eq_pop n (sq_view s) = (Some e, (sq_view s)\<lparr>eq_head := (head + 1) AND (n - 1)\<rparr>)"
proof -
  note d = inv [unfolded sq_inv_def Let_def]
  note ix = view_indices [OF inv]
  have H: "eq_head (sq_view s) = head" "length (sq_delivered s) < length (sq_accepted s)"
    "sq_accepted s ! length (sq_delivered s) = e"
    using d pc ix by (simp_all add: word_unat_eq_iff)
  then have "sq_buffer s ! unat head = e" using d pc by simp
  moreover have "fst (eq_pop n (sq_view s)) \<noteq> None" using H by (simp add: view_pop [OF n inv])
  ultimately show ?thesis
    using H(1) by (auto simp: eq_pop_def Let_def sq_view_def split: if_splits)
qed


lemma step_effect:
  assumes n: "valid_capacity n" and inv: "sq_inv n s" and step: "sq_step n s t"
  shows "sq_accepted t = sq_accepted s \<and> sq_delivered t = sq_delivered s \<or>
    (\<exists>e next_tail. sq_prod s = P_Written e next_tail \<and> sq_accepted t = sq_accepted s @ [e] \<and>
       sq_delivered t = sq_delivered s \<and> eq_push n e (sq_view s) = (True, sq_view t)) \<or>
    (\<exists>head e. sq_cons s = C_Read head e \<and> sq_delivered t = sq_delivered s @ [e] \<and>
       sq_accepted t = sq_accepted s \<and> eq_pop n (sq_view s) = (Some e, sq_view t))"
  using step
proof cases
  case (p_store_tail e next_tail)
  then show ?thesis using store_tail_pushes [OF n inv] by (simp add: sq_view_def)
next
  case (c_store_head head e)
  then show ?thesis using store_head_pops [OF n inv] by (simp add: sq_view_def)
qed simp_all

text \<open>Refusals: an operation that finds the ring full, or empty, with its possibly old load.\<close>

lemma full_push_refused:
  assumes n: "valid_capacity n" and inv: "sq_inv n s" and step: "sq_step n s t"
    and pc: "sq_prod s = P_Tail e tail" and full: "\<not> fst (eq_push n e (sq_view s))"
    and moved: "sq_prod t \<noteq> sq_prod s"
  shows "sq_prod t = P_Idle"
  using step
proof cases
  case (p_room e' tail' i)
  note d = sq_step_inv [OF n step inv, unfolded sq_inv_def Let_def]
  have "length (sq_accepted s) = length (sq_delivered s) + (unat n - 1)"
    using full by (simp add: view_push [OF n inv])
  then have False using d p_room by simp linarith
  then show ?thesis ..
qed (use pc moved in simp_all)

lemma empty_pop_refused:
  assumes n: "valid_capacity n" and inv: "sq_inv n s" and step: "sq_step n s t"
    and pc: "sq_cons s = C_Head head" and empty: "fst (eq_pop n (sq_view s)) = None"
    and moved: "sq_cons t \<noteq> sq_cons s"
  shows "sq_cons t = C_Idle"
  using step
proof cases
  case (c_some head' i)
  note d = sq_step_inv [OF n step inv, unfolded sq_inv_def Let_def]
  have "length (sq_delivered s) = length (sq_accepted s)"
    using empty by (simp add: view_pop [OF n inv])
  then have False using d c_some by auto
  then show ?thesis ..
qed (use pc moved in simp_all)

lemma push_stores:
  assumes "sq_step n s t" and "sq_prod s = P_Written e next_tail" and "sq_prod t \<noteq> sq_prod s"
  shows "sq_prod t = P_Idle \<and> sq_accepted t = sq_accepted s @ [e]"
  using assms by cases simp_all

lemma pop_stores:
  assumes "sq_step n s t" and "sq_cons s = C_Read head e" and "sq_cons t \<noteq> sq_cons s"
  shows "sq_cons t = C_Idle \<and> sq_delivered t = sq_delivered s @ [e]"
  using assms by cases simp_all

text \<open>
  C18.  The concurrent queue implements the sequential one: in every reachable
  state, whatever the interleaving and however stale the loads were, the ring read at its latest indices is
  a valid queue that holds exactly the published events not yet taken, in order.  Every step of either
  thread either changes neither list, or is the store of \<open>tail_\<close> and does to that queue what a
  successful \<open>eq_push\<close> does, or is the store of \<open>head_\<close> and does what \<open>eq_pop\<close> does, with the
  event that \<open>pop\<close> returns; a push that has written its slot, and a pop that has read it, takes effect
  by its next step.  A push is refused only when the head it loaded leaves no place, and if that was the latest
  head then \<open>eq_push\<close> refuses as well; a push that \<open>eq_push\<close> refuses is always refused.  (With an older
  head a push may be refused although a place has become free: the caller then counts a drop.)  In the
  same way a pop finds nothing only when it has been given all it has seen published, \<open>eq_pop\<close> then
  finds nothing if the load was the latest, and where \<open>eq_pop\<close> finds nothing no pop finds anything.
\<close>

theorem spsc_implements_queue:
  assumes "valid_capacity n" and "sq_reachable n d s" and "sq_step n s t"
  shows "eq_valid n (sq_view s) \<and>
    eq_contents n (sq_view s) = drop (length (sq_delivered s)) (sq_accepted s) \<and>
    (sq_accepted t = sq_accepted s \<and> sq_delivered t = sq_delivered s \<or>
     (\<exists>e next_tail. sq_prod s = P_Written e next_tail \<and> sq_accepted t = sq_accepted s @ [e] \<and>
        sq_delivered t = sq_delivered s \<and> eq_push n e (sq_view s) = (True, sq_view t)) \<or>
     (\<exists>head e. sq_cons s = C_Read head e \<and> sq_delivered t = sq_delivered s @ [e] \<and>
        sq_accepted t = sq_accepted s \<and> eq_pop n (sq_view s) = (Some e, sq_view t))) \<and>
    (\<forall>e next_tail. sq_prod s = P_Written e next_tail \<and> sq_prod t \<noteq> sq_prod s \<longrightarrow>
       sq_prod t = P_Idle \<and> sq_accepted t = sq_accepted s @ [e]) \<and>
    (\<forall>head e. sq_cons s = C_Read head e \<and> sq_cons t \<noteq> sq_cons s \<longrightarrow>
       sq_cons t = C_Idle \<and> sq_delivered t = sq_delivered s @ [e]) \<and>
    (\<forall>e tail. sq_prod s = P_Tail e tail \<and> sq_prod t = P_Idle \<longrightarrow>
       sq_accepted t = sq_accepted s \<and> length (sq_accepted s) = sq_head_seen t + (unat n - 1) \<and>
       (sq_head_seen t = length (sq_delivered s) \<longrightarrow> eq_push n e (sq_view s) = (False, sq_view s))) \<and>
    (\<forall>e tail. sq_prod s = P_Tail e tail \<and> sq_prod t \<noteq> sq_prod s \<and>
       \<not> fst (eq_push n e (sq_view s)) \<longrightarrow> sq_prod t = P_Idle) \<and>
    (\<forall>head. sq_cons s = C_Head head \<and> sq_cons t = C_Idle \<longrightarrow>
       sq_delivered t = sq_delivered s \<and> length (sq_delivered s) = sq_tail_seen t \<and>
       (sq_tail_seen t = length (sq_accepted s) \<longrightarrow> eq_pop n (sq_view s) = (None, sq_view s))) \<and>
    (\<forall>head. sq_cons s = C_Head head \<and> sq_cons t \<noteq> sq_cons s \<and>
       fst (eq_pop n (sq_view s)) = None \<longrightarrow> sq_cons t = C_Idle)"
proof -
  have inv: "sq_inv n s" using assms by (blast intro: sq_reachable_inv)
  note refused = spsc_push_refused [OF assms] and found_empty = spsc_pop_empty [OF assms]
  show ?thesis
    using view_contents [OF assms(1) inv] step_effect [OF assms(1) inv assms(3)]
      push_stores [OF assms(3)] pop_stores [OF assms(3)]
      full_push_refused [OF assms(1) inv assms(3)] empty_pop_refused [OF assms(1) inv assms(3)]
    by (intro conjI allI impI; elim conjE)
      (blast, blast, blast, blast, blast, blast, blast, (metis refused), (metis refused),
        metis refused view_push(1) [OF assms(1) inv], blast, (metis found_empty), (metis found_empty),
        metis found_empty view_pop(1) [OF assms(1) inv], blast)
qed

theorem spsc_implements_queue_witness:
  "let s = sq_sample\<lparr>sq_prod := P_Written 8 2, sq_buffer := [7, 8, 0, 0]\<rparr>;
       t = s\<lparr>sq_prod := P_Idle, sq_tails := [0, 1, 2], sq_accepted := [7, 8]\<rparr>
   in sq_step 4 s t \<and> eq_contents 4 (sq_view s) = [7] \<and> eq_push 4 8 (sq_view s) = (True, sq_view t)"
proof -
  let ?s = "sq_sample\<lparr>sq_prod := P_Written 8 2, sq_buffer := [7, 8, 0, 0]\<rparr>"
  let ?t = "?s\<lparr>sq_prod := P_Idle, sq_tails := [0, 1, 2], sq_accepted := [7, 8]\<rparr>"
  have "sq_step 4 sq_sample ?s"
    using p_write [where n = 4 and s = sq_sample and evt = 8 and tail = 1 and next_tail = 2]
    by (simp add: sq_sample_def)
  then have r: "sq_reachable 4 0 ?s" by (rule sq_next [OF sq_sample_reachable])
  have st: "sq_step 4 ?s ?t"
    using p_store_tail [where n = 4 and s = ?s and evt = 8 and next_tail = 2]
    by (simp add: sq_sample_def)
  show ?thesis
    using spsc_implements_queue [OF valid_capacity_4 r st] st by (simp add: sq_sample_def)
qed

end
