(* ===== verification/Std_String.thy ===== *)
theory Std_String
  imports Prelude
begin

section \<open>The string functions of the standard library the code calls\<close>

text \<open>
  \<open>std::to_string\<close> on unsigned values, \<open>std::string::find\<close>, \<open>rfind\<close> and \<open>substr\<close>, and
  \<open>std::stoi\<close> with its two exceptions.  A string is a list of characters; \<open>npos\<close> is
  \<open>None\<close>.
\<close>

subsection \<open>\<open>std::to_string\<close>\<close>

definition digit_char :: "nat \<Rightarrow> char" where
  "digit_char d = char_of (48 + d)"

fun dec_string :: "nat \<Rightarrow> string" where
  "dec_string n =
     (if n < 10 then [digit_char n] else dec_string (n div 10) @ [digit_char (n mod 10)])"

declare dec_string.simps [simp del]

subsection \<open>\<open>std::stoi\<close>\<close>

text \<open>
  \<open>std::stoi\<close> calls \<open>strtol\<close> in base 10: skip white space, take an optional sign, then the
  longest run of digits; what follows is ignored.  Without a digit it throws
  \<open>invalid_argument\<close>, outside the range of \<open>int\<close> it throws \<open>out_of_range\<close>.
\<close>

datatype stoi_error = Stoi_Invalid_Argument | Stoi_Out_Of_Range

definition is_space :: "char \<Rightarrow> bool" where
  "is_space c \<longleftrightarrow> of_char c \<in> {9, 10, 11, 12, 13, 32 :: nat}"

definition is_digit :: "char \<Rightarrow> bool" where
  "is_digit c \<longleftrightarrow> 48 \<le> (of_char c :: nat) \<and> (of_char c :: nat) \<le> 57"

definition digit_value :: "char \<Rightarrow> nat" where
  "digit_value c = of_char c - 48"

definition digits_value :: "string \<Rightarrow> nat" where
  "digits_value ds = foldl (\<lambda>v c. 10 * v + digit_value c) 0 ds"

definition INT_MAX :: int where
  "INT_MAX = 2147483647"

definition INT_MIN :: int where
  "INT_MIN = - 2147483648"

definition stoi :: "string \<Rightarrow> stoi_error + int" where
  "stoi s =
     (let s = dropWhile is_space s;
          neg = (case s of c # _ \<Rightarrow> c = CHR ''-'' | [] \<Rightarrow> False);
          s = (case s of c # cs \<Rightarrow> (if c = CHR ''-'' \<or> c = CHR ''+'' then cs else s) | [] \<Rightarrow> []);
          ds = takeWhile is_digit s;
          v = (if neg then - int (digits_value ds) else int (digits_value ds))
      in if ds = [] then Inl Stoi_Invalid_Argument
         else if v < INT_MIN \<or> INT_MAX < v then Inl Stoi_Out_Of_Range
         else Inr v)"

subsection \<open>\<open>find\<close>, \<open>rfind\<close>, \<open>substr\<close>\<close>

fun str_find :: "string \<Rightarrow> string \<Rightarrow> nat option" where
  "str_find pat [] = (if pat = [] then Some 0 else None)"
| "str_find pat (c # cs) =
     (if take (length pat) (c # cs) = pat then Some 0 else map_option Suc (str_find pat cs))"

fun str_rfind :: "char \<Rightarrow> string \<Rightarrow> nat option" where
  "str_rfind ch [] = None"
| "str_rfind ch (c # cs) =
     (case str_rfind ch cs of
        Some i \<Rightarrow> Some (Suc i)
      | None \<Rightarrow> (if c = ch then Some 0 else None))"

subsection \<open>Decimal strings\<close>

lemma digit_char_code: "d < 10 \<Longrightarrow> of_char (digit_char d) = (48 + d :: nat)"
  by (simp add: digit_char_def)

lemma is_digit_digit_char [simp]: "d < 10 \<Longrightarrow> is_digit (digit_char d)"
  by (simp add: is_digit_def digit_char_code)

lemma digit_value_digit_char [simp]: "d < 10 \<Longrightarrow> digit_value (digit_char d) = d"
  by (simp add: digit_value_def digit_char_code)

lemma dec_string_nonempty [simp]: "dec_string n \<noteq> []"
  by (subst dec_string.simps) simp

lemma dec_string_digits: "c \<in> set (dec_string n) \<Longrightarrow> is_digit c"
proof (induction n rule: dec_string.induct)
  case (1 n)
  then show ?case
    by (cases "n < 10") (auto simp: dec_string.simps [of n])
qed

lemma digits_value_append:
  "digits_value (xs @ [c]) = 10 * digits_value xs + digit_value c"
  by (simp add: digits_value_def)

lemma digits_value_dec_string: "digits_value (dec_string n) = n"
proof (induction n rule: dec_string.induct)
  case (1 n)
  show ?case
  proof (cases "n < 10")
    case True
    then show ?thesis by (simp add: dec_string.simps [of n] digits_value_def)
  next
    case False
    with 1 show ?thesis by (simp add: dec_string.simps [of n] digits_value_append)
  qed
qed

lemma dec_string_inj: "dec_string m = dec_string n \<Longrightarrow> m = n"
  by (metis digits_value_dec_string)

lemma not_digit_dec_string: "\<not> is_digit c \<Longrightarrow> c \<notin> set (dec_string n)"
  by (auto dest: dec_string_digits)

text \<open>Parsing a printed number gives it back while it fits an \<open>int\<close>, whatever follows it.\<close>

lemma takeWhile_dec_string:
  "rest = [] \<or> \<not> is_digit (hd rest) \<Longrightarrow> takeWhile is_digit (dec_string n @ rest) = dec_string n"
  by (cases rest) (auto simp: takeWhile_append dec_string_digits)

lemma is_digit_not_special:
  "is_digit c \<Longrightarrow> \<not> is_space c \<and> c \<noteq> CHR ''-'' \<and> c \<noteq> CHR ''+''"
  by (auto simp: is_digit_def is_space_def)

lemma stoi_dec_string_rest:
  assumes "int n \<le> INT_MAX" and "rest = [] \<or> \<not> is_digit (hd rest)"
  shows "stoi (dec_string n @ rest) = Inr (int n)"
proof -
  obtain c cs where ds: "dec_string n = c # cs" by (meson dec_string_nonempty neq_Nil_conv)
  then have "is_digit c" by (metis dec_string_digits list.set_intros(1))
  then have c: "\<not> is_space c" "c \<noteq> CHR ''-''" "c \<noteq> CHR ''+''"
    by (simp_all add: is_digit_not_special)
  have tw: "takeWhile is_digit (c # cs @ rest) = c # cs"
    using takeWhile_dec_string [OF assms(2), of n] ds by simp
  have "int (digits_value (c # cs)) = int n"
    using digits_value_dec_string [of n] ds by simp
  with assms(1) show ?thesis
    by (simp add: stoi_def ds c tw INT_MIN_def del: takeWhile.simps)
qed

lemma stoi_dec_string: "int n \<le> INT_MAX \<Longrightarrow> stoi (dec_string n) = Inr (int n)"
  using stoi_dec_string_rest [of n "[]"] by simp

lemma stoi_range: "stoi s = Inr v \<Longrightarrow> INT_MIN \<le> v \<and> v \<le> INT_MAX"
  by (auto simp: stoi_def Let_def split: if_splits)

subsection \<open>A size as an \<open>int\<close>\<close>

text \<open>\<open>static_cast<int>(c.size())\<close> of a container.\<close>

definition size_as_int :: "'a list \<Rightarrow> int" where
  "size_as_int m = sint (ucast (word_of_nat (length m) :: size_t) :: i32)"

lemma size_as_int_eq:
  assumes "int (length m) \<le> INT_MAX"
  shows "size_as_int m = int (length m)"
proof -
  have le: "length m < 2 ^ 31" using assms by (simp add: INT_MAX_def)
  then have u: "unat (word_of_nat (length m) :: size_t) = length m"
    by (simp add: unsigned_of_nat take_bit_nat_eq_self)
  have "(ucast (word_of_nat (length m) :: size_t) :: i32) = word_of_nat (length m)"
    by (simp add: unsigned_ucast_eq word_unat_eq_iff unsigned_of_nat take_bit_nat_eq_self
        less_trans [OF le])
  then have "size_as_int m = sint (word_of_int (int (length m)) :: i32)"
    by (simp add: size_as_int_def)
  also have "\<dots> = int (length m)"
    using le by (simp add: signed_of_nat signed_take_bit_int_eq_self)
  finally show ?thesis .
qed

end
