(* ===== verification/Config.thy ===== *)
theory Config
  imports Std_String
begin

section \<open>The command line (config/config\_parser.cpp, config/app\_config.hpp)\<close>

text \<open>
  \<open>ConfigParser::parse\<close> over \<open>argv\<close>, a list of strings of which the first is the program's name;
  \<open>argc\<close> is its length.  Every \<open>throw std::invalid_argument\<close> is a value of \<open>config_error\<close>, whose
  message is \<open>what\<close>; the loop index is explicit because \<open>next_arg\<close> advances it.  The reference
  description is a grammar: a list of flags with their values, folded over the defaults.
\<close>

record app_config =
  cfg_pcap_file :: string
  cfg_iface :: string
  cfg_bpf_filter :: string
  cfg_flow_timeout_sec :: int
  cfg_max_flows :: int
  cfg_stats_interval_sec :: int
  cfg_kafka_brokers :: string
  cfg_kafka_topic :: string
  cfg_kafka_conf_file :: string
  cfg_schema_registry_url :: string
  cfg_sr_buffer_size :: int
  cfg_metrics_port :: u16
  cfg_log_level :: string
  cfg_version :: string

text \<open>\<open>PACKETPIPE_VERSION\<close> when the build does not define it.\<close>

definition PACKETPIPE_VERSION :: string where
  "PACKETPIPE_VERSION = ''0.0.0-dev''"

definition default_config :: app_config where
  "default_config =
     \<lparr>cfg_pcap_file = [], cfg_iface = [], cfg_bpf_filter = [],
      cfg_flow_timeout_sec = 60, cfg_max_flows = 100000, cfg_stats_interval_sec = 30,
      cfg_kafka_brokers = ''localhost:9092'', cfg_kafka_topic = ''packetpipe.flows'',
      cfg_kafka_conf_file = [], cfg_schema_registry_url = ''http://localhost:8081'',
      cfg_sr_buffer_size = 1000, cfg_metrics_port = 9090, cfg_log_level = ''info'',
      cfg_version = PACKETPIPE_VERSION\<rparr>"

subsection \<open>Errors\<close>

datatype config_error =
    Help_Requested
  | Missing_Value string
  | Not_Positive string
  | Not_An_Integer string string
  | Port_Out_Of_Range
  | Bad_Log_Level
  | Unknown_Argument string
  | No_Source
  | Two_Sources

definition newline :: char where
  "newline = CHR 0x0A"

definition kUsage :: string where
  "kUsage = concat (map (\<lambda>l. l @ [newline])
    [''Usage: packetpipe --pcap <file> | --iface <name> [options]'',
     '''',
     ''Ingestion (exactly one required):'',
     ''  --pcap <file>            Read packets from a pcap file'',
     ''  --iface <name>           Capture from a live network interface'',
     '''',
     ''Options:'',
     ''  --filter <bpf>           BPF filter expression (default: none)'',
     ''  --flow-timeout <sec>     Idle flow expiry timeout (default: 60)'',
     ''  --max-flows <N>          Maximum simultaneous flows (default: 100000)'',
     ''  --stats-interval <sec>   FlowStats heartbeat interval (default: 30)'',
     ''  --kafka-brokers <list>   Kafka broker list (default: localhost:9092)'',
     ''  --kafka-topic <name>     Kafka topic (default: packetpipe.flows)'',
     ''  --kafka-conf <file>      librdkafka config file (optional)'',
     ''  --schema-registry-url <url>  Schema Registry URL (default: http://localhost:8081)'',
     ''  --sr-buffer <N>          SR retry buffer size (default: 1000)'',
     ''  --metrics-port <port>    Prometheus metrics port (default: 9090)'',
     ''  --log-level <level>      Log level: error|warn|info|debug (default: info)'',
     ''  --help                   Show this help''])"

text \<open>The message of the exception: \<open>die\<close> appends the usage text to its argument.\<close>

definition die :: "string \<Rightarrow> string" where
  "die msg = msg @ [newline, newline] @ kUsage"

fun what :: "config_error \<Rightarrow> string" where
  "what Help_Requested = kUsage"
| "what (Missing_Value flag) = die (''Flag '' @ flag @ '' requires a value'')"
| "what (Not_Positive flag) = die (flag @ '' must be a positive integer'')"
| "what (Not_An_Integer flag s) = die (flag @ '' requires an integer value, got: '' @ s)"
| "what Port_Out_Of_Range = die ''--metrics-port must be in range 1-65535''"
| "what Bad_Log_Level = die ''--log-level must be one of: error warn info debug''"
| "what (Unknown_Argument arg) = die (''Unknown argument: '' @ arg)"
| "what No_Source = die ''Either --pcap <file> or --iface <name> is required''"
| "what Two_Sources = die ''--pcap and --iface are mutually exclusive''"

subsection \<open>The parser\<close>

definition bind_result :: "'e + 'a \<Rightarrow> ('a \<Rightarrow> 'e + 'b) \<Rightarrow> 'e + 'b" where
  "bind_result r f = (case r of Inl e \<Rightarrow> Inl e | Inr x \<Rightarrow> f x)"

definition next_arg :: "string list \<Rightarrow> nat \<Rightarrow> string \<Rightarrow> config_error + (string \<times> nat)" where
  "next_arg argv i flag =
     (let i = i + 1 in
      if length argv \<le> i then Inl (Missing_Value flag) else Inr (argv ! i, i))"

text \<open>
  The \<open>try\<close> block is a result of its own: what it throws, the exceptions of \<open>std::stoi\<close> and
  the \<open>invalid_argument\<close> of its own \<open>die\<close>, is caught by \<open>catch (const std::exception&)\<close>.
\<close>

datatype try_error = Thrown_Stoi stoi_error | Thrown_Config config_error

definition parse_positive_int :: "string \<Rightarrow> string \<Rightarrow> config_error + int" where
  "parse_positive_int s flag =
     (let attempt =
        (case stoi s of
           Inl e \<Rightarrow> Inl (Thrown_Stoi e)
         | Inr v \<Rightarrow> if v \<le> 0 then Inl (Thrown_Config (Not_Positive flag)) else Inr v)
      in case attempt of
           Inl _ \<Rightarrow> Inl (Not_An_Integer flag s)
         | Inr v \<Rightarrow> Inr v)"

definition kLevels :: "string list" where
  "kLevels = [''error'', ''warn'', ''info'', ''debug'']"

text \<open>An option with a string value, and one with a positive integer.\<close>

definition string_option ::
  "string list \<Rightarrow> nat \<Rightarrow> string \<Rightarrow> (string \<Rightarrow> app_config) \<Rightarrow> config_error + (app_config \<times> nat)" where
  "string_option argv i arg upd =
     bind_result (next_arg argv i arg) (\<lambda>(s, i). Inr (upd s, i))"

definition int_option ::
  "string list \<Rightarrow> nat \<Rightarrow> string \<Rightarrow> (int \<Rightarrow> app_config) \<Rightarrow> config_error + (app_config \<times> nat)" where
  "int_option argv i arg upd =
     bind_result (next_arg argv i arg) (\<lambda>(s, i).
       bind_result (parse_positive_int s arg) (\<lambda>v. Inr (upd v, i)))"

text \<open>One iteration of the loop: the configuration and the index after it.\<close>

definition parse_arg ::
  "string list \<Rightarrow> nat \<Rightarrow> app_config \<Rightarrow> config_error + (app_config \<times> nat)" where
  "parse_arg argv i cfg =
     (let arg = argv ! i in
      if arg = ''--help'' \<or> arg = ''-h'' then Inl Help_Requested
      else if arg = ''--pcap'' then
        string_option argv i arg (\<lambda>s. cfg\<lparr>cfg_pcap_file := s\<rparr>)
      else if arg = ''--iface'' then
        string_option argv i arg (\<lambda>s. cfg\<lparr>cfg_iface := s\<rparr>)
      else if arg = ''--filter'' then
        string_option argv i arg (\<lambda>s. cfg\<lparr>cfg_bpf_filter := s\<rparr>)
      else if arg = ''--flow-timeout'' then
        int_option argv i arg (\<lambda>v. cfg\<lparr>cfg_flow_timeout_sec := v\<rparr>)
      else if arg = ''--max-flows'' then
        int_option argv i arg (\<lambda>v. cfg\<lparr>cfg_max_flows := v\<rparr>)
      else if arg = ''--stats-interval'' then
        int_option argv i arg (\<lambda>v. cfg\<lparr>cfg_stats_interval_sec := v\<rparr>)
      else if arg = ''--kafka-brokers'' then
        string_option argv i arg (\<lambda>s. cfg\<lparr>cfg_kafka_brokers := s\<rparr>)
      else if arg = ''--kafka-topic'' then
        string_option argv i arg (\<lambda>s. cfg\<lparr>cfg_kafka_topic := s\<rparr>)
      else if arg = ''--kafka-conf'' then
        string_option argv i arg (\<lambda>s. cfg\<lparr>cfg_kafka_conf_file := s\<rparr>)
      else if arg = ''--schema-registry-url'' then
        string_option argv i arg (\<lambda>s. cfg\<lparr>cfg_schema_registry_url := s\<rparr>)
      else if arg = ''--sr-buffer'' then
        int_option argv i arg (\<lambda>v. cfg\<lparr>cfg_sr_buffer_size := v\<rparr>)
      else if arg = ''--metrics-port'' then
        bind_result (next_arg argv i arg) (\<lambda>(s, i).
        bind_result (parse_positive_int s arg) (\<lambda>p.
          if 65535 < p then Inl Port_Out_Of_Range
          else Inr (cfg\<lparr>cfg_metrics_port := word_of_int p\<rparr>, i)))
      else if arg = ''--log-level'' then
        bind_result (next_arg argv i arg) (\<lambda>(s, i).
          let cfg = cfg\<lparr>cfg_log_level := s\<rparr> in
          if \<not> list_ex (\<lambda>l. l = cfg_log_level cfg) kLevels then Inl Bad_Log_Level
          else Inr (cfg, i))
      else Inl (Unknown_Argument arg))"

lemma bind_result_Inr_iff: "bind_result r f = Inr y \<longleftrightarrow> (\<exists>x. r = Inr x \<and> f x = Inr y)"
  by (cases r) (auto simp: bind_result_def)

lemma next_arg_Inr_iff:
  "next_arg argv i flag = Inr (s, j) \<longleftrightarrow> j = Suc i \<and> Suc i < length argv \<and> s = argv ! Suc i"
  by (auto simp: next_arg_def Let_def)

lemma parse_arg_index: "parse_arg argv i cfg = Inr (cfg', j) \<Longrightarrow> j = Suc i \<and> Suc i < length argv"
  by (auto simp: parse_arg_def Let_def string_option_def int_option_def bind_result_Inr_iff
      next_arg_Inr_iff split: if_splits)

function parse_loop :: "string list \<Rightarrow> nat \<Rightarrow> app_config \<Rightarrow> config_error + app_config" where
  "parse_loop argv i cfg =
     (if i < length argv then
        (case parse_arg argv i cfg of
           Inl e \<Rightarrow> Inl e
         | Inr (cfg, i) \<Rightarrow> parse_loop argv (i + 1) cfg)
      else Inr cfg)"
  by pat_completeness auto
termination
  by (relation "measure (\<lambda>(argv, i, cfg). length argv - i)") (auto dest!: parse_arg_index)

declare parse_loop.simps [simp del]

definition parse :: "string list \<Rightarrow> config_error + app_config" where
  "parse argv =
     bind_result (parse_loop argv 1 default_config) (\<lambda>cfg.
       if cfg_pcap_file cfg = [] \<and> cfg_iface cfg = [] then Inl No_Source
       else if cfg_pcap_file cfg \<noteq> [] \<and> cfg_iface cfg \<noteq> [] then Inl Two_Sources
       else Inr cfg)"

subsection \<open>The grammar of command lines\<close>

datatype option_flag =
    Pcap | Iface | Bpf_Filter | Flow_Timeout | Max_Flows | Stats_Interval | Kafka_Brokers
  | Kafka_Topic | Kafka_Conf | Registry_Url | Sr_Buffer | Metrics_Port | Log_Level

fun flag_name :: "option_flag \<Rightarrow> string" where
  "flag_name Pcap = ''--pcap''"
| "flag_name Iface = ''--iface''"
| "flag_name Bpf_Filter = ''--filter''"
| "flag_name Flow_Timeout = ''--flow-timeout''"
| "flag_name Max_Flows = ''--max-flows''"
| "flag_name Stats_Interval = ''--stats-interval''"
| "flag_name Kafka_Brokers = ''--kafka-brokers''"
| "flag_name Kafka_Topic = ''--kafka-topic''"
| "flag_name Kafka_Conf = ''--kafka-conf''"
| "flag_name Registry_Url = ''--schema-registry-url''"
| "flag_name Sr_Buffer = ''--sr-buffer''"
| "flag_name Metrics_Port = ''--metrics-port''"
| "flag_name Log_Level = ''--log-level''"

text \<open>What a flag with its value sets; \<open>None\<close> where the value is not allowed.\<close>

definition positive :: "string \<Rightarrow> int option" where
  "positive s = (case stoi s of Inl _ \<Rightarrow> None | Inr v \<Rightarrow> if 0 < v then Some v else None)"

fun set_flag :: "option_flag \<Rightarrow> string \<Rightarrow> app_config \<Rightarrow> app_config option" where
  "set_flag Pcap s cfg = Some (cfg\<lparr>cfg_pcap_file := s\<rparr>)"
| "set_flag Iface s cfg = Some (cfg\<lparr>cfg_iface := s\<rparr>)"
| "set_flag Bpf_Filter s cfg = Some (cfg\<lparr>cfg_bpf_filter := s\<rparr>)"
| "set_flag Flow_Timeout s cfg = map_option (\<lambda>v. cfg\<lparr>cfg_flow_timeout_sec := v\<rparr>) (positive s)"
| "set_flag Max_Flows s cfg = map_option (\<lambda>v. cfg\<lparr>cfg_max_flows := v\<rparr>) (positive s)"
| "set_flag Stats_Interval s cfg = map_option (\<lambda>v. cfg\<lparr>cfg_stats_interval_sec := v\<rparr>) (positive s)"
| "set_flag Kafka_Brokers s cfg = Some (cfg\<lparr>cfg_kafka_brokers := s\<rparr>)"
| "set_flag Kafka_Topic s cfg = Some (cfg\<lparr>cfg_kafka_topic := s\<rparr>)"
| "set_flag Kafka_Conf s cfg = Some (cfg\<lparr>cfg_kafka_conf_file := s\<rparr>)"
| "set_flag Registry_Url s cfg = Some (cfg\<lparr>cfg_schema_registry_url := s\<rparr>)"
| "set_flag Sr_Buffer s cfg = map_option (\<lambda>v. cfg\<lparr>cfg_sr_buffer_size := v\<rparr>) (positive s)"
| "set_flag Metrics_Port s cfg =
     Option.bind (positive s) (\<lambda>v.
       if v \<le> 65535 then Some (cfg\<lparr>cfg_metrics_port := word_of_int v\<rparr>) else None)"
| "set_flag Log_Level s cfg =
     (if s \<in> set kLevels then Some (cfg\<lparr>cfg_log_level := s\<rparr>) else None)"

fun set_flags :: "(option_flag \<times> string) list \<Rightarrow> app_config \<Rightarrow> app_config option" where
  "set_flags [] cfg = Some cfg"
| "set_flags ((f, s) # ps) cfg = Option.bind (set_flag f s cfg) (set_flags ps)"

fun render_flags :: "(option_flag \<times> string) list \<Rightarrow> string list" where
  "render_flags [] = []"
| "render_flags ((f, s) # ps) = flag_name f # s # render_flags ps"

definition one_source :: "app_config \<Rightarrow> bool" where
  "one_source cfg \<longleftrightarrow> (cfg_pcap_file cfg = [] \<longleftrightarrow> cfg_iface cfg \<noteq> [])"

subsection \<open>The parser follows the grammar\<close>

lemma parse_positive_int_eq:
  "parse_positive_int s flag = (case positive s of None \<Rightarrow> Inl (Not_An_Integer flag s) | Some v \<Rightarrow> Inr v)"
  by (simp add: parse_positive_int_def positive_def split: sum.split)

lemma next_arg_Suc: "Suc i < length argv \<Longrightarrow> next_arg argv i flag = Inr (argv ! Suc i, Suc i)"
  by (simp add: next_arg_Inr_iff)

lemma parse_arg_flag:
  assumes "argv ! i = flag_name f" and "Suc i < length argv"
  shows "parse_arg argv i cfg = Inr (cfg', j) \<longleftrightarrow>
    j = Suc i \<and> set_flag f (argv ! Suc i) cfg = Some cfg'"
  using assms
  by (cases f) (auto simp: parse_arg_def string_option_def int_option_def bind_result_def
      next_arg_Suc parse_positive_int_eq list_ex_iff split: option.split if_splits)

lemma not_flag_name:
  "\<forall>f. x \<noteq> flag_name f \<Longrightarrow>
    x \<noteq> ''--pcap'' \<and> x \<noteq> ''--iface'' \<and> x \<noteq> ''--filter'' \<and> x \<noteq> ''--flow-timeout'' \<and>
    x \<noteq> ''--max-flows'' \<and> x \<noteq> ''--stats-interval'' \<and> x \<noteq> ''--kafka-brokers'' \<and>
    x \<noteq> ''--kafka-topic'' \<and> x \<noteq> ''--kafka-conf'' \<and> x \<noteq> ''--schema-registry-url'' \<and>
    x \<noteq> ''--sr-buffer'' \<and> x \<noteq> ''--metrics-port'' \<and> x \<noteq> ''--log-level''"
  by (metis flag_name.simps)

lemma parse_arg_Inr_flag: "parse_arg argv i cfg = Inr r \<Longrightarrow> \<exists>f. argv ! i = flag_name f"
proof (rule ccontr)
  assume ok: "parse_arg argv i cfg = Inr r" and "\<nexists>f. argv ! i = flag_name f"
  then have "\<forall>f. argv ! i \<noteq> flag_name f" by blast
  from ok not_flag_name [OF this] show False
    by (simp add: parse_arg_def Let_def split: if_splits)
qed

lemma parse_arg_Inr_iff:
  "parse_arg argv i cfg = Inr (cfg', j) \<longleftrightarrow>
    j = Suc i \<and> Suc i < length argv \<and>
    (\<exists>f. argv ! i = flag_name f \<and> set_flag f (argv ! Suc i) cfg = Some cfg')"
  using parse_arg_Inr_flag parse_arg_index parse_arg_flag by metis

lemma render_flags_Nil_iff: "render_flags ps = [] \<longleftrightarrow> ps = []"
  by (cases ps rule: render_flags.cases) simp_all

lemma grammar_Cons:
  "(\<exists>ps. x # xs = render_flags ps \<and> set_flags ps cfg = Some cfg') \<longleftrightarrow>
    (\<exists>f s ys c. x = flag_name f \<and> xs = s # ys \<and> set_flag f s cfg = Some c \<and>
      (\<exists>ps. ys = render_flags ps \<and> set_flags ps c = Some cfg'))"
  (is "?L \<longleftrightarrow> ?R")
proof
  assume ?L
  then obtain ps where ps: "x # xs = render_flags ps" "set_flags ps cfg = Some cfg'" by blast
  then show ?R
    by (cases ps rule: render_flags.cases) (auto simp: bind_eq_Some_conv)
next
  assume ?R
  then obtain f s c ps where "x = flag_name f" "xs = s # render_flags ps" "set_flag f s cfg = Some c"
    "set_flags ps c = Some cfg'" by blast
  then have "x # xs = render_flags ((f, s) # ps) \<and> set_flags ((f, s) # ps) cfg = Some cfg'" by simp
  then show ?L by blast
qed

lemma parse_loop_step:
  "i < length argv \<Longrightarrow> parse_loop argv i cfg = Inr cfg' \<longleftrightarrow>
    (\<exists>c j. parse_arg argv i cfg = Inr (c, j) \<and> parse_loop argv (j + 1) c = Inr cfg')"
  by (subst parse_loop.simps) (auto split: sum.split)

lemma parse_loop_grammar:
  "parse_loop argv i cfg = Inr cfg' \<longleftrightarrow>
    (\<exists>ps. drop i argv = render_flags ps \<and> set_flags ps cfg = Some cfg')"
proof (induction argv i cfg rule: parse_loop.induct)
  case (1 argv i cfg)
  show ?case
  proof (cases "i < length argv")
    case False
    then have "parse_loop argv i cfg = Inr cfg" by (simp add: parse_loop.simps)
    moreover have "drop i argv = render_flags ps \<longleftrightarrow> ps = []" for ps
      using False render_flags_Nil_iff [of ps] by auto
    ultimately show ?thesis by auto
  next
    case True
    let ?rest = "\<lambda>j c. \<exists>ps. drop j argv = render_flags ps \<and> set_flags ps c = Some cfg'"
    have "parse_loop argv i cfg = Inr cfg' \<longleftrightarrow>
        (\<exists>c j. parse_arg argv i cfg = Inr (c, j) \<and> ?rest (j + 1) c)"
      using 1 True by (auto simp: parse_loop_step)
    also have "\<dots> \<longleftrightarrow> (\<exists>f c. argv ! i = flag_name f \<and> Suc i < length argv \<and>
        set_flag f (argv ! Suc i) cfg = Some c \<and> ?rest (Suc (Suc i)) c)"
      by (auto simp: parse_arg_Inr_iff)
    also have "\<dots> \<longleftrightarrow> (\<exists>ps. argv ! i # drop (Suc i) argv = render_flags ps \<and> set_flags ps cfg = Some cfg')"
      unfolding grammar_Cons by (cases "Suc i < length argv") (auto simp: Cons_nth_drop_Suc [symmetric])
    finally show ?thesis using True by (simp add: Cons_nth_drop_Suc)
  qed
qed

subsection \<open>Properties\<close>

text \<open>
  C24.  The parser accepts exactly the command lines that are a program name followed by
  flags, each with its value, where every value is allowed and exactly one of the two sources is
  set at the end; the configuration is the defaults with the flags applied from left to
  right, so that a later flag overrides an earlier one.  (The flags \<open>--help\<close> and \<open>-h\<close> are never
  accepted.)
\<close>

theorem config_grammar:
  "parse (prog # args) = Inr cfg \<longleftrightarrow>
    (\<exists>ps. args = render_flags ps \<and> set_flags ps default_config = Some cfg \<and> one_source cfg)"
  by (auto simp: parse_def bind_result_Inr_iff parse_loop_grammar one_source_def)

text \<open>The values a configuration can have.\<close>

definition valid_config :: "app_config \<Rightarrow> bool" where
  "valid_config cfg \<longleftrightarrow>
     0 < cfg_flow_timeout_sec cfg \<and> cfg_flow_timeout_sec cfg \<le> INT_MAX \<and>
     0 < cfg_max_flows cfg \<and> cfg_max_flows cfg \<le> INT_MAX \<and>
     0 < cfg_stats_interval_sec cfg \<and> cfg_stats_interval_sec cfg \<le> INT_MAX \<and>
     0 < cfg_sr_buffer_size cfg \<and> cfg_sr_buffer_size cfg \<le> INT_MAX \<and>
     cfg_metrics_port cfg \<noteq> 0 \<and>
     cfg_log_level cfg \<in> set kLevels \<and>
     cfg_version cfg = PACKETPIPE_VERSION"

lemma positive_range: "positive s = Some v \<Longrightarrow> 0 < v \<and> v \<le> INT_MAX"
  by (auto simp: positive_def split: sum.splits if_splits dest: stoi_range)

lemma port_nonzero: "0 < v \<Longrightarrow> v \<le> 65535 \<Longrightarrow> (word_of_int v :: u16) \<noteq> 0"
proof -
  assume v: "0 < v" "v \<le> 65535"
  then have u: "uint (word_of_int v :: u16) = v"
    by (simp add: unsigned_of_int take_bit_int_eq_self)
  show ?thesis
  proof
    assume "(word_of_int v :: u16) = 0"
    from arg_cong [OF this, of uint] u v(1) show False by simp
  qed
qed

lemma set_flag_valid:
  assumes "set_flag f s cfg = Some cfg'" and "valid_config cfg"
  shows "valid_config cfg'"
proof -
  have pos: "positive s = Some v \<Longrightarrow> 0 < v \<and> v \<le> INT_MAX" for v by (rule positive_range)
  show ?thesis
    using assms unfolding valid_config_def
    by (cases f) (force simp: port_nonzero bind_eq_Some_conv split: if_splits dest!: pos)+
qed

lemma set_flags_valid: "set_flags ps cfg = Some cfg' \<Longrightarrow> valid_config cfg \<Longrightarrow> valid_config cfg'"
  by (induction ps cfg rule: set_flags.induct) (auto simp: bind_eq_Some_conv dest: set_flag_valid)

lemma valid_default: "valid_config default_config"
  by (simp add: valid_config_def default_config_def INT_MAX_def kLevels_def)

lemma parse_valid: "parse argv = Inr cfg \<Longrightarrow> valid_config cfg"
  using set_flags_valid valid_default
  by (auto simp: parse_def bind_result_Inr_iff parse_loop_grammar split: if_splits)

lemma parse_one_source: "parse argv = Inr cfg \<Longrightarrow> one_source cfg"
  by (auto simp: parse_def bind_result_Inr_iff one_source_def split: if_splits)

text \<open>
  Whatever the command line, a configuration the parser returns names exactly one packet
  source, has positive \<open>int\<close> timeouts, table and buffer sizes, a port between 1 and 65535, and one
  of the four log levels.
\<close>

theorem config_valid:
  assumes "parse argv = Inr cfg"
  shows "valid_config cfg \<and> one_source cfg"
  using assms by (simp add: parse_valid parse_one_source)

theorem config_valid_witness:
  "\<exists>cfg. parse [''packetpipe'', ''--iface'', ''eth0'', ''--metrics-port'', ''9100''] = Inr cfg \<and>
    cfg_metrics_port cfg = 9100 \<and> valid_config cfg"
proof -
  let ?cfg = "default_config\<lparr>cfg_iface := ''eth0'', cfg_metrics_port := 9100\<rparr>"
  have "parse [''packetpipe'', ''--iface'', ''eth0'', ''--metrics-port'', ''9100''] = Inr ?cfg"
    by code_simp
  from config_valid [OF this] this show ?thesis by force
qed

definition dec_int :: "int \<Rightarrow> string" where
  "dec_int v = dec_string (nat v)"

definition config_flags :: "app_config \<Rightarrow> (option_flag \<times> string) list" where
  "config_flags cfg =
     [(Pcap, cfg_pcap_file cfg), (Iface, cfg_iface cfg), (Bpf_Filter, cfg_bpf_filter cfg),
      (Flow_Timeout, dec_int (cfg_flow_timeout_sec cfg)), (Max_Flows, dec_int (cfg_max_flows cfg)),
      (Stats_Interval, dec_int (cfg_stats_interval_sec cfg)),
      (Kafka_Brokers, cfg_kafka_brokers cfg), (Kafka_Topic, cfg_kafka_topic cfg),
      (Kafka_Conf, cfg_kafka_conf_file cfg), (Registry_Url, cfg_schema_registry_url cfg),
      (Sr_Buffer, dec_int (cfg_sr_buffer_size cfg)),
      (Metrics_Port, dec_string (unat (cfg_metrics_port cfg))),
      (Log_Level, cfg_log_level cfg)]"

lemma positive_dec_int: "0 < v \<Longrightarrow> v \<le> INT_MAX \<Longrightarrow> positive (dec_int v) = Some v"
  by (simp add: positive_def dec_int_def stoi_dec_string)

lemma uint_u16_le [simp]: "uint (p :: u16) \<le> 65535"
  using unsigned_less [of p, where 'a = int] by simp

lemma positive_port:
  assumes "(p :: u16) \<noteq> 0"
  shows "positive (dec_string (unat p)) = Some (int (unat p))" and "int (unat p) \<le> 65535"
proof -
  have le: "unat p \<le> 65535" using unat_u16_less [of p] by linarith
  then show "int (unat p) \<le> 65535" by simp
  have "int (unat p) \<le> INT_MAX" unfolding INT_MAX_def using le by linarith
  then have "stoi (dec_string (unat p)) = Inr (int (unat p))" by (rule stoi_dec_string)
  moreover have "0 < uint p" using assms by (simp add: uint_0_iff less_le)
  ultimately show "positive (dec_string (unat p)) = Some (int (unat p))"
    by (simp add: positive_def)
qed

lemma set_config_flags:
  "valid_config cfg \<Longrightarrow> set_flags (config_flags cfg) default_config = Some cfg"
  by (simp add: config_flags_def valid_config_def positive_dec_int positive_port default_config_def)

text \<open>
  C13.  Printing a valid configuration as a command line, every flag with its value, and
  parsing that gives the configuration back, whatever its strings hold.
\<close>

theorem config_roundtrip:
  assumes "valid_config cfg" and "one_source cfg"
  shows "parse (prog # render_flags (config_flags cfg)) = Inr cfg"
  using assms set_config_flags [of cfg]
  by (auto simp: parse_def bind_result_Inr_iff parse_loop_grammar one_source_def)

theorem config_roundtrip_witness:
  "let cfg = default_config\<lparr>cfg_pcap_file := ''a b.pcap'', cfg_max_flows := 2147483647\<rparr> in
   parse (''packetpipe'' # render_flags (config_flags cfg)) = Inr cfg"
  unfolding Let_def
  by (rule config_roundtrip)
    (simp_all add: valid_config_def one_source_def default_config_def INT_MAX_def kLevels_def)

text \<open>The exceptions that leave the parser.\<close>

fun reported :: "config_error \<Rightarrow> bool" where
  "reported (Not_Positive flag) \<longleftrightarrow> False"
| "reported (Not_An_Integer flag s) \<longleftrightarrow> flag \<in> range flag_name"
| "reported e \<longleftrightarrow> True"

lemma next_arg_reported: "next_arg argv i flag = Inl e \<Longrightarrow> reported e"
  by (auto simp: next_arg_def Let_def split: if_splits)

lemma positive_int_reported:
  "parse_positive_int s (flag_name f) = Inl e \<Longrightarrow> reported e"
  by (auto simp: parse_positive_int_eq split: option.splits)

lemma options_reported:
  "string_option argv i arg upd = Inl e \<Longrightarrow> reported e"
  "int_option argv i (flag_name f) upd' = Inl e \<Longrightarrow> reported e"
  by (auto simp: string_option_def int_option_def bind_result_def split: sum.splits
      dest: next_arg_reported positive_int_reported)

lemma parse_arg_reported: "parse_arg argv i cfg = Inl e \<Longrightarrow> reported e"
  using options_reported(2) [of argv i Flow_Timeout] options_reported(2) [of argv i Max_Flows]
    options_reported(2) [of argv i Stats_Interval] options_reported(2) [of argv i Sr_Buffer]
    positive_int_reported [of _ Metrics_Port]
  by (auto simp: parse_arg_def Let_def bind_result_def split: if_splits sum.splits
      dest: options_reported(1) next_arg_reported)

lemma parse_loop_reported: "parse_loop argv i cfg = Inl e \<Longrightarrow> reported e"
proof (induction argv i cfg rule: parse_loop.induct)
  case (1 argv i cfg)
  then show ?case
    by (subst (asm) (2) parse_loop.simps) (auto split: if_splits sum.splits dest: parse_arg_reported)
qed

lemma parse_reported: "parse argv = Inl e \<Longrightarrow> reported e"
  using parse_loop_reported [of argv 1 default_config]
  by (auto simp: parse_def bind_result_def split: sum.splits if_splits)

lemma die_eq_iff [simp]: "die x = die y \<longleftrightarrow> x = y"
  by (simp add: die_def)

lemma usage_not_flag: "kUsage \<noteq> die (flag_name f @ x)"
proof -
  have "hd kUsage = CHR ''U''" by code_simp
  moreover have "hd (die (flag_name f @ x)) = CHR ''-''" by (cases f) (simp_all add: die_def)
  ultimately show ?thesis by force
qed

lemma message_not_positive:
  assumes "reported e"
  shows "what e \<noteq> what (Not_Positive (flag_name f))"
proof (cases e)
  case (Not_An_Integer flag s)
  then obtain g where "flag = flag_name g" using assms by auto
  then show ?thesis using Not_An_Integer by (cases f; cases g) simp_all
next
  case Help_Requested
  then show ?thesis by (simp add: usage_not_flag)
next
  case (Not_Positive flag)
  then show ?thesis using assms by simp
next
  case (Missing_Value flag)
  then show ?thesis by (cases f) simp_all
next
  case (Unknown_Argument arg)
  then show ?thesis by (cases f) simp_all
qed (cases f; simp)+

text \<open>
  C32.  Whatever the command line, an exception that leaves the parser never has the
  message \<open>must be a positive integer\<close> of one of its flags: for a value that \<open>std::stoi\<close> reads as a
  number that is not positive, such as \<open>0\<close> or \<open>-5\<close>, the exception is caught by the handler around
  \<open>std::stoi\<close>, and the user is told that an integer was required.  And a value that starts with
  the digits of a positive \<open>int\<close> is accepted as that number whatever follows the digits, as
  in \<open>--max-flows 12abc\<close>.
\<close>

theorem config_positive_message_lost:
  "(parse argv = Inl e \<longrightarrow> (\<forall>f. what e \<noteq> what (Not_Positive (flag_name f)))) \<and>
   (stoi s = Inr v \<and> v \<le> 0 \<longrightarrow>
     parse_positive_int s flag = Inl (Not_An_Integer flag s) \<and>
     parse [prog, ''--max-flows'', s] = Inl (Not_An_Integer ''--max-flows'' s)) \<and>
   (0 < n \<and> int n \<le> INT_MAX \<and> \<not> is_digit c \<longrightarrow>
     parse_positive_int (dec_string n @ c # rest) flag = Inr (int n) \<and>
     parse [prog, ''--pcap'', file, ''--max-flows'', dec_string n @ c # rest] =
       (if file = [] then Inl No_Source
        else Inr (default_config\<lparr>cfg_pcap_file := file, cfg_max_flows := int n\<rparr>)))"
proof (intro conjI impI; (elim conjE)?)
  assume "parse argv = Inl e"
  then show "\<forall>f. what e \<noteq> what (Not_Positive (flag_name f))"
    using parse_reported message_not_positive by blast
next
  assume v: "stoi s = Inr v" "v \<le> 0"
  then show "parse_positive_int s flag = Inl (Not_An_Integer flag s)"
    by (simp add: parse_positive_int_def)
  with v show "parse [prog, ''--max-flows'', s] = Inl (Not_An_Integer ''--max-flows'' s)"
    by (simp add: parse_def parse_loop.simps parse_arg_def int_option_def next_arg_def bind_result_def
        parse_positive_int_def)
next
  assume n: "0 < n" "int n \<le> INT_MAX" "\<not> is_digit c"
  then have "stoi (dec_string n @ c # rest) = Inr (int n)" by (simp add: stoi_dec_string_rest)
  then show *: "parse_positive_int (dec_string n @ c # rest) flag = Inr (int n)" for flag
    using n by (simp add: parse_positive_int_def)
  then show "parse [prog, ''--pcap'', file, ''--max-flows'', dec_string n @ c # rest] =
       (if file = [] then Inl No_Source
        else Inr (default_config\<lparr>cfg_pcap_file := file, cfg_max_flows := int n\<rparr>))"
    by (simp add: parse_def parse_loop.simps parse_arg_def int_option_def string_option_def next_arg_def
        bind_result_def default_config_def)
qed

theorem config_positive_message_lost_witness:
  "parse [[], ''--max-flows'', ''-5''] = Inl (Not_An_Integer ''--max-flows'' ''-5'') \<and>
   what (Not_An_Integer ''--max-flows'' ''-5'') \<noteq> what (Not_Positive ''--max-flows'') \<and>
   parse [[], ''--pcap'', ''f'', ''--max-flows'', ''12abc''] =
     Inr (default_config\<lparr>cfg_pcap_file := ''f'', cfg_max_flows := 12\<rparr>)"
proof -
  note lost = config_positive_message_lost [of "[[], ''--max-flows'', ''-5'']"
      "Not_An_Integer ''--max-flows'' ''-5''" "''-5''" "-5" _ "[]" 12 "CHR ''a''" "''bc''" "''f''"]
  have s: "stoi ''-5'' = Inr (- 5)" "dec_string 12 = ''12''" "\<not> is_digit (CHR ''a'')" by code_simp+
  have "0 < (12 :: nat)" "int 12 \<le> INT_MAX" "(-5 :: int) \<le> 0" by (simp_all add: INT_MAX_def)
  with lost s show ?thesis by (force dest: spec [of _ Max_Flows])
qed

end
