(* ===== verification/Metrics.thy ===== *)
theory Metrics
  imports Flow_Event Std_String
begin

section \<open>The metrics interface and registry (metrics/)\<close>

text \<open>
  \<open>IMetricsRegistry\<close> is modelled by the type \<open>metric_id\<close>, one constructor per virtual
  accessor, and a \<open>metrics\<close> state that counts, per accessor, the \<open>Increment()\<close> calls made on
  the returned handle (minus the \<open>Decrement()\<close> calls, for the gauge).  The counts are exact
  integers: how prometheus-cpp stores a value is not modelled.

  \<open>MetricsRegistry\<close> is modelled by the sequence of series its constructor asks prometheus-cpp
  to create, with a handle for each, and by its accessors.  The locale \<open>metrics_interface\<close>
  states what the users of the interface rely on; it is interpreted both on the abstract
  counts and on the registry's own series.
\<close>

datatype metric_id =
    PacketsReceived
  | PacketsDropped
  | FlowsActive
  | FlowsCreated
  | FlowsExpired expire_reason
  | KafkaMessagesProduced
  | KafkaDeliveryErrors
  | AvroSerializationErrors
  | SchemaRegistryRetries

type_synonym metrics = "metric_id \<Rightarrow> int"

definition metrics_zero :: metrics where
  "metrics_zero = (\<lambda>_. 0)"

definition Increment :: "metric_id \<Rightarrow> metrics \<Rightarrow> metrics" where
  "Increment x m = m(x := m x + 1)"

definition Decrement :: "metric_id \<Rightarrow> metrics \<Rightarrow> metrics" where
  "Decrement x m = m(x := m x - 1)"

lemma Increment_apply [simp]: "Increment x m y = m y + (if y = x then 1 else 0)"
  by (simp add: Increment_def)

lemma Decrement_apply [simp]: "Decrement x m y = m y - (if y = x then 1 else 0)"
  by (simp add: Decrement_def)

subsection \<open>All accessors\<close>

instantiation metric_id :: enum
begin

definition enum_metric_id :: "metric_id list" where
  "enum_metric_id =
     [PacketsReceived, PacketsDropped, FlowsActive, FlowsCreated, FlowsExpired IdleTimeout,
      FlowsExpired TcpTeardown, KafkaMessagesProduced, KafkaDeliveryErrors,
      AvroSerializationErrors, SchemaRegistryRetries]"

definition enum_all_metric_id :: "(metric_id \<Rightarrow> bool) \<Rightarrow> bool" where
  "enum_all_metric_id P \<longleftrightarrow> list_all P enum_class.enum"

definition enum_ex_metric_id :: "(metric_id \<Rightarrow> bool) \<Rightarrow> bool" where
  "enum_ex_metric_id P \<longleftrightarrow> list_ex P enum_class.enum"

instance
proof
  have all: "x \<in> set enum_class.enum" for x :: metric_id
  proof (cases x)
    case (FlowsExpired r)
    then show ?thesis by (cases r) (simp_all add: enum_metric_id_def)
  qed (simp_all add: enum_metric_id_def)
  then show univ: "(UNIV :: metric_id set) = set enum_class.enum" by auto
  show "distinct (enum_class.enum :: metric_id list)"
    by (simp add: enum_metric_id_def)
  show "enum_class.enum_all P \<longleftrightarrow> Ball UNIV P" for P :: "metric_id \<Rightarrow> bool"
    by (simp add: univ enum_all_metric_id_def list_all_iff)
  show "enum_class.enum_ex P \<longleftrightarrow> Bex UNIV P" for P :: "metric_id \<Rightarrow> bool"
    by (simp add: univ enum_ex_metric_id_def list_ex_iff)
qed

end

subsection \<open>What a user of the interface relies on\<close>

locale metrics_interface =
  fixes readm :: "'m \<Rightarrow> metric_id \<Rightarrow> int"
    and inc :: "metric_id \<Rightarrow> 'm \<Rightarrow> 'm"
    and dec :: "metric_id \<Rightarrow> 'm \<Rightarrow> 'm"
    and valid :: "'m \<Rightarrow> bool"
  assumes read_inc: "valid m \<Longrightarrow> readm (inc x m) y = readm m y + (if y = x then 1 else 0)"
    and read_dec: "valid m \<Longrightarrow> readm (dec x m) y = readm m y - (if y = x then 1 else 0)"
    and valid_inc: "valid m \<Longrightarrow> valid (inc x m)"
    and valid_dec: "valid m \<Longrightarrow> valid (dec x m)"
begin

lemma valid_fold_inc: "valid m \<Longrightarrow> valid (fold inc xs m)"
  by (induction xs arbitrary: m) (simp_all add: valid_inc)

lemma read_fold_inc:
  "valid m \<Longrightarrow> readm (fold inc xs m) y = readm m y + int (count_list xs y)"
  by (induction xs arbitrary: m) (auto simp: read_inc valid_inc)

lemma inc_commute: "valid m \<Longrightarrow> readm (inc x (inc y m)) z = readm (inc y (inc x m)) z"
  by (simp add: read_inc valid_inc)

lemma dec_after_inc: "valid m \<Longrightarrow> readm (dec x (inc x m)) z = readm m z"
  by (simp add: read_inc read_dec valid_inc)

end

interpretation counts: metrics_interface "\<lambda>m. m" Increment Decrement "\<lambda>_. True"
  by unfold_locales simp_all

subsection \<open>The registry\<close>

datatype metric_kind = CounterKind | GaugeKind

type_synonym labels = "(string \<times> string) list"

text \<open>
  A series as the constructor requests it; its value is the net number of increments.  The
  registry is the list of its series, a handle the position of one.  Labels are a map: their order does not
  matter.  \<open>Register(reg).Add(labels)\<close> answers the series of that name and these labels if there is
  one already, as prometheus-cpp documents, and creates it otherwise.
\<close>

record series =
  sr_kind :: metric_kind
  sr_name :: string
  sr_help :: string
  sr_labels :: labels
  sr_value :: int

type_synonym prom_registry = "series list"
type_synonym handle = nat

definition same_labels :: "labels \<Rightarrow> labels \<Rightarrow> bool" where
  "same_labels ls ls' \<longleftrightarrow> length ls = length ls' \<and> list_all (\<lambda>l. l \<in> set ls') ls"

fun find_series :: "metric_kind \<Rightarrow> string \<Rightarrow> labels \<Rightarrow> prom_registry \<Rightarrow> handle option" where
  "find_series kind name labels [] = None"
| "find_series kind name labels (s # reg) =
     (if sr_kind s = kind \<and> sr_name s = name \<and> same_labels (sr_labels s) labels then Some 0
      else map_option Suc (find_series kind name labels reg))"

definition add_series ::
  "metric_kind \<Rightarrow> prom_registry \<Rightarrow> string \<Rightarrow> string \<Rightarrow> labels \<Rightarrow> handle \<times> prom_registry" where
  "add_series kind reg name help labels =
     (case find_series kind name labels reg of
        Some h \<Rightarrow> (h, reg)
      | None \<Rightarrow>
          (length reg,
           reg @ [\<lparr>sr_kind = kind, sr_name = name, sr_help = help, sr_labels = labels,
                   sr_value = 0\<rparr>]))"

definition make_counter ::
  "prom_registry \<Rightarrow> string \<Rightarrow> string \<Rightarrow> labels \<Rightarrow> handle \<times> prom_registry" where
  "make_counter reg name help labels = add_series CounterKind reg name help labels"

definition make_gauge ::
  "prom_registry \<Rightarrow> string \<Rightarrow> string \<Rightarrow> labels \<Rightarrow> handle \<times> prom_registry" where
  "make_gauge reg name help labels = add_series GaugeKind reg name help labels"

record metrics_registry =
  mr_registry :: prom_registry
  mr_exposer_address :: string
  mr_packets_received :: handle
  mr_packets_dropped :: handle
  mr_flows_active :: handle
  mr_flows_created :: handle
  mr_flows_expired_idle :: handle
  mr_flows_expired_tcp :: handle
  mr_kafka_messages_produced :: handle
  mr_kafka_delivery_errors :: handle
  mr_avro_serialization_errors :: handle
  mr_schema_registry_retries :: handle

definition MetricsRegistry :: "string \<Rightarrow> u16 \<Rightarrow> metrics_registry" where
  "MetricsRegistry version port =
     (let base = [(''version'', version)];
          (h_received, reg) = make_counter []
            ''packetpipe_packets_received_total'' ''Packets ingested'' base;
          (h_dropped, reg) = make_counter reg
            ''packetpipe_packets_dropped_total''
            ''Packets discarded (unrecognised protocol or over flow limit)'' base;
          (h_active, reg) = make_gauge reg
            ''packetpipe_flows_active'' ''Currently tracked flows'' base;
          (h_created, reg) = make_counter reg
            ''packetpipe_flows_created_total'' ''Total flows opened'' base;
          (h_idle, reg) = make_counter reg
            ''packetpipe_flows_expired_total'' ''Total flows expired''
            [(''version'', version), (''reason'', ''idle_timeout'')];
          (h_tcp, reg) = make_counter reg
            ''packetpipe_flows_expired_total'' ''Total flows expired''
            [(''version'', version), (''reason'', ''tcp_teardown'')];
          (h_produced, reg) = make_counter reg
            ''packetpipe_kafka_messages_produced_total'' ''Messages handed to librdkafka'' base;
          (h_errors, reg) = make_counter reg
            ''packetpipe_kafka_delivery_errors_total'' ''Failed Kafka deliveries'' base;
          (h_avro, reg) = make_counter reg
            ''packetpipe_avro_serialization_errors_total'' ''Avro serialization failures'' base;
          (h_retries, reg) = make_counter reg
            ''packetpipe_schema_registry_retries_total''
            ''Schema Registry retry attempts'' base
      in \<lparr>mr_registry = reg,
          mr_exposer_address = ''0.0.0.0:'' @ dec_string (unat port),
          mr_packets_received = h_received,
          mr_packets_dropped = h_dropped,
          mr_flows_active = h_active,
          mr_flows_created = h_created,
          mr_flows_expired_idle = h_idle,
          mr_flows_expired_tcp = h_tcp,
          mr_kafka_messages_produced = h_produced,
          mr_kafka_delivery_errors = h_errors,
          mr_avro_serialization_errors = h_avro,
          mr_schema_registry_retries = h_retries\<rparr>)"

definition flows_expired :: "metrics_registry \<Rightarrow> expire_reason \<Rightarrow> handle" where
  "flows_expired mr r =
     (if r = IdleTimeout then mr_flows_expired_idle mr else mr_flows_expired_tcp mr)"

fun metric_handle :: "metrics_registry \<Rightarrow> metric_id \<Rightarrow> handle" where
  "metric_handle mr PacketsReceived = mr_packets_received mr"
| "metric_handle mr PacketsDropped = mr_packets_dropped mr"
| "metric_handle mr FlowsActive = mr_flows_active mr"
| "metric_handle mr FlowsCreated = mr_flows_created mr"
| "metric_handle mr (FlowsExpired r) = flows_expired mr r"
| "metric_handle mr KafkaMessagesProduced = mr_kafka_messages_produced mr"
| "metric_handle mr KafkaDeliveryErrors = mr_kafka_delivery_errors mr"
| "metric_handle mr AvroSerializationErrors = mr_avro_serialization_errors mr"
| "metric_handle mr SchemaRegistryRetries = mr_schema_registry_retries mr"

text \<open>Calls on the handle an accessor returns, and the value a scrape reads from it.\<close>

definition mr_add :: "int \<Rightarrow> metric_id \<Rightarrow> metrics_registry \<Rightarrow> metrics_registry" where
  "mr_add d x mr =
     mr\<lparr>mr_registry :=
       (mr_registry mr)[metric_handle mr x :=
         (mr_registry mr ! metric_handle mr x)
           \<lparr>sr_value := sr_value (mr_registry mr ! metric_handle mr x) + d\<rparr>]\<rparr>"

definition mr_read :: "metrics_registry \<Rightarrow> metric_id \<Rightarrow> int" where
  "mr_read mr x = sr_value (mr_registry mr ! metric_handle mr x)"

definition mr_series :: "metrics_registry \<Rightarrow> metric_id \<Rightarrow> metric_kind \<times> string \<times> labels" where
  "mr_series mr x =
     (let s = mr_registry mr ! metric_handle mr x in (sr_kind s, sr_name s, sr_labels s))"

text \<open>Every accessor has a series of its own.\<close>

definition mr_valid :: "metrics_registry \<Rightarrow> bool" where
  "mr_valid mr \<longleftrightarrow>
     inj (metric_handle mr) \<and> (\<forall>x. metric_handle mr x < length (mr_registry mr))"

text \<open>The names and labels the requirements FR-MET-2 and FR-MET-3 ask for.\<close>

fun required_series :: "string \<Rightarrow> metric_id \<Rightarrow> metric_kind \<times> string \<times> labels" where
  "required_series v PacketsReceived =
     (CounterKind, ''packetpipe_packets_received_total'', [(''version'', v)])"
| "required_series v PacketsDropped =
     (CounterKind, ''packetpipe_packets_dropped_total'', [(''version'', v)])"
| "required_series v FlowsActive =
     (GaugeKind, ''packetpipe_flows_active'', [(''version'', v)])"
| "required_series v FlowsCreated =
     (CounterKind, ''packetpipe_flows_created_total'', [(''version'', v)])"
| "required_series v (FlowsExpired IdleTimeout) =
     (CounterKind, ''packetpipe_flows_expired_total'',
      [(''version'', v), (''reason'', ''idle_timeout'')])"
| "required_series v (FlowsExpired TcpTeardown) =
     (CounterKind, ''packetpipe_flows_expired_total'',
      [(''version'', v), (''reason'', ''tcp_teardown'')])"
| "required_series v KafkaMessagesProduced =
     (CounterKind, ''packetpipe_kafka_messages_produced_total'', [(''version'', v)])"
| "required_series v KafkaDeliveryErrors =
     (CounterKind, ''packetpipe_kafka_delivery_errors_total'', [(''version'', v)])"
| "required_series v AvroSerializationErrors =
     (CounterKind, ''packetpipe_avro_serialization_errors_total'', [(''version'', v)])"
| "required_series v SchemaRegistryRetries =
     (CounterKind, ''packetpipe_schema_registry_retries_total'', [(''version'', v)])"

lemma metric_handle_update [simp]:
  "metric_handle (mr\<lparr>mr_registry := reg\<rparr>) x = metric_handle mr x"
  by (cases x) (simp_all add: flows_expired_def)

lemma mr_valid_add [simp]: "mr_valid mr \<Longrightarrow> mr_valid (mr_add d x mr)"
  by (simp add: mr_valid_def mr_add_def inj_on_def)

lemma mr_read_add:
  "mr_valid mr \<Longrightarrow> mr_read (mr_add d x mr) y = mr_read mr y + (if y = x then d else 0)"
  by (auto simp: mr_valid_def mr_add_def mr_read_def nth_list_update dest: injD)

lemma mr_series_add: "mr_valid mr \<Longrightarrow> mr_series (mr_add d x mr) y = mr_series mr y"
  by (auto simp: mr_valid_def mr_add_def mr_series_def nth_list_update Let_def)

interpretation registry: metrics_interface mr_read "mr_add 1" "mr_add (- 1)" mr_valid
  by unfold_locales (auto simp: mr_read_add)

text \<open>The registry after construction, evaluated once: every request found a new series.\<close>

definition new_series :: "metric_kind \<Rightarrow> string \<Rightarrow> string \<Rightarrow> labels \<Rightarrow> series" where
  "new_series kind name help labels =
     \<lparr>sr_kind = kind, sr_name = name, sr_help = help, sr_labels = labels, sr_value = 0\<rparr>"

lemma add_series_fresh:
  assumes "\<forall>s \<in> set reg. (sr_kind s, sr_name s) \<noteq> (kind, name) \<or> \<not> same_labels (sr_labels s) labels"
  shows "add_series kind reg name help labels = (length reg, reg @ [new_series kind name help labels])"
proof -
  have "find_series kind name labels reg = None"
    using assms by (induction reg) auto
  then show ?thesis by (simp add: add_series_def new_series_def)
qed

lemma MetricsRegistry_new:
  "MetricsRegistry v p =
     \<lparr>mr_registry =
       [
       new_series CounterKind ''packetpipe_packets_received_total'' ''Packets ingested'' [(''version'', v)],
       new_series CounterKind ''packetpipe_packets_dropped_total'' ''Packets discarded (unrecognised protocol or over flow limit)'' [(''version'', v)],
       new_series GaugeKind ''packetpipe_flows_active'' ''Currently tracked flows'' [(''version'', v)],
       new_series CounterKind ''packetpipe_flows_created_total'' ''Total flows opened'' [(''version'', v)],
       new_series CounterKind ''packetpipe_flows_expired_total'' ''Total flows expired'' [(''version'', v), (''reason'', ''idle_timeout'')],
       new_series CounterKind ''packetpipe_flows_expired_total'' ''Total flows expired'' [(''version'', v), (''reason'', ''tcp_teardown'')],
       new_series CounterKind ''packetpipe_kafka_messages_produced_total'' ''Messages handed to librdkafka'' [(''version'', v)],
       new_series CounterKind ''packetpipe_kafka_delivery_errors_total'' ''Failed Kafka deliveries'' [(''version'', v)],
       new_series CounterKind ''packetpipe_avro_serialization_errors_total'' ''Avro serialization failures'' [(''version'', v)],
       new_series CounterKind ''packetpipe_schema_registry_retries_total'' ''Schema Registry retry attempts'' [(''version'', v)]],
      mr_exposer_address = ''0.0.0.0:'' @ dec_string (unat p), mr_packets_received = 0,
      mr_packets_dropped = 1, mr_flows_active = 2, mr_flows_created = 3, mr_flows_expired_idle = 4,
      mr_flows_expired_tcp = 5, mr_kafka_messages_produced = 6, mr_kafka_delivery_errors = 7,
      mr_avro_serialization_errors = 8, mr_schema_registry_retries = 9\<rparr>"
  by (simp add: MetricsRegistry_def make_counter_def make_gauge_def add_series_fresh new_series_def
      same_labels_def Let_def)

lemmas metrics_registry_defs = MetricsRegistry_new new_series_def flows_expired_def Let_def

lemma metric_handle_new:
  "map (metric_handle (MetricsRegistry v p)) enum_class.enum = [0 ..< 10]"
  by (simp add: enum_metric_id_def metrics_registry_defs upt_rec)

lemma length_registry_new: "length (mr_registry (MetricsRegistry v p)) = 10"
  by (simp add: metrics_registry_defs)

lemma mr_valid_new: "mr_valid (MetricsRegistry v p)"
proof -
  let ?h = "metric_handle (MetricsRegistry v p)"
  have "distinct (map ?h enum_class.enum)" by (simp add: metric_handle_new)
  then have "inj ?h" by (simp add: distinct_map UNIV_enum [symmetric])
  moreover have "?h x \<in> set (map ?h enum_class.enum)" for x
    by (simp add: UNIV_enum [symmetric])
  then have "?h x < 10" for x by (simp only: metric_handle_new) simp
  ultimately show ?thesis by (simp add: mr_valid_def length_registry_new)
qed

lemma mr_series_new: "mr_series (MetricsRegistry v p) x = required_series v x"
proof (cases x)
  case (FlowsExpired r)
  then show ?thesis by (cases r) (simp_all add: mr_series_def metrics_registry_defs)
qed (simp_all add: mr_series_def metrics_registry_defs)

lemma mr_read_new: "mr_read (MetricsRegistry v p) x = 0"
proof (cases x)
  case (FlowsExpired r)
  then show ?thesis by (cases r) (simp_all add: mr_read_def metrics_registry_defs)
qed (simp_all add: mr_read_def metrics_registry_defs)

lemma required_series_inj: "required_series v x = required_series v y \<Longrightarrow> x = y"
proof -
  have "inj_on (required_series v) (set enum_class.enum)"
    by (simp add: enum_metric_id_def)
  then show "required_series v x = required_series v y \<Longrightarrow> x = y"
    by (simp add: UNIV_enum [symmetric] inj_on_def)
qed

subsection \<open>Properties of the registry\<close>

text \<open>The calls the program makes on the handles it was given.\<close>

datatype metric_call = Inc metric_id | Dec metric_id

fun registry_call :: "metric_call \<Rightarrow> metrics_registry \<Rightarrow> metrics_registry" where
  "registry_call (Inc x) mr = mr_add 1 x mr"
| "registry_call (Dec x) mr = mr_add (- 1) x mr"

fun counts_call :: "metric_call \<Rightarrow> metrics \<Rightarrow> metrics" where
  "counts_call (Inc x) m = Increment x m"
| "counts_call (Dec x) m = Decrement x m"

lemma registry_calls_refine:
  assumes "mr_valid mr" and "\<And>x. mr_read mr x = m x"
  shows "mr_valid (fold registry_call cs mr) \<and>
    (\<forall>x. mr_read (fold registry_call cs mr) x = fold counts_call cs m x) \<and>
    (\<forall>x. mr_series (fold registry_call cs mr) x = mr_series mr x)"
  using assms
proof (induction cs arbitrary: mr m)
  case (Cons c cs)
  have step: "mr_valid (registry_call c mr)"
    "mr_read (registry_call c mr) x = counts_call c m x"
    "mr_series (registry_call c mr) x = mr_series mr x" for x
    using Cons.prems by (cases c; simp add: mr_read_add mr_series_add)+
  show ?case using Cons.IH [OF step(1,2)] step(3) by simp
qed simp

text \<open>What a scrape shows, series by series: the position of each is the handle of one accessor.\<close>

lemma registry_by_accessor:
  assumes "map (metric_handle mr) enum_class.enum = [0 ..< length (mr_registry mr)]"
  shows "mr_registry mr = map (\<lambda>x. mr_registry mr ! metric_handle mr x) enum_class.enum"
proof -
  have "mr_registry mr = map ((!) (mr_registry mr)) (map (metric_handle mr) enum_class.enum)"
    by (simp only: assms map_nth)
  then show ?thesis by (simp add: comp_def)
qed

lemma only_accessor: "filter (\<lambda>y. y = x) enum_class.enum = [x :: metric_id]"
proof (cases x)
  case (FlowsExpired r)
  then show ?thesis by (cases r) (simp_all add: enum_metric_id_def)
qed (simp_all add: enum_metric_id_def)

lemma registry_calls_handles:
  "metric_handle (fold registry_call cs mr) = metric_handle mr \<and>
   length (mr_registry (fold registry_call cs mr)) = length (mr_registry mr)"
proof (induction cs arbitrary: mr)
  case (Cons c cs)
  have "metric_handle (registry_call c mr) = metric_handle mr"
    "length (mr_registry (registry_call c mr)) = length (mr_registry mr)"
    by (cases c; simp add: mr_add_def fun_eq_iff)+
  with Cons.IH [of "registry_call c mr"] show ?case by simp
qed simp

text \<open>
  C31. Whatever sequence of \<open>Increment()\<close> and \<open>Decrement()\<close> calls the
  program makes through the accessors of a freshly constructed \<open>MetricsRegistry\<close>, a scrape of
  \<open>/metrics\<close> shows for each accessor exactly one series of the kind, name and labels that
  FR-MET-2 and FR-MET-3 require for what that accessor counts, and its value is the net number of calls made
  through that accessor; it shows no other series, and each has the \<open>version\<close> label.  So no two
  accessors share a series, although a repeated name and labels would silently give them
  the same one, and none counts under the name of another.
\<close>

theorem metrics_registry_refines_counts:
  "map sr_value (filter (\<lambda>s. (sr_kind s, sr_name s, sr_labels s) = required_series version x)
       (mr_registry (fold registry_call cs (MetricsRegistry version port)))) =
     [fold counts_call cs metrics_zero x]
   \<and> (\<forall>s \<in> set (mr_registry (fold registry_call cs (MetricsRegistry version port))).
       (''version'', version) \<in> set (sr_labels s) \<and>
       (\<exists>y. (sr_kind s, sr_name s, sr_labels s) = required_series version y))"
proof -
  let ?mr = "fold registry_call cs (MetricsRegistry version port)"
  let ?s = "\<lambda>x. mr_registry ?mr ! metric_handle ?mr x"
  have "mr_read (MetricsRegistry version port) y = metrics_zero y" for y
    by (simp add: mr_read_new metrics_zero_def)
  then have "mr_read ?mr y = fold counts_call cs metrics_zero y"
    and "mr_series ?mr y = required_series version y" for y
    using registry_calls_refine [OF mr_valid_new] by (auto simp: mr_series_new)
  then have read: "sr_value (?s y) = fold counts_call cs metrics_zero y"
    and series: "(sr_kind (?s y), sr_name (?s y), sr_labels (?s y)) = required_series version y" for y
    by (simp_all add: mr_read_def mr_series_def Let_def)
  have reg: "mr_registry ?mr = map ?s enum_class.enum"
    by (rule registry_by_accessor)
      (simp add: registry_calls_handles metric_handle_new length_registry_new)
  have same: "required_series version y = required_series version x \<longleftrightarrow> y = x" for y
    by (auto dest: required_series_inj)
  have "filter (\<lambda>s. (sr_kind s, sr_name s, sr_labels s) = required_series version x) (mr_registry ?mr) = [?s x]"
    by (subst reg) (simp add: filter_map comp_def series same only_accessor)
  moreover have "(''version'', version) \<in> set (snd (snd (required_series version y)))" for y
    by (cases "(version, y)" rule: required_series.cases) simp_all
  then have "(''version'', version) \<in> set (sr_labels (?s y))" for y
    by (metis series snd_conv)
  ultimately show ?thesis using read series by (subst (2) reg) auto
qed

theorem metrics_registry_refines_counts_witness:
  "let scrape = mr_registry (fold registry_call [Inc FlowsActive, Inc (FlowsExpired TcpTeardown), Inc FlowsActive,
         Dec FlowsActive] (MetricsRegistry ''1.0.0'' 9090))
   in map sr_value (filter (\<lambda>s. (sr_kind s, sr_name s, sr_labels s) =
          (CounterKind, ''packetpipe_flows_expired_total'', [(''version'', ''1.0.0''), (''reason'', ''tcp_teardown'')])) scrape) = [1] \<and>
      (\<forall>s \<in> set scrape. (''version'', ''1.0.0'') \<in> set (sr_labels s))"
  using metrics_registry_refines_counts [of "''1.0.0''" "FlowsExpired TcpTeardown"
      "[Inc FlowsActive, Inc (FlowsExpired TcpTeardown), Inc FlowsActive, Dec FlowsActive]" 9090]
  by (simp add: metrics_zero_def Let_def del: filter.simps)

end
