(* ===== verification/Packet_Decoder.thy ===== *)
theory Packet_Decoder
  imports Prelude
begin

section \<open>The packet decoder (packets/packet\_decoder.cpp)\<close>

text \<open>
  \<open>PacketDecoder::decode\<close> on the bytes libpcap captured.  The buffer is a byte list, and every
  read names the position it reads: outside the buffer it is \<open>Bad_Read\<close>, the undefined
  behaviour of the C++ read, so that memory safety is a statement about results.  \<open>Nullopt\<close> is
  the \<open>return std::nullopt\<close> of the code.  Lengths and offsets keep their widths: \<open>offset\<close> and
  \<open>len\<close> are \<open>uint32_t\<close>, and a sum with a \<open>sizeof\<close> is taken in \<open>size_t\<close>.  The layouts of the
  system's \<open>struct ip\<close>, \<open>ip6_hdr\<close>, \<open>tcphdr\<close>, \<open>udphdr\<close> and \<open>icmphdr\<close> are those of the protocol
  standards.
\<close>

record parsed_packet =
  pp_src_ip :: "u8 list"
  pp_dst_ip :: "u8 list"
  pp_src_port :: u16
  pp_dst_port :: u16
  pp_protocol :: u8
  pp_wire_length :: u32
  pp_timestamp_us :: i64
  pp_tcp_fin :: bool
  pp_tcp_rst :: bool
  pp_is_ipv6 :: bool

definition default_packet :: parsed_packet where
  "default_packet =
     \<lparr>pp_src_ip = replicate 16 0, pp_dst_ip = replicate 16 0, pp_src_port = 0, pp_dst_port = 0,
      pp_protocol = 0, pp_wire_length = 0, pp_timestamp_us = 0, pp_tcp_fin = False,
      pp_tcp_rst = False, pp_is_ipv6 = False\<rparr>"

record timeval =
  tv_sec :: i64
  tv_usec :: i64

subsection \<open>Results of decoding steps and reads of the buffer\<close>

datatype 'a decoding = Bad_Read | Nullopt | Decoded 'a

fun and_then :: "'a decoding \<Rightarrow> ('a \<Rightarrow> 'b decoding) \<Rightarrow> 'b decoding" where
  "and_then Bad_Read f = Bad_Read"
| "and_then Nullopt f = Nullopt"
| "and_then (Decoded x) f = f x"

definition byte_at :: "u8 list \<Rightarrow> u32 \<Rightarrow> u8 decoding" where
  "byte_at data i = (if unat i < length data then Decoded (data ! unat i) else Bad_Read)"

text \<open>\<open>std::memcpy\<close> of \<open>n\<close> bytes out of the buffer.\<close>

definition bytes_at :: "u8 list \<Rightarrow> u32 \<Rightarrow> nat \<Rightarrow> u8 list decoding" where
  "bytes_at data i n =
     (if unat i + n \<le> length data then Decoded (take n (drop (unat i) data)) else Bad_Read)"

text \<open>A 16-bit field in network byte order, read and converted with \<open>ntohs\<close>.\<close>

definition be16 :: "u8 \<Rightarrow> u8 \<Rightarrow> u16" where
  "be16 hi lo = push_bit 8 (ucast hi) OR ucast lo"

definition ntohs_at :: "u8 list \<Rightarrow> u32 \<Rightarrow> u16 decoding" where
  "ntohs_at data i =
     and_then (byte_at data i) (\<lambda>hi. and_then (byte_at data (i + 1)) (\<lambda>lo. Decoded (be16 hi lo)))"

subsection \<open>The decoder\<close>

definition kEthHdrLen :: u32 where "kEthHdrLen = 14"
definition kEtherIPv4 :: u16 where "kEtherIPv4 = 0x0800"
definition kEtherIPv6 :: u16 where "kEtherIPv6 = 0x86DD"
definition kEtherVLAN :: u16 where "kEtherVLAN = 0x8100"

definition IPPROTO_ICMP :: u8 where "IPPROTO_ICMP = 1"
definition IPPROTO_TCP :: u8 where "IPPROTO_TCP = 6"
definition IPPROTO_UDP :: u8 where "IPPROTO_UDP = 17"
definition IPPROTO_ICMPV6 :: u8 where "IPPROTO_ICMPV6 = 58"

definition TH_FIN :: u8 where "TH_FIN = 0x01"
definition TH_RST :: u8 where "TH_RST = 0x04"

definition set_ipv4_mapped :: "u8 list \<Rightarrow> u8 list" where
  "set_ipv4_mapped addr4 =
     (let out = replicate 16 0;
          out = out[10 := 0xFF];
          out = out[11 := 0xFF]
      in take 12 out @ addr4)"

text \<open>\<open>len < offset + sizeof(T)\<close>: the sum and the comparison are in \<open>size_t\<close>.\<close>

definition shorter_than :: "u32 \<Rightarrow> u32 \<Rightarrow> size_t \<Rightarrow> bool" where
  "shorter_than len offset sz \<longleftrightarrow> (ucast len :: size_t) < ucast offset + sz"

text \<open>Ethernet header and one VLAN tag: the ethertype and the offset of the network header.\<close>

definition decode_ethernet :: "u8 list \<Rightarrow> u32 \<Rightarrow> (u16 \<times> u32) decoding" where
  "decode_ethernet data len =
     (let offset = kEthHdrLen - 2 in
      and_then (ntohs_at data offset) (\<lambda>ethertype.
        let offset = offset + 2 in
        if ethertype = kEtherVLAN then
          (if len < offset + 4 then Nullopt
           else (let offset = offset + 2 in
             and_then (ntohs_at data offset) (\<lambda>ethertype. Decoded (ethertype, offset + 2))))
        else Decoded (ethertype, offset)))"

text \<open>The version and header-length halves of the first octet of an IPv4 header.\<close>

definition ip_v :: "u8 \<Rightarrow> u8" where "ip_v b = drop_bit 4 b"
definition ip_hl :: "u8 \<Rightarrow> u8" where "ip_hl b = b AND 0x0F"

definition decode_ipv4 ::
  "u8 list \<Rightarrow> u32 \<Rightarrow> u32 \<Rightarrow> parsed_packet \<Rightarrow> (parsed_packet \<times> u32) decoding" where
  "decode_ipv4 data len offset pkt =
     (if shorter_than len offset 20 then Nullopt
      else and_then (byte_at data offset) (\<lambda>vhl.
        if ip_v vhl \<noteq> 4 then Nullopt
        else
          (let ip_hdr_len = ucast (ip_hl vhl) * 4 in
           if ip_hdr_len < 20 \<or> len < offset + ip_hdr_len then Nullopt
           else and_then (bytes_at data (offset + 12) 4) (\<lambda>src.
             and_then (bytes_at data (offset + 16) 4) (\<lambda>dst.
             and_then (byte_at data (offset + 9)) (\<lambda>p.
             and_then (ntohs_at data (offset + 2)) (\<lambda>ip_len.
               Decoded
                 (pkt\<lparr>pp_src_ip := set_ipv4_mapped src, pp_dst_ip := set_ipv4_mapped dst,
                      pp_protocol := p, pp_wire_length := ucast ip_len, pp_is_ipv6 := False\<rparr>,
                  offset + ip_hdr_len))))))))"

definition decode_ipv6 ::
  "u8 list \<Rightarrow> u32 \<Rightarrow> u32 \<Rightarrow> parsed_packet \<Rightarrow> (parsed_packet \<times> u32) decoding" where
  "decode_ipv6 data len offset pkt =
     (if shorter_than len offset 40 then Nullopt
      else and_then (byte_at data offset) (\<lambda>vfc.
        if drop_bit 4 vfc \<noteq> 6 then Nullopt
        else and_then (bytes_at data (offset + 8) 16) (\<lambda>src.
          and_then (bytes_at data (offset + 24) 16) (\<lambda>dst.
          and_then (byte_at data (offset + 6)) (\<lambda>nxt.
          and_then (ntohs_at data (offset + 4)) (\<lambda>plen.
            Decoded
              (pkt\<lparr>pp_src_ip := src, pp_dst_ip := dst, pp_protocol := nxt,
                   pp_wire_length := ucast plen + 40, pp_is_ipv6 := True\<rparr>,
               offset + 40)))))))"

definition decode_network ::
  "u8 list \<Rightarrow> u32 \<Rightarrow> u16 \<Rightarrow> u32 \<Rightarrow> parsed_packet \<Rightarrow> (parsed_packet \<times> u32) decoding" where
  "decode_network data len ethertype offset pkt =
     (if ethertype = kEtherIPv4 then decode_ipv4 data len offset pkt
      else if ethertype = kEtherIPv6 then decode_ipv6 data len offset pkt
      else Nullopt)"

definition decode_transport ::
  "u8 list \<Rightarrow> u32 \<Rightarrow> u32 \<Rightarrow> parsed_packet \<Rightarrow> parsed_packet decoding" where
  "decode_transport data len offset pkt =
     (if pp_protocol pkt = IPPROTO_TCP then
        (if shorter_than len offset 20 then Nullopt
         else and_then (ntohs_at data offset) (\<lambda>sport.
           and_then (ntohs_at data (offset + 2)) (\<lambda>dport.
           and_then (byte_at data (offset + 13)) (\<lambda>flags.
             Decoded (pkt\<lparr>pp_src_port := sport, pp_dst_port := dport,
               pp_tcp_fin := (flags AND TH_FIN \<noteq> 0), pp_tcp_rst := (flags AND TH_RST \<noteq> 0)\<rparr>)))))
      else if pp_protocol pkt = IPPROTO_UDP then
        (if shorter_than len offset 8 then Nullopt
         else and_then (ntohs_at data offset) (\<lambda>sport.
           and_then (ntohs_at data (offset + 2)) (\<lambda>dport.
             Decoded (pkt\<lparr>pp_src_port := sport, pp_dst_port := dport\<rparr>))))
      else if pp_protocol pkt = IPPROTO_ICMP then
        (if shorter_than len offset 8 then Nullopt
         else and_then (byte_at data offset) (\<lambda>type.
           and_then (byte_at data (offset + 1)) (\<lambda>code.
             Decoded (pkt\<lparr>pp_src_port := push_bit 8 (ucast type) OR ucast code\<rparr>))))
      else if pp_protocol pkt = IPPROTO_ICMPV6 then
        (if len < offset + 4 then Nullopt
         else and_then (byte_at data offset) (\<lambda>type.
           and_then (byte_at data (offset + 1)) (\<lambda>code.
             Decoded (pkt\<lparr>pp_src_port := push_bit 8 (ucast type) OR ucast code\<rparr>))))
      else Nullopt)"

text \<open>The whole function.  \<open>data\<close> is \<open>None\<close> for a null pointer.\<close>

definition decode :: "u8 list option \<Rightarrow> u32 \<Rightarrow> timeval \<Rightarrow> parsed_packet decoding" where
  "decode data_ptr len ts =
     (case data_ptr of
        None \<Rightarrow> Nullopt
      | Some data \<Rightarrow>
          if len < kEthHdrLen then Nullopt
          else and_then (decode_ethernet data len) (\<lambda>(ethertype, offset).
            let pkt = default_packet\<lparr>pp_timestamp_us := tv_sec ts * 1000000 + tv_usec ts\<rparr> in
            and_then (decode_network data len ethertype offset pkt) (\<lambda>(pkt, offset).
              decode_transport data len offset pkt)))"

subsection \<open>Reasoning about decoding steps\<close>

lemma and_then_Decoded_iff: "and_then m f = Decoded y \<longleftrightarrow> (\<exists>x. m = Decoded x \<and> f x = Decoded y)"
  by (cases m) auto

lemma and_then_Bad_iff: "and_then m f = Bad_Read \<longleftrightarrow> m = Bad_Read \<or> (\<exists>x. m = Decoded x \<and> f x = Bad_Read)"
  by (cases m) auto

lemma byte_at_bad_iff: "byte_at data i = Bad_Read \<longleftrightarrow> length data \<le> unat i"
  by (simp add: byte_at_def)

lemma bytes_at_bad_iff: "bytes_at data i n = Bad_Read \<longleftrightarrow> length data < unat i + n"
  by (auto simp: bytes_at_def)

lemma ntohs_at_bad_iff:
  "ntohs_at data i = Bad_Read \<longleftrightarrow> length data \<le> unat i \<or> length data \<le> unat (i + 1)"
  by (auto simp: ntohs_at_def and_then_Bad_iff byte_at_def)

lemmas read_bad_iff = and_then_Bad_iff byte_at_bad_iff bytes_at_bad_iff ntohs_at_bad_iff

text \<open>The two length tests on naturals.\<close>

lemma unat_add_small: "unat a + unat b < 2 ^ LENGTH('a) \<Longrightarrow> unat (a + b) = unat a + unat b"
  for a b :: "'a::len word"
  by (simp add: unat_word_ariths)

lemma shorter_than_iff:
  assumes "unat sz \<le> 1000"
  shows "shorter_than len offset sz \<longleftrightarrow> unat len < unat offset + unat sz"
proof -
  have u: "unat (ucast (x :: u32) :: size_t) = unat x" for x
    using unat_u32_less [of x] by (simp add: unsigned_ucast_eq take_bit_nat_eq_self)
  have "unat (ucast offset + sz :: size_t) = unat offset + unat sz"
    using assms unat_u32_less [of offset] by (subst unat_add_small) (simp_all add: u)
  then show ?thesis by (simp add: shorter_than_def word_less_nat_alt u)
qed

lemma unat_offset_add:
  "unat offset \<le> 200 \<Longrightarrow> unat c \<le> 200 \<Longrightarrow> unat (offset + c) = unat offset + unat c" for offset c :: u32
  by (simp add: unat_add_small)

lemma offset_less_iff:
  "unat offset \<le> 200 \<Longrightarrow> unat c \<le> 200 \<Longrightarrow> len < offset + c \<longleftrightarrow> unat len < unat offset + unat c"
  for offset c len :: u32
  by (simp add: word_less_nat_alt unat_offset_add)

lemma unat_ip_hdr_len: "unat (ucast (ip_hl b) * 4 :: u32) = unat (ip_hl b) * 4" "unat (ip_hl b) \<le> 15"
proof -
  have "unat (ip_hl b) \<le> unat (0x0F :: u8)"
    unfolding ip_hl_def by (metis word_and_le1 word_le_nat_alt)
  then show le: "unat (ip_hl b) \<le> 15" by simp
  have "unat (ucast (ip_hl b) :: u32) = unat (ip_hl b)"
    using le by (simp add: unsigned_ucast_eq take_bit_nat_eq_self)
  with le show "unat (ucast (ip_hl b) * 4 :: u32) = unat (ip_hl b) * 4"
    by (simp add: unat_word_ariths)
qed

subsection \<open>No read outside the captured bytes\<close>

lemma decode_ethernet_offset:
  "decode_ethernet data len = Decoded (et, offset) \<Longrightarrow> unat offset \<le> 18 \<and> 14 \<le> unat offset"
  by (auto simp: decode_ethernet_def kEthHdrLen_def Let_def and_then_Decoded_iff split: if_splits)

lemma decode_ethernet_safe:
  assumes "unat len \<le> length data" and "kEthHdrLen \<le> len"
  shows "decode_ethernet data len \<noteq> Bad_Read"
  using assms
  by (auto simp: decode_ethernet_def kEthHdrLen_def Let_def read_bad_iff word_le_nat_alt
      word_less_nat_alt split: if_splits)

lemma decode_ipv4_safe:
  assumes "unat len \<le> length data" and "unat offset \<le> 18"
  shows "decode_ipv4 data len offset pkt \<noteq> Bad_Read"
  using assms
  by (auto simp: decode_ipv4_def Let_def read_bad_iff shorter_than_iff unat_offset_add
      offset_less_iff split: if_splits)

lemma decode_ipv6_safe:
  assumes "unat len \<le> length data" and "unat offset \<le> 18"
  shows "decode_ipv6 data len offset pkt \<noteq> Bad_Read"
  using assms
  by (auto simp: decode_ipv6_def read_bad_iff shorter_than_iff unat_offset_add split: if_splits)

lemma unat_past_ipv4:
  "unat offset \<le> 18 \<Longrightarrow>
    unat (offset + ucast (ip_hl b) * 4 :: u32) = unat offset + unat (ip_hl b) * 4"
  using unat_ip_hdr_len [of b] by (simp add: unat_offset_add)

lemma decode_ipv4_offset:
  assumes "decode_ipv4 data len offset pkt = Decoded (pkt', offset')" and "unat offset \<le> 18"
  shows "unat offset' \<le> 78"
proof -
  have "unat offset + unat (ip_hl b) * 4 \<le> 78" for b
    using unat_ip_hdr_len(2) [of b] assms(2) by simp
  with assms show ?thesis
    by (auto simp: decode_ipv4_def Let_def and_then_Decoded_iff unat_past_ipv4 split: if_splits)
qed

lemma decode_ipv6_offset:
  assumes "decode_ipv6 data len offset pkt = Decoded (pkt', offset')" and "unat offset \<le> 18"
  shows "unat offset' \<le> 58"
  using assms
  by (auto simp: decode_ipv6_def and_then_Decoded_iff unat_offset_add split: if_splits)

lemma decode_transport_safe:
  assumes "unat len \<le> length data" and "unat offset \<le> 78"
  shows "decode_transport data len offset pkt \<noteq> Bad_Read"
  using assms
  by (auto simp: decode_transport_def read_bad_iff shorter_than_iff unat_offset_add
      offset_less_iff split: if_splits)

lemma decode_network_safe:
  "unat len \<le> length data \<Longrightarrow> unat offset \<le> 18 \<Longrightarrow>
    decode_network data len et offset pkt \<noteq> Bad_Read"
  by (simp add: decode_network_def decode_ipv4_safe decode_ipv6_safe)

lemma decode_network_offset:
  assumes "decode_network data len et offset pkt = Decoded (pkt', offset')" and "unat offset \<le> 18"
  shows "unat offset' \<le> 78"
  using assms decode_ipv4_offset decode_ipv6_offset
  by (fastforce simp: decode_network_def split: if_splits)

text \<open>The stages of a successful decode.\<close>

lemma decode_DecodedE:
  assumes "decode (Some data) len ts = Decoded pkt"
  obtains et offset pkt1 offset1 where "kEthHdrLen \<le> len"
    "decode_ethernet data len = Decoded (et, offset)"
    "decode_network data len et offset
       (default_packet\<lparr>pp_timestamp_us := tv_sec ts * 1000000 + tv_usec ts\<rparr>) =
     Decoded (pkt1, offset1)"
    "decode_transport data len offset1 pkt1 = Decoded pkt"
  using assms
  by (auto simp: decode_def Let_def and_then_Decoded_iff not_less split: if_splits prod.splits)

lemma decode_stages:
  assumes "kEthHdrLen \<le> len" and "decode_ethernet data len = Decoded (et, offset)"
    and "decode_network data len et offset
      (default_packet\<lparr>pp_timestamp_us := tv_sec ts * 1000000 + tv_usec ts\<rparr>) = Decoded (pkt1, offset1)"
  shows "decode (Some data) len ts = decode_transport data len offset1 pkt1"
  using assms by (simp add: decode_def Let_def not_less [symmetric])

lemma decode_safe:
  assumes "unat len \<le> length data"
  shows "decode (Some data) len ts \<noteq> Bad_Read"
proof
  let ?pkt = "default_packet\<lparr>pp_timestamp_us := tv_sec ts * 1000000 + tv_usec ts\<rparr>"
  assume bad: "decode (Some data) len ts = Bad_Read"
  then have len: "kEthHdrLen \<le> len" by (auto simp: decode_def not_less split: if_splits)
  from bad len decode_ethernet_safe [OF assms len] obtain et offset where
    eth: "decode_ethernet data len = Decoded (et, offset)" and
    rest: "and_then (decode_network data len et offset ?pkt)
      (\<lambda>(pkt, offset). decode_transport data len offset pkt) = Bad_Read"
    by (cases "decode_ethernet data len") (auto simp: decode_def Let_def not_less [symmetric])
  have off: "unat offset \<le> 18" using decode_ethernet_offset [OF eth] by simp
  from rest decode_network_safe [OF assms off] obtain pkt offset' where
    net: "decode_network data len et offset ?pkt = Decoded (pkt, offset')"
    and "decode_transport data len offset' pkt = Bad_Read"
    by (cases "decode_network data len et offset ?pkt") auto
  with decode_transport_safe [OF assms decode_network_offset [OF net off]] show False by blast
qed

subsection \<open>Only the captured bytes matter\<close>

text \<open>\<open>safer m m'\<close>: unless \<open>m\<close> is a bad read the two results agree.\<close>

definition safer :: "'a decoding \<Rightarrow> 'a decoding \<Rightarrow> bool" where
  "safer m m' \<longleftrightarrow> m = Bad_Read \<or> m' = m"

named_theorems safer_intros \<open>the reads and combinators are monotone in the buffer\<close>

lemma safer_refl [safer_intros]: "safer m m"
  by (simp add: safer_def)

lemma safer_and_then [safer_intros]:
  "safer m m' \<Longrightarrow> (\<And>x. safer (f x) (f' x)) \<Longrightarrow> safer (and_then m f) (and_then m' f')"
  by (cases m) (auto simp: safer_def)

lemma safer_if [safer_intros]:
  "(b \<Longrightarrow> safer m m') \<Longrightarrow> (\<not> b \<Longrightarrow> safer k k') \<Longrightarrow>
    safer (if b then m else k) (if b then m' else k')"
  by simp

lemma safer_split [safer_intros]:
  "(\<And>x y. safer (f x y) (f' x y)) \<Longrightarrow> safer (case p of (x, y) \<Rightarrow> f x y) (case p of (x, y) \<Rightarrow> f' x y)"
  by (cases p) simp

lemma safer_byte_at [safer_intros]: "safer (byte_at (take k data) i) (byte_at data i)"
  by (simp add: safer_def byte_at_def)

lemma safer_bytes_at [safer_intros]: "safer (bytes_at (take k data) i n) (bytes_at data i n)"
  by (auto simp: safer_def bytes_at_def drop_take min_def)

lemma safer_ntohs_at [safer_intros]: "safer (ntohs_at (take k data) i) (ntohs_at data i)"
  unfolding ntohs_at_def by (intro safer_intros)

lemma safer_decode_ethernet [safer_intros]:
  "safer (decode_ethernet (take k data) len) (decode_ethernet data len)"
  unfolding decode_ethernet_def Let_def by (intro safer_intros)

lemma safer_decode_ipv4 [safer_intros]:
  "safer (decode_ipv4 (take k data) len offset pkt) (decode_ipv4 data len offset pkt)"
  unfolding decode_ipv4_def Let_def by (intro safer_intros)

lemma safer_decode_ipv6 [safer_intros]:
  "safer (decode_ipv6 (take k data) len offset pkt) (decode_ipv6 data len offset pkt)"
  unfolding decode_ipv6_def by (intro safer_intros)

lemma safer_decode_transport [safer_intros]:
  "safer (decode_transport (take k data) len offset pkt) (decode_transport data len offset pkt)"
  unfolding decode_transport_def by (intro safer_intros)

lemma safer_decode_network [safer_intros]:
  "safer (decode_network (take k data) len et offset pkt) (decode_network data len et offset pkt)"
  unfolding decode_network_def by (intro safer_intros)

lemma safer_decode: "safer (decode (Some (take k data)) len ts) (decode (Some data) len ts)"
  unfolding decode_def option.case Let_def by (intro safer_intros)

subsection \<open>Reading frames laid out field by field\<close>

lemma byte_at_split:
  "data = pre @ b # post \<Longrightarrow> unat i = length pre \<Longrightarrow> byte_at data i = Decoded b"
  by (simp add: byte_at_def)

lemma bytes_at_split:
  "data = pre @ xs @ post \<Longrightarrow> unat i = length pre \<Longrightarrow> length xs = n \<Longrightarrow>
    bytes_at data i n = Decoded xs"
  by (simp add: bytes_at_def)

lemma ntohs_at_split:
  assumes "data = pre @ h # l # post" and "unat i = length pre" and "unat i \<le> 200"
  shows "ntohs_at data i = Decoded (be16 h l)"
proof -
  have "unat (i + 1) = length (pre @ [h])"
    using assms(2,3) by (simp add: unat_offset_add)
  with assms(1,2) show ?thesis
    by (simp add: ntohs_at_def byte_at_split [where pre = pre]
        byte_at_split [where pre = "pre @ [h]" and b = l])
qed

text \<open>
  The frames the decoder is meant for: Ethernet addresses, an optional VLAN tag (its two
  bytes of control information), the ethertype, and the packet.
\<close>

definition eth_header :: "u8 list \<Rightarrow> (u8 \<times> u8) option \<Rightarrow> u8 \<times> u8 \<Rightarrow> u8 list" where
  "eth_header macs vlan et =
     macs @ (case vlan of None \<Rightarrow> [] | Some (a, b) \<Rightarrow> [0x81, 0x00, a, b]) @ [fst et, snd et]"

definition ipv4_header ::
  "nat \<Rightarrow> u8 \<Rightarrow> u8 \<times> u8 \<Rightarrow> u8 list \<Rightarrow> u8 \<Rightarrow> u8 list \<Rightarrow> u8 list \<Rightarrow> u8 list \<Rightarrow> u8 list \<Rightarrow> u8 list" where
  "ipv4_header ihl tos len mid proto csum src dst options =
     [0x40 OR word_of_nat ihl, tos, fst len, snd len] @ mid @ [proto] @ csum @ src @ dst @ options"

definition ipv6_header ::
  "u8 \<Rightarrow> u8 list \<Rightarrow> u8 \<times> u8 \<Rightarrow> u8 \<Rightarrow> u8 \<Rightarrow> u8 list \<Rightarrow> u8 list \<Rightarrow> u8 list" where
  "ipv6_header low flow len nxt hops src dst =
     [0x60 OR (low AND 0x0F)] @ flow @ [fst len, snd len, nxt, hops] @ src @ dst"

definition tcp_header :: "u8 \<times> u8 \<Rightarrow> u8 \<times> u8 \<Rightarrow> u8 list \<Rightarrow> u8 \<Rightarrow> u8 list \<Rightarrow> u8 list" where
  "tcp_header sport dport mid flags tail =
     [fst sport, snd sport, fst dport, snd dport] @ mid @ [flags] @ tail"

lemma decode_ethernet_frame:
  assumes "length macs = 12" and "be16 (fst et) (snd et) \<noteq> kEtherVLAN"
    and "unat len = length (eth_header macs vlan et @ payload)"
  shows "decode_ethernet (eth_header macs vlan et @ payload) len =
    Decoded (be16 (fst et) (snd et), if vlan = None then 14 else 18)"
proof (cases vlan)
  case None
  have "ntohs_at (macs @ fst et # snd et # payload) 12 = Decoded (be16 (fst et) (snd et))"
    using assms(1) by (intro ntohs_at_split) simp_all
  with None assms show ?thesis
    by (simp add: decode_ethernet_def eth_header_def kEthHdrLen_def Let_def)
next
  case (Some tci)
  obtain a b where tci: "tci = (a, b)" by fastforce
  let ?data = "macs @ 0x81 # 0x00 # a # b # fst et # snd et # payload"
  have "ntohs_at ?data 12 = Decoded (be16 0x81 0x00)"
    using assms(1) by (intro ntohs_at_split) simp_all
  then have "ntohs_at ?data 12 = Decoded kEtherVLAN"
    by (simp add: be16_def kEtherVLAN_def)
  moreover have "ntohs_at ?data 16 = Decoded (be16 (fst et) (snd et))"
    using assms(1) by (intro ntohs_at_split [where pre = "macs @ [0x81, 0x00, a, b]"]) simp_all
  moreover have "\<not> len < 18"
    using assms Some tci by (simp add: eth_header_def word_less_nat_alt)
  ultimately show ?thesis
    using assms Some tci by (simp add: decode_ethernet_def eth_header_def kEthHdrLen_def Let_def)
qed

lemma length_eth_header:
  "length macs = 12 \<Longrightarrow> length (eth_header macs vlan et) = (if vlan = None then 14 else 18)"
  by (auto simp: eth_header_def split: option.splits)

lemma ip_first_octet:
  assumes "ihl < 16"
  shows "ip_v (0x40 OR word_of_nat ihl) = 4" and "unat (ip_hl (0x40 OR word_of_nat ihl)) = ihl"
proof -
  from assms have "ihl \<in> set [0..<16]" by simp
  then show "ip_v (0x40 OR word_of_nat ihl) = 4" "unat (ip_hl (0x40 OR word_of_nat ihl)) = ihl"
    by (auto simp: upt_rec ip_v_def ip_hl_def)
qed

lemma ip6_first_octet: "drop_bit 4 (0x60 OR (low AND 0x0F) :: u8) = 6"
proof -
  have "drop_bit 4 (low AND 0x0F :: u8) = drop_bit 4 low AND drop_bit 4 0x0F"
    by (rule drop_bit_and)
  then show ?thesis by (simp add: drop_bit_or)
qed

lemma decode_ipv4_frame:
  assumes data: "data = pre @ ipv4_header ihl tos tlen mid proto csum src dst options @ payload"
    and len: "unat len = length data"
    and offset: "unat offset = length pre" "length pre \<le> 18"
    and ihl: "5 \<le> ihl" "ihl < 16" "length options = 4 * ihl - 20"
    and fields: "length mid = 5" "length csum = 2" "length src = 4" "length dst = 4"
  shows "decode_ipv4 data len offset pkt = Decoded
    (pkt\<lparr>pp_src_ip := set_ipv4_mapped src, pp_dst_ip := set_ipv4_mapped dst,
         pp_protocol := proto, pp_wire_length := ucast (be16 (fst tlen) (snd tlen)),
         pp_is_ipv6 := False\<rparr>, offset + word_of_nat (4 * ihl))"
proof -
  let ?v = "0x40 OR word_of_nat ihl :: u8"
  have d: "data = pre @ ?v # tos # fst tlen # snd tlen # mid @ proto # csum @ src @ dst @ options @ payload"
    by (simp add: data ipv4_header_def)
  have o: "unat (offset + c) = length pre + unat c" if "unat c \<le> 40" for c
    using that offset by (simp add: unat_offset_add)
  have vhl: "byte_at data offset = Decoded ?v"
    by (intro byte_at_split [OF d]) (simp add: offset)
  have tlen: "ntohs_at data (offset + 2) = Decoded (be16 (fst tlen) (snd tlen))"
    using offset(2) by (intro ntohs_at_split [where pre = "pre @ [?v, tos]"]) (simp_all add: d o)
  have proto: "byte_at data (offset + 9) = Decoded proto"
    by (intro byte_at_split [where pre = "pre @ [?v, tos, fst tlen, snd tlen] @ mid"])
      (simp_all add: d o fields)
  have src: "bytes_at data (offset + 12) 4 = Decoded src"
    by (intro bytes_at_split
        [where pre = "pre @ [?v, tos, fst tlen, snd tlen] @ mid @ [proto] @ csum"])
      (simp_all add: d o fields)
  have dst: "bytes_at data (offset + 16) 4 = Decoded dst"
    by (intro bytes_at_split
        [where pre = "pre @ [?v, tos, fst tlen, snd tlen] @ mid @ [proto] @ csum @ src"])
      (simp_all add: d o fields)
  have v: "ip_v ?v = 4" "unat (ip_hl ?v) = ihl"
    using ihl by (simp_all add: ip_first_octet)
  then have hl: "unat (ucast (ip_hl ?v) * 4 :: u32) = 4 * ihl"
    by (simp add: unat_ip_hdr_len)
  then have hlw: "(ucast (ip_hl ?v) * 4 :: u32) = word_of_nat (4 * ihl)"
    by (simp only: hl [symmetric] of_nat_unat unsigned_ucast_eq ucast_id)
  have total: "length data = length pre + 4 * ihl + length payload"
    using ihl by (simp add: d fields)
  have "\<not> len < offset + ucast (ip_hl ?v) * 4"
    using offset ihl by (simp add: offset_less_iff hl len total)
  moreover have "\<not> (ucast (ip_hl ?v) * 4 :: u32) < 20"
    using ihl by (simp add: word_less_nat_alt hl)
  moreover have "\<not> shorter_than len offset 20"
    using ihl by (simp add: shorter_than_iff len offset total)
  ultimately show ?thesis
    by (simp add: decode_ipv4_def vhl tlen proto src dst Let_def v hlw)
qed

lemma decode_ipv6_frame:
  assumes data: "data = pre @ ipv6_header low flow plen nxt hops src dst @ payload"
    and len: "unat len = length data"
    and offset: "unat offset = length pre" "length pre \<le> 18"
    and fields: "length flow = 3" "length src = 16" "length dst = 16"
  shows "decode_ipv6 data len offset pkt = Decoded
    (pkt\<lparr>pp_src_ip := src, pp_dst_ip := dst, pp_protocol := nxt,
         pp_wire_length := ucast (be16 (fst plen) (snd plen)) + 40, pp_is_ipv6 := True\<rparr>,
     offset + 40)"
proof -
  let ?v = "0x60 OR (low AND 0x0F) :: u8"
  have d: "data = pre @ ?v # flow @ fst plen # snd plen # nxt # hops # src @ dst @ payload"
    by (simp add: data ipv6_header_def)
  have o: "unat (offset + c) = length pre + unat c" if "unat c \<le> 40" for c
    using that offset by (simp add: unat_offset_add)
  have vfc: "byte_at data offset = Decoded ?v"
    by (intro byte_at_split [OF d]) (simp add: offset)
  have plen: "ntohs_at data (offset + 4) = Decoded (be16 (fst plen) (snd plen))"
    using offset(2)
    by (intro ntohs_at_split [where pre = "pre @ [?v] @ flow"]) (simp_all add: d o fields)
  have nxt: "byte_at data (offset + 6) = Decoded nxt"
    by (intro byte_at_split [where pre = "pre @ [?v] @ flow @ [fst plen, snd plen]"])
      (simp_all add: d o fields)
  have src: "bytes_at data (offset + 8) 16 = Decoded src"
    by (intro bytes_at_split [where pre = "pre @ [?v] @ flow @ [fst plen, snd plen, nxt, hops]"])
      (simp_all add: d o fields)
  have dst: "bytes_at data (offset + 24) 16 = Decoded dst"
    by (intro bytes_at_split
        [where pre = "pre @ [?v] @ flow @ [fst plen, snd plen, nxt, hops] @ src"])
      (simp_all add: d o fields)
  have "\<not> shorter_than len offset 40"
    by (simp add: shorter_than_iff len offset d fields)
  then show ?thesis
    by (simp add: decode_ipv6_def vfc plen nxt src dst ip6_first_octet)
qed

text \<open>The transport headers: the ports, and the flag octet of TCP.\<close>

lemma decode_transport_tcp:
  assumes data: "data = pre @ tcp_header sport dport mid flags tail @ payload"
    and len: "unat len = length data"
    and offset: "unat offset = length pre" "length pre \<le> 78"
    and fields: "length mid = 9" "length tail = 6" and tcp: "pp_protocol pkt = IPPROTO_TCP"
  shows "decode_transport data len offset pkt = Decoded
    (pkt\<lparr>pp_src_port := be16 (fst sport) (snd sport), pp_dst_port := be16 (fst dport) (snd dport),
         pp_tcp_fin := (flags AND TH_FIN \<noteq> 0), pp_tcp_rst := (flags AND TH_RST \<noteq> 0)\<rparr>)"
proof -
  have d: "data = pre @ fst sport # snd sport # fst dport # snd dport # mid @ flags # tail @ payload"
    by (simp add: data tcp_header_def)
  have o: "unat (offset + c) = length pre + unat c" if "unat c \<le> 40" for c
    using that offset by (simp add: unat_offset_add)
  have "ntohs_at data offset = Decoded (be16 (fst sport) (snd sport))"
    using offset by (intro ntohs_at_split [where pre = pre]) (simp_all add: d)
  moreover have "ntohs_at data (offset + 2) = Decoded (be16 (fst dport) (snd dport))"
    using offset(2)
    by (intro ntohs_at_split [where pre = "pre @ [fst sport, snd sport]"]) (simp_all add: d o)
  moreover have "byte_at data (offset + 13) = Decoded flags"
    by (intro byte_at_split
        [where pre = "pre @ [fst sport, snd sport, fst dport, snd dport] @ mid"])
      (simp_all add: d o fields)
  moreover have "\<not> shorter_than len offset 20"
    by (simp add: shorter_than_iff len offset d fields)
  ultimately show ?thesis by (simp add: decode_transport_def tcp)
qed

lemma decode_transport_udp:
  assumes data: "data = pre @ fst sport # snd sport # fst dport # snd dport # tail @ payload"
    and len: "unat len = length data"
    and offset: "unat offset = length pre" "length pre \<le> 78"
    and fields: "length tail = 4" and udp: "pp_protocol pkt = IPPROTO_UDP"
  shows "decode_transport data len offset pkt = Decoded
    (pkt\<lparr>pp_src_port := be16 (fst sport) (snd sport), pp_dst_port := be16 (fst dport) (snd dport)\<rparr>)"
proof -
  have o: "unat (offset + c) = length pre + unat c" if "unat c \<le> 40" for c
    using that offset by (simp add: unat_offset_add)
  have "ntohs_at data offset = Decoded (be16 (fst sport) (snd sport))"
    using offset by (intro ntohs_at_split [where pre = pre]) (simp_all add: data)
  moreover have "ntohs_at data (offset + 2) = Decoded (be16 (fst dport) (snd dport))"
    using offset(2)
    by (intro ntohs_at_split [where pre = "pre @ [fst sport, snd sport]"]) (simp_all add: data o)
  moreover have "\<not> shorter_than len offset 8"
    by (simp add: shorter_than_iff len offset data fields)
  moreover have "IPPROTO_UDP \<noteq> IPPROTO_TCP" by (simp add: IPPROTO_UDP_def IPPROTO_TCP_def)
  ultimately show ?thesis by (simp add: decode_transport_def udp)
qed

lemma decode_transport_icmpv6:
  assumes data: "data = pre @ type # code # tail @ payload"
    and len: "unat len = length data"
    and offset: "unat offset = length pre" "length pre \<le> 78"
    and fields: "2 \<le> length tail" and icmp: "pp_protocol pkt = IPPROTO_ICMPV6"
  shows "decode_transport data len offset pkt = Decoded (pkt\<lparr>pp_src_port := be16 type code\<rparr>)"
proof -
  have o: "unat (offset + c) = length pre + unat c" if "unat c \<le> 40" for c
    using that offset by (simp add: unat_offset_add)
  have "byte_at data offset = Decoded type"
    by (intro byte_at_split [where pre = pre]) (simp_all add: data offset)
  moreover have "byte_at data (offset + 1) = Decoded code"
    by (intro byte_at_split [where pre = "pre @ [type]"]) (simp_all add: data o)
  moreover have "\<not> len < offset + 4"
    using offset fields by (simp add: offset_less_iff len data)
  moreover have "IPPROTO_ICMPV6 \<noteq> IPPROTO_UDP" "IPPROTO_ICMPV6 \<noteq> IPPROTO_TCP" "IPPROTO_ICMPV6 \<noteq> IPPROTO_ICMP"
    by (simp_all add: IPPROTO_UDP_def IPPROTO_TCP_def IPPROTO_ICMPV6_def IPPROTO_ICMP_def)
  ultimately show ?thesis by (simp add: decode_transport_def icmp be16_def)
qed

subsection \<open>What a decoded packet looks like\<close>

text \<open>
  The facts the flow table and the serializer rely on: both addresses have 16 bytes, an
  IPv4 address is stored IPv4-mapped, the protocol is one of the four that are handled, the
  TCP flags and the destination port of the other protocols have their defaults, and the
  length is that of a 16-bit field, plus 40 for IPv6.
\<close>

definition wf_packet :: "parsed_packet \<Rightarrow> bool" where
  "wf_packet p \<longleftrightarrow>
     length (pp_src_ip p) = 16 \<and> length (pp_dst_ip p) = 16 \<and>
     (\<not> pp_is_ipv6 p \<longrightarrow> take 12 (pp_src_ip p) = replicate 10 0 @ [0xFF, 0xFF] \<and>
                       take 12 (pp_dst_ip p) = replicate 10 0 @ [0xFF, 0xFF]) \<and>
     pp_protocol p \<in> {IPPROTO_ICMP, IPPROTO_TCP, IPPROTO_UDP, IPPROTO_ICMPV6} \<and>
     (pp_tcp_fin p \<or> pp_tcp_rst p \<longrightarrow> pp_protocol p = IPPROTO_TCP) \<and>
     (pp_protocol p = IPPROTO_ICMP \<or> pp_protocol p = IPPROTO_ICMPV6 \<longrightarrow> pp_dst_port p = 0) \<and>
     unat (pp_wire_length p) \<le> 65575"

definition wf_network :: "parsed_packet \<Rightarrow> bool" where
  "wf_network p \<longleftrightarrow>
     length (pp_src_ip p) = 16 \<and> length (pp_dst_ip p) = 16 \<and>
     (\<not> pp_is_ipv6 p \<longrightarrow> take 12 (pp_src_ip p) = replicate 10 0 @ [0xFF, 0xFF] \<and>
                       take 12 (pp_dst_ip p) = replicate 10 0 @ [0xFF, 0xFF]) \<and>
     \<not> pp_tcp_fin p \<and> \<not> pp_tcp_rst p \<and> pp_dst_port p = 0 \<and> unat (pp_wire_length p) \<le> 65575"

lemma mapped_prefix: "take 12 ((replicate 16 0 :: u8 list)[10 := 0xFF, 11 := 0xFF]) = replicate 10 0 @ [0xFF, 0xFF]"
  by (simp add: eval_nat_numeral)

lemma set_ipv4_mapped_eq: "set_ipv4_mapped a = replicate 10 0 @ [0xFF, 0xFF] @ a"
  by (simp add: set_ipv4_mapped_def Let_def mapped_prefix)

lemma length_set_ipv4_mapped: "length a = 4 \<Longrightarrow> length (set_ipv4_mapped a) = 16"
  by (simp add: set_ipv4_mapped_eq)

lemma take_set_ipv4_mapped: "take 12 (set_ipv4_mapped a) = replicate 10 0 @ [0xFF, 0xFF]"
  by (simp add: set_ipv4_mapped_eq)

lemma length_bytes_at: "bytes_at data i n = Decoded xs \<Longrightarrow> length xs = n"
  by (auto simp: bytes_at_def split: if_splits)

lemma unat_ucast_u16: "unat (ucast (x :: u16) :: u32) = unat x"
proof -
  have "unat x < 2 ^ 32" by (rule less_trans [OF unat_u16_less]) simp
  then show ?thesis by (simp add: unsigned_ucast_eq take_bit_nat_eq_self)
qed

lemma wire_length_bounds:
  "unat (ucast (x :: u16) :: u32) \<le> 65575" "unat (ucast (x :: u16) + 40 :: u32) \<le> 65575"
proof -
  have x: "unat x < 65536" using unat_less_pow [of x] by simp
  then show "unat (ucast (x :: u16) :: u32) \<le> 65575" unfolding unat_ucast_u16 by linarith
  have "unat (ucast x + 40 :: u32) = unat x + 40"
    by (subst unat_add_small) (simp_all add: unat_ucast_u16 less_trans [OF unat_u16_less])
  with x show "unat (ucast (x :: u16) + 40 :: u32) \<le> 65575" by linarith
qed

lemma decode_ipv4_wf:
  assumes "decode_ipv4 data len offset pkt = Decoded (pkt', offset')"
    and "\<not> pp_tcp_fin pkt" and "\<not> pp_tcp_rst pkt" and "pp_dst_port pkt = 0"
  shows "wf_network pkt'"
  using assms
  by (auto simp: decode_ipv4_def Let_def and_then_Decoded_iff wf_network_def wire_length_bounds
      length_set_ipv4_mapped take_set_ipv4_mapped dest: length_bytes_at split: if_splits)

lemma decode_ipv6_wf:
  assumes "decode_ipv6 data len offset pkt = Decoded (pkt', offset')"
    and "\<not> pp_tcp_fin pkt" and "\<not> pp_tcp_rst pkt" and "pp_dst_port pkt = 0"
  shows "wf_network pkt'"
  using assms
  by (auto simp: decode_ipv6_def and_then_Decoded_iff wf_network_def wire_length_bounds
      dest: length_bytes_at split: if_splits)

lemma decode_network_wf:
  assumes "decode_network data len et offset pkt = Decoded (pkt', offset')"
    and "\<not> pp_tcp_fin pkt" and "\<not> pp_tcp_rst pkt" and "pp_dst_port pkt = 0"
  shows "wf_network pkt'"
  using assms decode_ipv4_wf decode_ipv6_wf by (auto simp: decode_network_def split: if_splits)

lemma decode_transport_wf:
  assumes "decode_transport data len offset pkt = Decoded pkt'" and "wf_network pkt"
  shows "wf_packet pkt'"
  using assms
  by (auto simp: decode_transport_def and_then_Decoded_iff wf_network_def wf_packet_def
      IPPROTO_UDP_def IPPROTO_TCP_def IPPROTO_ICMPV6_def IPPROTO_ICMP_def split: if_splits)

lemma decode_wf:
  assumes "decode data len ts = Decoded pkt"
  shows "wf_packet pkt"
proof (cases data)
  case None
  with assms show ?thesis by (simp add: decode_def)
next
  case (Some bytes)
  with assms have "decode (Some bytes) len ts = Decoded pkt" by simp
  then show ?thesis
  proof (rule decode_DecodedE)
    fix et offset pkt1 offset1
    assume net: "decode_network bytes len et offset
        (default_packet\<lparr>pp_timestamp_us := tv_sec ts * 1000000 + tv_usec ts\<rparr>) = Decoded (pkt1, offset1)"
      and tr: "decode_transport bytes len offset1 pkt1 = Decoded pkt"
    from net have "wf_network pkt1" by (rule decode_network_wf) (simp_all add: default_packet_def)
    with tr show "wf_packet pkt" by (rule decode_transport_wf)
  qed
qed

subsection \<open>Properties\<close>

text \<open>
  C8.  Whatever bytes were captured and whatever length libpcap reports, as long as the
  buffer holds that many bytes the decoder reads nothing outside it, and what it returns
  depends on the first \<open>len\<close> bytes only.
\<close>

theorem decode_memory_safe:
  assumes "unat len \<le> length data"
  shows "decode (Some data) len ts \<noteq> Bad_Read \<and>
    decode (Some data) len ts = decode (Some (take (unat len) data)) len ts"
proof
  show "decode (Some data) len ts \<noteq> Bad_Read" using assms by (rule decode_safe)
  have "decode (Some (take (unat len) data)) len ts \<noteq> Bad_Read"
    using assms by (intro decode_safe) simp
  then show "decode (Some data) len ts = decode (Some (take (unat len) data)) len ts"
    using safer_decode [of "unat len" data len ts] by (simp add: safer_def)
qed

theorem decode_memory_safe_witness:
  "decode (Some (replicate 20 0x45)) 18 \<lparr>tv_sec = 1, tv_usec = 2\<rparr> \<noteq> Bad_Read"
  by (rule conjunct1 [OF decode_memory_safe]) simp

text \<open>
  C21.  Every packet the decoder returns is well formed (\<open>wf_packet\<close>): addresses of 16 bytes,
  IPv4-mapped for IPv4, one of the four handled protocols, FIN and RST only for TCP, no
  destination port for ICMP, and a length below 65,576.
\<close>

theorem decode_well_formed:
  assumes "decode data len ts = Decoded pkt"
  shows "wf_packet pkt"
  using assms by (rule decode_wf)

text \<open>A captured UDP datagram, read back by evaluation.\<close>

definition sample_udp :: "u8 list" where
  "sample_udp =
     eth_header [1, 2, 3, 4, 5, 6, 7, 8, 9, 10, 11, 12] None (0x08, 0x00) @
     ipv4_header 5 0 (0, 28) [0, 1, 0, 0, 64] 17 [0, 0] [10, 0, 0, 1] [10, 0, 0, 2] [] @
     [0x30, 0x39, 0, 53, 0, 8, 0, 0]"

lemma decode_sample_udp:
  "decode (Some sample_udp) 42 \<lparr>tv_sec = 1, tv_usec = 2\<rparr> = Decoded
    \<lparr>pp_src_ip = set_ipv4_mapped [10, 0, 0, 1], pp_dst_ip = set_ipv4_mapped [10, 0, 0, 2],
     pp_src_port = 12345, pp_dst_port = 53, pp_protocol = 17, pp_wire_length = 28,
     pp_timestamp_us = 1000002, pp_tcp_fin = False, pp_tcp_rst = False, pp_is_ipv6 = False\<rparr>"
  by code_simp

theorem decode_well_formed_witness:
  "\<exists>pkt. decode (Some sample_udp) 42 \<lparr>tv_sec = 1, tv_usec = 2\<rparr> = Decoded pkt \<and> wf_packet pkt"
  using decode_well_formed [OF decode_sample_udp] decode_sample_udp by blast

lemma and_flag_bit: "(w AND 2 ^ n \<noteq> 0) = bit w n" for w :: "'a::len word"
proof (cases "n < LENGTH('a)")
  case True
  have "(w AND 2 ^ n \<noteq> 0) = (\<exists>i. bit (w AND 2 ^ n) i)" by (metis bit_eq_iff bit_0_eq bot_apply bot_bool_def)
  also have "\<dots> = bit w n" using True by (auto simp: bit_and_iff bit_exp_iff)
  finally show ?thesis .
next
  case False
  then have z: "(2::'a word) ^ n = 0" by simp
  have "w AND 2 ^ n = 0" by (simp only: z and_zero_eq)
  moreover have "\<not> bit w n" using False bit_imp_le_length by blast
  ultimately show ?thesis by simp
qed

lemma tcp_flag_bits: "(w AND TH_FIN \<noteq> 0) = bit w 0" "(w AND TH_RST \<noteq> 0) = bit w 2"
  using and_flag_bit [of w 0] and_flag_bit [of w 2] by (simp_all add: TH_FIN_def TH_RST_def)

text \<open>
  C22.  An Ethernet frame (with or without a VLAN tag) carrying an IPv4 packet with any
  options, a TCP segment and any payload decodes to exactly the addresses (IPv4-mapped), ports,
  total length, capture time and FIN and RST flags it holds.
\<close>

theorem decode_ipv4_tcp:
  assumes "length macs = 12" and "5 \<le> ihl" "ihl < 16" "length options = 4 * ihl - 20"
    and "length mid = 5" "length csum = 2" "length src = 4" "length dst = 4"
    and "length tmid = 9" "length tail = 6"
    and "data = eth_header macs vlan (0x08, 0x00) @
      ipv4_header ihl tos tlen mid 6 csum src dst options @
      tcp_header sport dport tmid flags tail @ payload"
    and "unat len = length data"
  shows "decode (Some data) len ts = Decoded
    \<lparr>pp_src_ip = set_ipv4_mapped src, pp_dst_ip = set_ipv4_mapped dst,
     pp_src_port = be16 (fst sport) (snd sport), pp_dst_port = be16 (fst dport) (snd dport),
     pp_protocol = 6, pp_wire_length = ucast (be16 (fst tlen) (snd tlen)),
     pp_timestamp_us = tv_sec ts * 1000000 + tv_usec ts,
     pp_tcp_fin = bit flags 0, pp_tcp_rst = bit flags 2, pp_is_ipv6 = False\<rparr>"
proof -
  let ?eth = "eth_header macs vlan (0x08, 0x00)"
  let ?ip = "ipv4_header ihl tos tlen mid 6 csum src dst options"
  define offset :: u32 where "offset = (if vlan = None then 14 else 18)"
  have eth: "decode_ethernet data len = Decoded (kEtherIPv4, offset)"
    using assms(1,11,12) decode_ethernet_frame [of macs "(0x08, 0x00)" len vlan]
    by (simp add: be16_def kEtherIPv4_def kEtherVLAN_def offset_def)
  have off: "unat offset = length ?eth" "length ?eth \<le> 18"
    by (simp_all add: length_eth_header assms(1) offset_def)
  have off': "unat (offset + word_of_nat (4 * ihl)) = length (?eth @ ?ip)" "length (?eth @ ?ip) \<le> 78"
    using assms(2-8) off
    by (simp_all add: unat_offset_add ipv4_header_def unsigned_of_nat take_bit_nat_eq_self del: of_nat_mult)
  have data': "data = (?eth @ ?ip) @ tcp_header sport dport tmid flags tail @ payload"
    using assms(11) by simp
  have len: "kEthHdrLen \<le> len"
    using assms(11,12) by (simp add: word_le_nat_alt kEthHdrLen_def length_eth_header assms(1))
  note ip = decode_ipv4_frame [OF assms(11,12) off assms(2,3,4-8)]
  have tr: "decode_transport data len (offset + word_of_nat (4 * ihl)) pkt = Decoded
      (pkt\<lparr>pp_src_port := be16 (fst sport) (snd sport), pp_dst_port := be16 (fst dport) (snd dport),
           pp_tcp_fin := bit flags 0, pp_tcp_rst := bit flags 2\<rparr>)" if "pp_protocol pkt = 6" for pkt
    using decode_transport_tcp [OF data' assms(12) off' assms(9,10), of pkt] that
    by (simp only: tcp_flag_bits IPPROTO_TCP_def)
  show ?thesis
    unfolding decode_stages [OF len eth, unfolded decode_network_def simp_thms if_True, OF ip]
    by (simp add: tr default_packet_def del: of_nat_mult)
qed

theorem decode_ipv4_tcp_witness:
  "\<exists>pkt. decode (Some (eth_header (replicate 12 2) (Some (0, 7)) (0x08, 0x00) @
      ipv4_header 6 0 (0, 44) [0, 1, 0, 0, 64] 6 [0, 0] [10, 0, 0, 1] [10, 0, 0, 2] [1, 1, 1, 0] @
      tcp_header (0x1F, 0x90) (0, 80) (replicate 9 0) 0x11 (replicate 6 0) @ []))
      62 \<lparr>tv_sec = 1, tv_usec = 2\<rparr> = Decoded pkt \<and>
    pp_src_port pkt = 8080 \<and> pp_dst_port pkt = 80 \<and> pp_tcp_fin pkt \<and> \<not> pp_tcp_rst pkt"
  by (subst decode_ipv4_tcp [OF _ _ _ _ _ _ _ _ _ _ refl])
    (simp_all add: be16_def eth_header_def ipv4_header_def tcp_header_def bit_0 bit_numeral_rec)

text \<open>
  C23.  The same for IPv6, for UDP and for ICMPv6: the addresses are copied unchanged, the
  length is the payload length plus the 40 bytes of the header, a UDP datagram gives its two
  ports, and an ICMPv6 message its type and code as the source port.
\<close>

theorem decode_ipv6_transport:
  assumes "length macs = 12" and "length flow = 3" "length src = 16" "length dst = 16"
    and "data = eth_header macs vlan (0x86, 0xDD) @ ipv6_header low flow plen nxt hops src dst @
      a # b # c # d # tail @ payload"
    and "length tail = 4" and "unat len = length data"
    and "nxt = 17 \<and> sport = be16 a b \<and> dport = be16 c d \<or> nxt = 58 \<and> sport = be16 a b \<and> dport = 0"
  shows "decode (Some data) len ts = Decoded
    \<lparr>pp_src_ip = src, pp_dst_ip = dst, pp_src_port = sport, pp_dst_port = dport,
     pp_protocol = nxt, pp_wire_length = ucast (be16 (fst plen) (snd plen)) + 40,
     pp_timestamp_us = tv_sec ts * 1000000 + tv_usec ts,
     pp_tcp_fin = False, pp_tcp_rst = False, pp_is_ipv6 = True\<rparr>"
proof -
  let ?eth = "eth_header macs vlan (0x86, 0xDD)"
  let ?ip = "ipv6_header low flow plen nxt hops src dst"
  define offset :: u32 where "offset = (if vlan = None then 14 else 18)"
  have eth: "decode_ethernet data len = Decoded (kEtherIPv6, offset)"
    using assms(1,5,7) decode_ethernet_frame [of macs "(0x86, 0xDD)" len vlan]
    by (simp add: be16_def kEtherIPv6_def kEtherVLAN_def offset_def)
  have off: "unat offset = length ?eth" "length ?eth \<le> 18"
    by (simp_all add: length_eth_header assms(1) offset_def)
  have off': "unat (offset + 40) = length (?eth @ ?ip)" "length (?eth @ ?ip) \<le> 78"
    using assms(2-4) off by (simp_all add: unat_offset_add ipv6_header_def)
  have udp: "data = (?eth @ ?ip) @ fst (a, b) # snd (a, b) # fst (c, d) # snd (c, d) # tail @ payload"
    and icmp: "data = (?eth @ ?ip) @ a # b # (c # d # tail) @ payload"
    using assms(5) by simp_all
  have len: "kEthHdrLen \<le> len"
    using assms(5,7) by (simp add: word_le_nat_alt kEthHdrLen_def length_eth_header assms(1))
  have six: "kEtherIPv6 \<noteq> kEtherIPv4" by (simp add: kEtherIPv6_def kEtherIPv4_def)
  note ip = decode_ipv6_frame [OF assms(5,7) off assms(2-4)]
  note tr = decode_transport_udp [OF udp assms(7) off' assms(6)]
    decode_transport_icmpv6 [OF icmp assms(7) off']
  show ?thesis
    using assms(8)
    by (subst decode_stages [OF len eth])
      (auto simp: decode_network_def ip six tr default_packet_def
        IPPROTO_UDP_def IPPROTO_ICMPV6_def)
qed

theorem decode_ipv6_transport_witness:
  "\<exists>pkt. decode (Some (eth_header (replicate 12 2) None (0x86, 0xDD) @
      ipv6_header 0 [0, 0, 0] (0, 8) 58 64 (replicate 16 1) (replicate 16 2) @
      128 # 3 # 0 # 0 # [0, 0, 0, 0] @ [])) 62 \<lparr>tv_sec = 1, tv_usec = 2\<rparr> = Decoded pkt \<and>
    pp_src_port pkt = 0x8003 \<and> pp_dst_port pkt = 0 \<and> pp_wire_length pkt = 48"
  by (subst decode_ipv6_transport [OF _ _ _ _ refl, where sport = "0x8003" and dport = 0])
    (simp_all add: be16_def eth_header_def ipv6_header_def)

end
