(* ===== verification/Flow_Table.thy ===== *)
theory Flow_Table
  imports Config Metrics Packet_Decoder "HOL-Library.Signed_Division" "HOL-Library.Multiset"
begin

section \<open>The flow table (flowtable/flow\_table.cpp)\<close>

text \<open>
  \<open>FlowTable\<close> with its three operations.  Each runs under the mutex, so a run of the capture and
  the timer thread is a sequence of whole operations; only the increment of
  \<open>packets_received\<close> happens before the lock, on an atomic counter.

  The callback \<open>on_event\<close> is a parameter: a function on the state \<open>'q\<close> behind it that also
  says whether the event was taken.  The hash map is a list of entries in iteration order.
  The constructor reserves room for \<open>max_flows\<close> entries, so no rehash reorders the entries; where
  the library puts a new entry is the parameter \<open>place\<close>.
\<close>

subsection \<open>The hash map\<close>

type_synonym flow_map = "(flow_key \<times> flow_state) list"

definition fm_find :: "flow_key \<Rightarrow> flow_map \<Rightarrow> flow_state option" where
  "fm_find k m = map_of m k"

definition fm_emplace ::
  "(flow_key \<Rightarrow> flow_map \<Rightarrow> nat) \<Rightarrow> flow_key \<Rightarrow> flow_state \<Rightarrow> flow_map \<Rightarrow> flow_map" where
  "fm_emplace place k s m =
     (if fm_find k m \<noteq> None then m
      else take (place k m) m @ (k, s) # drop (place k m) m)"

definition fm_update :: "flow_key \<Rightarrow> flow_state \<Rightarrow> flow_map \<Rightarrow> flow_map" where
  "fm_update k s m = map (\<lambda>(k', s'). (k', if k' = k then s else s')) m"

definition fm_erase :: "flow_key \<Rightarrow> flow_map \<Rightarrow> flow_map" where
  "fm_erase k m = filter (\<lambda>(k', _). k' \<noteq> k) m"

text \<open>What the flow table relies on of \<open>std::unordered_map\<close>.\<close>

locale keyed_map =
  fixes find :: "'k \<Rightarrow> 'm \<Rightarrow> 'v option"
    and emplace :: "'k \<Rightarrow> 'v \<Rightarrow> 'm \<Rightarrow> 'm"
    and assign :: "'k \<Rightarrow> 'v \<Rightarrow> 'm \<Rightarrow> 'm"
    and erase :: "'k \<Rightarrow> 'm \<Rightarrow> 'm"
    and size_of :: "'m \<Rightarrow> nat"
    and ok :: "'m \<Rightarrow> bool"
  assumes find_emplace: "ok m \<Longrightarrow> find k m = None \<Longrightarrow> find j (emplace k v m) = (if j = k then Some v else find j m)"
    and find_assign: "ok m \<Longrightarrow> find k m = Some u \<Longrightarrow> find j (assign k v m) = (if j = k then Some v else find j m)"
    and find_erase: "ok m \<Longrightarrow> find j (erase k m) = (if j = k then None else find j m)"
    and size_emplace: "ok m \<Longrightarrow> find k m = None \<Longrightarrow> size_of (emplace k v m) = size_of m + 1"
    and size_assign: "ok m \<Longrightarrow> size_of (assign k v m) = size_of m"
    and size_erase: "ok m \<Longrightarrow> find k m = Some u \<Longrightarrow> size_of (erase k m) + 1 = size_of m"
    and ok_emplace: "ok m \<Longrightarrow> ok (emplace k v m)"
    and ok_assign: "ok m \<Longrightarrow> ok (assign k v m)"
    and ok_erase: "ok m \<Longrightarrow> ok (erase k m)"
begin

lemmas laws = find_emplace find_assign find_erase size_emplace size_assign ok_emplace ok_assign ok_erase

text \<open>Every entry satisfies \<open>P\<close>; the operations keep that.\<close>

definition all_entries :: "('k \<Rightarrow> 'v \<Rightarrow> bool) \<Rightarrow> 'm \<Rightarrow> bool" where
  "all_entries P m \<longleftrightarrow> (\<forall>k v. find k m = Some v \<longrightarrow> P k v)"

lemma all_entries_emplace:
  "ok m \<Longrightarrow> find k m = None \<Longrightarrow> all_entries P m \<Longrightarrow> P k v \<Longrightarrow> all_entries P (emplace k v m)"
  by (auto simp: all_entries_def find_emplace)

lemma all_entries_assign:
  "ok m \<Longrightarrow> find k m = Some u \<Longrightarrow> all_entries P m \<Longrightarrow> P k v \<Longrightarrow> all_entries P (assign k v m)"
  by (auto simp: all_entries_def find_assign)

lemma all_entries_erase: "ok m \<Longrightarrow> all_entries P m \<Longrightarrow> all_entries P (erase k m)"
  by (auto simp: all_entries_def find_erase)

lemma ok_erase_all: "ok m \<Longrightarrow> ok (fold erase ks m)"
  by (induction ks arbitrary: m) (simp_all add: ok_erase)

lemma find_erase_all: "ok m \<Longrightarrow> find j (fold erase ks m) = (if j \<in> set ks then None else find j m)"
  by (induction ks arbitrary: m) (simp_all add: find_erase ok_erase)

lemma size_erase_all:
  "ok m \<Longrightarrow> distinct ks \<Longrightarrow> (\<And>k. k \<in> set ks \<Longrightarrow> find k m \<noteq> None) \<Longrightarrow>
    size_of (fold erase ks m) + length ks = size_of m"
proof (induction ks arbitrary: m)
  case (Cons k ks)
  from Cons.prems(3) [of k] obtain u where "find k m = Some u" by auto
  from size_erase [OF Cons.prems(1) this] have "size_of (erase k m) + 1 = size_of m" .
  moreover have "size_of (fold erase ks (erase k m)) + length ks = size_of (erase k m)"
    using Cons.prems by (intro Cons.IH) (auto simp: find_erase ok_erase)
  ultimately show ?case by simp
qed simp

end

definition fm_ok :: "flow_map \<Rightarrow> bool" where
  "fm_ok m \<longleftrightarrow> distinct (map fst m)"

lemma fm_find_None_iff: "fm_find k m = None \<longleftrightarrow> k \<notin> fst ` set m"
  by (simp add: fm_find_def map_of_eq_None_iff)

lemma map_fst_fm_update: "map fst (fm_update k s m) = map fst m"
  by (induction m) (auto simp: fm_update_def)

lemma map_fst_fm_erase: "map fst (fm_erase k m) = filter (\<lambda>k'. k' \<noteq> k) (map fst m)"
  by (induction m) (auto simp: fm_erase_def)

lemma fm_find_emplace:
  "fm_find k m = None \<Longrightarrow> fm_find j (fm_emplace place k s m) = (if j = k then Some s else fm_find j m)"
proof -
  assume none: "fm_find k m = None"
  let ?n = "place k m"
  have split: "map_of m j = (map_of (drop ?n m) ++ map_of (take ?n m)) j" for j
    by (simp only: map_of_append [symmetric] append_take_drop_id)
  have "map_of (take ?n m) k = None"
    using none by (auto simp: fm_find_None_iff map_of_eq_None_iff dest: in_set_takeD)
  then show ?thesis
    using none split [of j]
    by (auto simp: fm_find_def fm_emplace_def map_add_def split: option.splits)
qed

lemma fm_ok_emplace: "fm_ok m \<Longrightarrow> fm_ok (fm_emplace place k s m)"
proof (cases "fm_find k m = None")
  case True
  assume ok: "fm_ok m"
  let ?n = "place k m"
  have "distinct (map fst (take ?n m @ drop ?n m))" using ok by (simp add: fm_ok_def)
  moreover have "k \<notin> fst ` set (take ?n m @ drop ?n m)"
    using True by (simp only: append_take_drop_id fm_find_None_iff) simp
  ultimately show ?thesis
    using True by (simp add: fm_ok_def fm_emplace_def image_Un del: append_take_drop_id)
qed (simp add: fm_emplace_def)

lemma fm_find_update_other: "j \<noteq> k \<Longrightarrow> fm_find j (fm_update k s m) = fm_find j m"
  by (induction m) (auto simp: fm_find_def fm_update_def)

lemma fm_find_update:
  "fm_find k m = Some u \<Longrightarrow> fm_find j (fm_update k s m) = (if j = k then Some s else fm_find j m)"
  by (cases "j = k") (induction m, auto simp: fm_find_def fm_update_def fm_find_update_other
      [unfolded fm_find_def fm_update_def] split: if_splits)

lemma fm_find_erase: "fm_find j (fm_erase k m) = (if j = k then None else fm_find j m)"
  by (induction m) (auto simp: fm_find_def fm_erase_def)

lemma length_fm_erase:
  "fm_ok m \<Longrightarrow> fm_find k m = Some u \<Longrightarrow> length (fm_erase k m) + 1 = length m"
proof (induction m)
  case (Cons e m)
  show ?case
  proof (cases "fst e = k")
    case True
    with Cons.prems(1) have "k \<notin> fst ` set m" by (auto simp: fm_ok_def)
    then have "fm_erase k m = m"
      unfolding fm_erase_def by (intro filter_True) force
    with True show ?thesis by (simp add: fm_erase_def split_beta)
  next
    case False
    with Cons show ?thesis
      by (cases e) (auto simp: fm_ok_def fm_erase_def fm_find_def)
  qed
qed (simp add: fm_find_def)

interpretation fm: keyed_map fm_find "fm_emplace place" fm_update fm_erase length fm_ok for place
proof
  fix m :: flow_map and k s u j
  assume ok: "fm_ok m"
  show "fm_find k m = None \<Longrightarrow> fm_find j (fm_emplace place k s m) = (if j = k then Some s else fm_find j m)"
    by (rule fm_find_emplace)
  show "fm_find k m = Some u \<Longrightarrow> fm_find j (fm_update k s m) = (if j = k then Some s else fm_find j m)"
    by (rule fm_find_update)
  show "fm_find j (fm_erase k m) = (if j = k then None else fm_find j m)"
    by (rule fm_find_erase)
  show "fm_find k m = None \<Longrightarrow> length (fm_emplace place k s m) = length m + 1"
    by (simp add: fm_emplace_def min_def)
  show "length (fm_update k s m) = length m" by (simp add: fm_update_def)
  show "fm_find k m = Some u \<Longrightarrow> length (fm_erase k m) + 1 = length m"
    using ok by (rule length_fm_erase)
  show "fm_ok (fm_emplace place k s m)" using ok by (rule fm_ok_emplace)
  show "fm_ok (fm_update k s m)" using ok by (simp add: fm_ok_def map_fst_fm_update)
  show "fm_ok (fm_erase k m)" using ok by (simp add: fm_ok_def map_fst_fm_erase)
qed

subsection \<open>The state and the operations\<close>

datatype log_line = Event_Queue_Full | Max_Flows_Reached int

record 'q flow_table =
  ft_cfg :: app_config
  ft_metrics :: metrics
  ft_sink :: 'q
  ft_flows :: flow_map
  ft_last_heartbeat_us :: i64
  ft_idle_timeout_us :: i64
  ft_stats_interval_us :: i64
  ft_drop_count :: i32
  ft_log :: "log_line list"

definition key_from_packet :: "parsed_packet \<Rightarrow> flow_key" where
  "key_from_packet pkt =
     \<lparr>fk_src_ip = pp_src_ip pkt, fk_dst_ip = pp_dst_ip pkt, fk_src_port = pp_src_port pkt,
      fk_dst_port = pp_dst_port pkt, fk_protocol = pp_protocol pkt\<rparr>"

definition FlowTable :: "app_config \<Rightarrow> metrics \<Rightarrow> 'q \<Rightarrow> 'q flow_table" where
  "FlowTable cfg metrics sink =
     \<lparr>ft_cfg = cfg, ft_metrics = metrics, ft_sink = sink, ft_flows = [],
      ft_last_heartbeat_us = 0,
      ft_idle_timeout_us = word_of_int (cfg_flow_timeout_sec cfg) * 1000000,
      ft_stats_interval_us = word_of_int (cfg_stats_interval_sec cfg) * 1000000,
      ft_drop_count = 0, ft_log = []\<rparr>"

definition on_metrics :: "(metrics \<Rightarrow> metrics) \<Rightarrow> 'q flow_table \<Rightarrow> 'q flow_table" where
  "on_metrics f ft = ft\<lparr>ft_metrics := f (ft_metrics ft)\<rparr>"

definition warn :: "log_line \<Rightarrow> 'q flow_table \<Rightarrow> 'q flow_table" where
  "warn l ft = ft\<lparr>ft_log := ft_log ft @ [l]\<rparr>"

definition emit ::
  "(flow_event \<Rightarrow> 'q \<Rightarrow> bool \<times> 'q) \<Rightarrow> flow_event \<Rightarrow> 'q flow_table \<Rightarrow> 'q flow_table" where
  "emit on_event evt ft =
     (let (taken, q) = on_event evt (ft_sink ft);
          ft = ft\<lparr>ft_sink := q\<rparr>
      in if \<not> taken then
           (let ft = on_metrics (Increment PacketsDropped) ft in warn Event_Queue_Full ft)
         else ft)"

text \<open>The iterator is the entry it points to.\<close>

definition expire_flow ::
  "(flow_event \<Rightarrow> 'q \<Rightarrow> bool \<times> 'q) \<Rightarrow> flow_key \<times> flow_state \<Rightarrow> i64 \<Rightarrow> expire_reason \<Rightarrow>
   'q flow_table \<Rightarrow> 'q flow_table" where
  "expire_flow on_event it now_us reason ft =
     (let evt = default_flow_event
            \<lparr>ev_type := End, ev_state := snd it, ev_timestamp_us := now_us, ev_reason := reason\<rparr>;
          ft = emit on_event evt ft;
          ft = ft\<lparr>ft_flows := fm_erase (fst it) (ft_flows ft)\<rparr>;
          ft = on_metrics (Decrement FlowsActive) ft;
          ft = on_metrics (Increment (FlowsExpired reason)) ft
      in ft)"

definition process_new ::
  "(flow_key \<Rightarrow> flow_map \<Rightarrow> nat) \<Rightarrow> (flow_event \<Rightarrow> 'q \<Rightarrow> bool \<times> 'q) \<Rightarrow> parsed_packet \<Rightarrow>
   flow_key \<Rightarrow> 'q flow_table \<Rightarrow> 'q flow_table" where
  "process_new place on_event pkt key ft =
     (if cfg_max_flows (ft_cfg ft) \<le> size_as_int (ft_flows ft) then
        (let ft = on_metrics (Increment PacketsDropped) ft;
             ft = ft\<lparr>ft_drop_count := ft_drop_count ft + 1\<rparr>
         in if sint (ft_drop_count ft) smod 1000 = 1
            then warn (Max_Flows_Reached (cfg_max_flows (ft_cfg ft))) ft
            else ft)
      else
        (let state = default_flow_state
               \<lparr>fs_key := key, fs_start_us := pp_timestamp_us pkt,
                fs_last_seen_us := pp_timestamp_us pkt, fs_packet_count := 1,
                fs_byte_count := ucast (pp_wire_length pkt)\<rparr>;
             ft = ft\<lparr>ft_flows := fm_emplace place key state (ft_flows ft)\<rparr>;
             evt = default_flow_event
               \<lparr>ev_type := Start, ev_state := state, ev_timestamp_us := pp_timestamp_us pkt\<rparr>;
             ft = emit on_event evt ft;
             ft = on_metrics (Increment FlowsActive) ft;
             ft = on_metrics (Increment FlowsCreated) ft
         in ft))"

definition process_existing ::
  "(flow_event \<Rightarrow> 'q \<Rightarrow> bool \<times> 'q) \<Rightarrow> parsed_packet \<Rightarrow> flow_key \<Rightarrow> flow_state \<Rightarrow>
   'q flow_table \<Rightarrow> 'q flow_table" where
  "process_existing on_event pkt key state ft =
     (let state = state\<lparr>fs_last_seen_us := pp_timestamp_us pkt\<rparr>;
          state = state\<lparr>fs_packet_count := fs_packet_count state + 1\<rparr>;
          state = state\<lparr>fs_byte_count := fs_byte_count state + ucast (pp_wire_length pkt)\<rparr>;
          ft = ft\<lparr>ft_flows := fm_update key state (ft_flows ft)\<rparr>
      in if pp_protocol pkt = IPPROTO_TCP \<and> (pp_tcp_fin pkt \<or> pp_tcp_rst pkt)
         then expire_flow on_event (key, state) (pp_timestamp_us pkt) TcpTeardown ft
         else ft)"

definition process ::
  "(flow_key \<Rightarrow> flow_map \<Rightarrow> nat) \<Rightarrow> (flow_event \<Rightarrow> 'q \<Rightarrow> bool \<times> 'q) \<Rightarrow> parsed_packet \<Rightarrow>
   'q flow_table \<Rightarrow> 'q flow_table" where
  "process place on_event pkt ft =
     (let ft = on_metrics (Increment PacketsReceived) ft;
          key = key_from_packet pkt
      in case fm_find key (ft_flows ft) of
           None \<Rightarrow> process_new place on_event pkt key ft
         | Some state \<Rightarrow> process_existing on_event pkt key state ft)"

text \<open>The first loop of \<open>timer_sweep\<close>: the keys to expire, in order, and the table.\<close>

fun sweep_loop ::
  "(flow_event \<Rightarrow> 'q \<Rightarrow> bool \<times> 'q) \<Rightarrow> i64 \<Rightarrow> bool \<Rightarrow> flow_map \<Rightarrow> flow_key list \<Rightarrow>
   'q flow_table \<Rightarrow> flow_key list \<times> 'q flow_table" where
  "sweep_loop on_event now_us emit_stats [] to_expire ft = (to_expire, ft)"
| "sweep_loop on_event now_us emit_stats ((key, state) # rest) to_expire ft =
     (if ft_idle_timeout_us ft \<le>s now_us - fs_last_seen_us state then
        sweep_loop on_event now_us emit_stats rest (to_expire @ [key]) ft
      else if emit_stats then
        (let evt = default_flow_event
               \<lparr>ev_type := Stats, ev_state := state, ev_timestamp_us := now_us\<rparr>
         in sweep_loop on_event now_us emit_stats rest to_expire (emit on_event evt ft))
      else sweep_loop on_event now_us emit_stats rest to_expire ft)"

text \<open>The second loop.\<close>

fun expire_loop ::
  "(flow_event \<Rightarrow> 'q \<Rightarrow> bool \<times> 'q) \<Rightarrow> i64 \<Rightarrow> flow_key list \<Rightarrow> 'q flow_table \<Rightarrow> 'q flow_table" where
  "expire_loop on_event now_us [] ft = ft"
| "expire_loop on_event now_us (key # keys) ft =
     (let ft = (case fm_find key (ft_flows ft) of
           None \<Rightarrow> ft
         | Some state \<Rightarrow> expire_flow on_event (key, state) now_us IdleTimeout ft)
      in expire_loop on_event now_us keys ft)"

definition timer_sweep ::
  "(flow_event \<Rightarrow> 'q \<Rightarrow> bool \<times> 'q) \<Rightarrow> i64 \<Rightarrow> 'q flow_table \<Rightarrow> 'q flow_table" where
  "timer_sweep on_event now_us ft =
     (let emit_stats = (ft_stats_interval_us ft \<le>s now_us - ft_last_heartbeat_us ft);
          (to_expire, ft) = sweep_loop on_event now_us emit_stats (ft_flows ft) [] ft;
          ft = expire_loop on_event now_us to_expire ft
      in if emit_stats then ft\<lparr>ft_last_heartbeat_us := now_us\<rparr> else ft)"

text \<open>
  \<open>drain_all\<close>: the loop erases the entry the iterator points to and goes on with its
  successor, so it visits the entries in order.
\<close>

fun drain_loop ::
  "(flow_event \<Rightarrow> 'q \<Rightarrow> bool \<times> 'q) \<Rightarrow> i64 \<Rightarrow> flow_map \<Rightarrow> 'q flow_table \<Rightarrow> 'q flow_table" where
  "drain_loop on_event now_us [] ft = ft"
| "drain_loop on_event now_us (it # rest) ft =
     (let evt = default_flow_event
            \<lparr>ev_type := End, ev_state := snd it, ev_timestamp_us := now_us,
             ev_reason := IdleTimeout\<rparr>;
          ft = emit on_event evt ft;
          ft = on_metrics (Decrement FlowsActive) ft;
          ft = on_metrics (Increment (FlowsExpired IdleTimeout)) ft;
          ft = ft\<lparr>ft_flows := fm_erase (fst it) (ft_flows ft)\<rparr>
      in drain_loop on_event now_us rest ft)"

definition drain_all ::
  "(flow_event \<Rightarrow> 'q \<Rightarrow> bool \<times> 'q) \<Rightarrow> i64 \<Rightarrow> 'q flow_table \<Rightarrow> 'q flow_table" where
  "drain_all on_event now_us ft = drain_loop on_event now_us (ft_flows ft) ft"

end
