(* ===== verification/Flow_Table_Runs.thy ===== *)
theory Flow_Table_Runs
  imports Flow_Table
begin

section \<open>Runs of the flow table\<close>

text \<open>
  The loops of \<open>timer_sweep\<close> and \<open>drain_all\<close> as folds of two elementary actions, the emission of a
  \<open>Stats\<close> event and the expiry of an entry; the locale \<open>table_invariant_on\<close>, which reduces a property
  of all runs to these actions and the two branches of \<open>process\<close>; and the log of the events a
  run emits.
\<close>

definition start_event :: "flow_state \<Rightarrow> flow_event" where
  "start_event s =
     default_flow_event\<lparr>ev_type := Start, ev_state := s, ev_timestamp_us := fs_start_us s\<rparr>"

definition stats_event :: "i64 \<Rightarrow> flow_state \<Rightarrow> flow_event" where
  "stats_event now s =
     default_flow_event\<lparr>ev_type := Stats, ev_state := s, ev_timestamp_us := now\<rparr>"

definition end_event :: "i64 \<Rightarrow> expire_reason \<Rightarrow> flow_state \<Rightarrow> flow_event" where
  "end_event now r s =
     default_flow_event
       \<lparr>ev_type := End, ev_state := s, ev_timestamp_us := now, ev_reason := r\<rparr>"

text \<open>The state of a flow after a further packet, and of a new one.\<close>

definition touched :: "parsed_packet \<Rightarrow> flow_state \<Rightarrow> flow_state" where
  "touched pkt s =
     s\<lparr>fs_last_seen_us := pp_timestamp_us pkt, fs_packet_count := fs_packet_count s + 1,
       fs_byte_count := fs_byte_count s + ucast (pp_wire_length pkt)\<rparr>"

definition opened :: "parsed_packet \<Rightarrow> flow_state" where
  "opened pkt =
     \<lparr>fs_key = key_from_packet pkt, fs_start_us = pp_timestamp_us pkt,
      fs_last_seen_us = pp_timestamp_us pkt, fs_packet_count = 1,
      fs_byte_count = ucast (pp_wire_length pkt)\<rparr>"

definition teardown :: "parsed_packet \<Rightarrow> bool" where
  "teardown pkt \<longleftrightarrow> pp_protocol pkt = IPPROTO_TCP \<and> (pp_tcp_fin pkt \<or> pp_tcp_rst pkt)"

definition idle :: "i64 \<Rightarrow> i64 \<Rightarrow> flow_state \<Rightarrow> bool" where
  "idle timeout now s \<longleftrightarrow> timeout \<le>s now - fs_last_seen_us s"

definition at_limit :: "'q flow_table \<Rightarrow> bool" where
  "at_limit ft \<longleftrightarrow> cfg_max_flows (ft_cfg ft) \<le> size_as_int (ft_flows ft)"

abbreviation received :: "'q flow_table \<Rightarrow> 'q flow_table" where
  "received ft \<equiv> on_metrics (Increment PacketsReceived) ft"

definition store :: "flow_map \<Rightarrow> 'q flow_table \<Rightarrow> 'q flow_table" where
  "store m ft = ft\<lparr>ft_flows := m\<rparr>"

text \<open>A packet of a new flow at the limit.\<close>

definition refuse :: "'q flow_table \<Rightarrow> 'q flow_table" where
  "refuse ft =
     (let ft = on_metrics (Increment PacketsDropped) ft;
          ft = ft\<lparr>ft_drop_count := ft_drop_count ft + 1\<rparr>
      in if sint (ft_drop_count ft) smod 1000 = 1
         then warn (Max_Flows_Reached (cfg_max_flows (ft_cfg ft))) ft
         else ft)"

text \<open>A new flow below the limit.\<close>

definition admit ::
  "(flow_key \<Rightarrow> flow_map \<Rightarrow> nat) \<Rightarrow> (flow_event \<Rightarrow> 'q \<Rightarrow> bool \<times> 'q) \<Rightarrow> parsed_packet \<Rightarrow>
   'q flow_table \<Rightarrow> 'q flow_table" where
  "admit place on_event pkt ft =
     on_metrics (Increment FlowsCreated) (on_metrics (Increment FlowsActive)
       (emit on_event (start_event (opened pkt))
         (store (fm_emplace place (key_from_packet pkt) (opened pkt) (ft_flows ft)) ft)))"

subsection \<open>The operations in these terms\<close>

lemma ft_metrics_on_metrics [simp]: "ft_metrics (on_metrics f ft) = f (ft_metrics ft)"
  by (simp add: on_metrics_def)

lemma on_metrics_frame [simp]:
  "ft_cfg (on_metrics f ft) = ft_cfg ft" "ft_sink (on_metrics f ft) = ft_sink ft"
  "ft_flows (on_metrics f ft) = ft_flows ft"
  "ft_last_heartbeat_us (on_metrics f ft) = ft_last_heartbeat_us ft"
  "ft_idle_timeout_us (on_metrics f ft) = ft_idle_timeout_us ft"
  "ft_stats_interval_us (on_metrics f ft) = ft_stats_interval_us ft"
  "ft_drop_count (on_metrics f ft) = ft_drop_count ft" "ft_log (on_metrics f ft) = ft_log ft"
  by (simp_all add: on_metrics_def)

lemma at_limit_on_metrics [simp]: "at_limit (on_metrics g ft) \<longleftrightarrow> at_limit ft"
  by (simp add: at_limit_def)

lemma store_frame [simp]:
  "ft_cfg (store m ft) = ft_cfg ft" "ft_sink (store m ft) = ft_sink ft"
  "ft_flows (store m ft) = m" "ft_metrics (store m ft) = ft_metrics ft"
  "ft_last_heartbeat_us (store m ft) = ft_last_heartbeat_us ft"
  "ft_idle_timeout_us (store m ft) = ft_idle_timeout_us ft"
  "ft_stats_interval_us (store m ft) = ft_stats_interval_us ft"
  "ft_drop_count (store m ft) = ft_drop_count ft" "ft_log (store m ft) = ft_log ft"
  by (simp_all add: store_def)

lemma emit_frame [simp]:
  "ft_cfg (emit f e ft) = ft_cfg ft" "ft_flows (emit f e ft) = ft_flows ft"
  "ft_last_heartbeat_us (emit f e ft) = ft_last_heartbeat_us ft"
  "ft_idle_timeout_us (emit f e ft) = ft_idle_timeout_us ft"
  "ft_stats_interval_us (emit f e ft) = ft_stats_interval_us ft"
  "ft_drop_count (emit f e ft) = ft_drop_count ft"
  "ft_sink (emit f e ft) = snd (f e (ft_sink ft))"
  by (simp_all add: emit_def on_metrics_def warn_def Let_def split_beta)

lemma ft_metrics_emit:
  "ft_metrics (emit f e ft) x =
    ft_metrics ft x + (if \<not> fst (f e (ft_sink ft)) \<and> x = PacketsDropped then 1 else 0)"
  by (simp add: emit_def on_metrics_def warn_def Let_def split_beta)

lemma expire_flow_eq:
  "expire_flow f (k, s) now r ft =
    on_metrics (Increment (FlowsExpired r)) (on_metrics (Decrement FlowsActive)
      (store (fm_erase k (ft_flows ft)) (emit f (end_event now r s) ft)))"
  by (simp add: expire_flow_def end_event_def store_def Let_def)

lemma process_new_eq:
  "process_new place f pkt (key_from_packet pkt) ft =
    (if at_limit ft then refuse ft else admit place f pkt ft)"
  by (simp add: process_new_def at_limit_def refuse_def admit_def store_def start_event_def
      opened_def default_flow_state_def Let_def)

lemma process_existing_eq:
  "process_existing f pkt k s ft =
    (let ft = store (fm_update k (touched pkt s) (ft_flows ft)) ft
     in if teardown pkt then expire_flow f (k, touched pkt s) (pp_timestamp_us pkt) TcpTeardown ft
        else ft)"
  by (cases "teardown pkt") (auto simp: process_existing_def touched_def teardown_def store_def Let_def)

lemma process_eq:
  "process place f pkt ft =
    (let k = key_from_packet pkt in
     case fm_find k (ft_flows ft) of
       None \<Rightarrow> (if at_limit (received ft) then refuse (received ft)
                else admit place f pkt (received ft))
     | Some s \<Rightarrow>
         (let ft = store (fm_update k (touched pkt s) (ft_flows ft)) (received ft)
          in if teardown pkt
             then expire_flow f (k, touched pkt s) (pp_timestamp_us pkt) TcpTeardown ft
             else ft))"
  by (simp add: process_def process_new_eq process_existing_eq Let_def split: option.split)

subsection \<open>The loops as folds\<close>

lemma sweep_loop_Cons:
  "sweep_loop f now b (e # es) acc ft =
    (if idle (ft_idle_timeout_us ft) now (snd e) then sweep_loop f now b es (acc @ [fst e]) ft
     else sweep_loop f now b es acc (if b then emit f (stats_event now (snd e)) ft else ft))"
  by (cases e) (simp add: idle_def stats_event_def Let_def)

lemma sweep_loop_eq:
  "sweep_loop f now b es acc ft =
    (acc @ map fst (filter (\<lambda>e. idle (ft_idle_timeout_us ft) now (snd e)) es),
     if b then fold (\<lambda>e. emit f (stats_event now (snd e)))
            (filter (\<lambda>e. \<not> idle (ft_idle_timeout_us ft) now (snd e)) es) ft
     else ft)"
  by (induction es arbitrary: acc ft) (simp_all add: sweep_loop_Cons del: sweep_loop.simps(2))

definition expire_all ::
  "(flow_event \<Rightarrow> 'q \<Rightarrow> bool \<times> 'q) \<Rightarrow> i64 \<Rightarrow> flow_map \<Rightarrow> 'q flow_table \<Rightarrow> 'q flow_table" where
  "expire_all f now es ft = fold (\<lambda>e. expire_flow f e now IdleTimeout) es ft"

lemma fm_find_expire_flow:
  "fm_find j (ft_flows (expire_flow f (k, s) now r ft)) =
    (if j = k then None else fm_find j (ft_flows ft))"
  by (simp add: expire_flow_eq fm_find_erase)

lemma expire_loop_eq:
  assumes "distinct (map fst es)" and "\<And>k s. (k, s) \<in> set es \<Longrightarrow> fm_find k (ft_flows ft) = Some s"
  shows "expire_loop f now (map fst es) ft = expire_all f now es ft"
  using assms
proof (induction es arbitrary: ft)
  case Nil
  show ?case by (simp add: expire_all_def)
next
  case (Cons e es)
  obtain k s where e: "e = (k, s)" by fastforce
  have "expire_loop f now (map fst es) (expire_flow f e now IdleTimeout ft) =
      expire_all f now es (expire_flow f e now IdleTimeout ft)"
    using Cons.prems by (intro Cons.IH) (force simp: e fm_find_expire_flow)+
  with Cons.prems(2) [of k s] show ?case by (simp add: e expire_all_def)
qed

text \<open>The body of the loop of \<open>drain_all\<close> is \<open>expire_flow\<close> with the metrics updated before the erasure.\<close>

lemma store_on_metrics: "store m (on_metrics g ft) = on_metrics g (store m ft)"
  by (cases ft) (simp add: store_def on_metrics_def)

lemma drain_loop_Cons:
  "drain_loop f now (e # es) ft = drain_loop f now es (expire_flow f e now IdleTimeout ft)"
  by (cases e) (simp add: expire_flow_eq end_event_def Let_def store_on_metrics [symmetric]
      store_def [symmetric])

lemma drain_loop_eq: "drain_loop f now es ft = expire_all f now es ft"
  by (induction es arbitrary: ft) (simp_all add: expire_all_def drain_loop_Cons del: drain_loop.simps(2))

lemma timer_sweep_eq:
  assumes "fm_ok (ft_flows ft)"
  shows "timer_sweep f now ft =
    (let due = ft_stats_interval_us ft \<le>s now - ft_last_heartbeat_us ft;
         gone = filter (\<lambda>e. idle (ft_idle_timeout_us ft) now (snd e)) (ft_flows ft);
         live = filter (\<lambda>e. \<not> idle (ft_idle_timeout_us ft) now (snd e)) (ft_flows ft);
         ft' = (if due then fold (\<lambda>e. emit f (stats_event now (snd e))) live ft else ft);
         ft' = expire_all f now gone ft'
     in if due then ft'\<lparr>ft_last_heartbeat_us := now\<rparr> else ft')"
proof -
  let ?live = "filter (\<lambda>e. \<not> idle (ft_idle_timeout_us ft) now (snd e)) (ft_flows ft)"
  let ?gone = "filter (\<lambda>e. idle (ft_idle_timeout_us ft) now (snd e)) (ft_flows ft)"
  have flows: "ft_flows (fold (\<lambda>e. emit f (stats_event now (snd e))) es ft) = ft_flows ft" for es
    by (induction es arbitrary: ft) simp_all
  have "distinct (map fst ?gone)"
    using assms by (simp add: fm_ok_def distinct_map_filter)
  moreover have "fm_find k (ft_flows ft) = Some s" if "(k, s) \<in> set ?gone" for k s
    using that assms by (simp add: fm_find_def fm_ok_def)
  ultimately have "expire_loop f now (map fst ?gone) ft' = expire_all f now ?gone ft'"
    if "ft_flows ft' = ft_flows ft" for ft'
    using that by (intro expire_loop_eq) auto
  then show ?thesis
    by (simp add: timer_sweep_def sweep_loop_eq flows Let_def)
qed

lemma drain_all_eq: "drain_all f now ft = expire_all f now (ft_flows ft) ft"
  by (simp add: drain_all_def drain_loop_eq)

subsection \<open>Calls and what is kept by all of them\<close>

datatype ft_call = Process parsed_packet | Sweep i64 | Drain i64

fun apply_call ::
  "(flow_key \<Rightarrow> flow_map \<Rightarrow> nat) \<Rightarrow> (flow_event \<Rightarrow> 'q \<Rightarrow> bool \<times> 'q) \<Rightarrow> ft_call \<Rightarrow>
   'q flow_table \<Rightarrow> 'q flow_table" where
  "apply_call place f (Process pkt) ft = process place f pkt ft"
| "apply_call place f (Sweep now) ft = timer_sweep f now ft"
| "apply_call place f (Drain now) ft = drain_all f now ft"

definition run ::
  "(flow_key \<Rightarrow> flow_map \<Rightarrow> nat) \<Rightarrow> (flow_event \<Rightarrow> 'q \<Rightarrow> bool \<times> 'q) \<Rightarrow> ft_call list \<Rightarrow>
   'q flow_table \<Rightarrow> 'q flow_table" where
  "run place f calls ft = fold (apply_call place f) calls ft"

lemma run_simps [simp]:
  "run place f [] ft = ft" "run place f (c # cs) ft = run place f cs (apply_call place f c ft)"
  "run place f (cs @ ds) ft = run place f ds (run place f cs ft)"
  by (simp_all add: run_def)

text \<open>
  A statement about the table that every elementary action keeps: the emission of a \<open>Stats\<close>
  event and the expiry for an entry of the table, the branches of \<open>process\<close> for the packets that satisfy
  \<open>good\<close>, and the time of the last heartbeat.
\<close>

locale table_invariant_on =
  fixes place :: "flow_key \<Rightarrow> flow_map \<Rightarrow> nat"
    and f :: "flow_event \<Rightarrow> 'q \<Rightarrow> bool \<times> 'q"
    and good :: "parsed_packet \<Rightarrow> bool"
    and I :: "'q flow_table \<Rightarrow> bool"
  assumes ok: "I ft \<Longrightarrow> fm_ok (ft_flows ft)"
    and stats: "I ft \<Longrightarrow> fm_find k (ft_flows ft) = Some s \<Longrightarrow> I (emit f (stats_event now s) ft)"
    and expire: "I ft \<Longrightarrow> fm_find k (ft_flows ft) = Some s \<Longrightarrow> I (expire_flow f (k, s) now r ft)"
    and refuse: "I ft \<Longrightarrow> good pkt \<Longrightarrow> I (refuse (received ft))"
    and admit: "I ft \<Longrightarrow> good pkt \<Longrightarrow> fm_find (key_from_packet pkt) (ft_flows ft) = None \<Longrightarrow>
      \<not> at_limit ft \<Longrightarrow> I (admit place f pkt (received ft))"
    and touch: "I ft \<Longrightarrow> good pkt \<Longrightarrow> k = key_from_packet pkt \<Longrightarrow> fm_find k (ft_flows ft) = Some s \<Longrightarrow>
      I (store (fm_update k (touched pkt s) (ft_flows ft)) (received ft))"
    and heartbeat: "I ft \<Longrightarrow> I (ft\<lparr>ft_last_heartbeat_us := now\<rparr>)"
begin

lemma process_on: "I ft \<Longrightarrow> good pkt \<Longrightarrow> I (process place f pkt ft)"
proof (cases "fm_find (key_from_packet pkt) (ft_flows ft)")
  case None
  moreover assume "I ft" "good pkt"
  ultimately show ?thesis by (simp add: process_eq refuse admit)
next
  case (Some s)
  assume I: "I ft" and good: "good pkt"
  let ?k = "key_from_packet pkt"
  let ?ft = "store (fm_update ?k (touched pkt s) (ft_flows ft)) (received ft)"
  have "I ?ft" using I good Some by (intro touch) simp_all
  moreover have "fm_find ?k (ft_flows ?ft) = Some (touched pkt s)"
    using fm.find_assign [OF ok [OF I] Some] by simp
  ultimately show ?thesis using Some by (simp add: process_eq Let_def expire)
qed

lemma stats_all:
  assumes "I ft" and "\<And>k s. (k, s) \<in> set es \<Longrightarrow> fm_find k (ft_flows ft) = Some s"
  shows "I (fold (\<lambda>e. emit f (stats_event now (snd e))) es ft)"
  using assms
proof (induction es arbitrary: ft)
  case (Cons e es)
  obtain k s where e: "e = (k, s)" by fastforce
  have "I (emit f (stats_event now s) ft)" using Cons.prems by (auto simp: e intro: stats)
  then show ?case using Cons by (simp add: e)
qed simp

lemma expire_all:
  assumes "I ft" and "distinct (map fst es)"
    and "\<And>k s. (k, s) \<in> set es \<Longrightarrow> fm_find k (ft_flows ft) = Some s"
  shows "I (expire_all f now es ft)"
  using assms
proof (induction es arbitrary: ft)
  case Nil
  then show ?case by (simp add: expire_all_def)
next
  case (Cons e es)
  obtain k s where e: "e = (k, s)" by fastforce
  have "I (expire_flow f (k, s) now IdleTimeout ft)" using Cons.prems by (auto simp: e intro: expire)
  then have "I (expire_all f now es (expire_flow f (k, s) now IdleTimeout ft))"
    using Cons.prems by (intro Cons.IH) (force simp: e fm_find_expire_flow)+
  then show ?case by (simp add: e expire_all_def)
qed

lemma entries: "I ft \<Longrightarrow> (k, s) \<in> set (ft_flows ft) \<Longrightarrow> fm_find k (ft_flows ft) = Some s"
  using ok [of ft] by (simp add: fm_find_def fm_ok_def)

lemma flows_stats_all: "ft_flows (fold (\<lambda>e. emit f (stats_event now (snd e))) es ft) = ft_flows ft"
  by (induction es arbitrary: ft) simp_all

lemma timer_sweep: "I ft \<Longrightarrow> I (timer_sweep f now ft)"
proof -
  assume I: "I ft"
  let ?live = "filter (\<lambda>e. \<not> idle (ft_idle_timeout_us ft) now (snd e)) (ft_flows ft)"
  let ?gone = "filter (\<lambda>e. idle (ft_idle_timeout_us ft) now (snd e)) (ft_flows ft)"
  have "I (fold (\<lambda>e. emit f (stats_event now (snd e))) ?live ft)"
    using I by (intro stats_all) (auto dest: entries)
  moreover have "I (expire_all f now ?gone ft')" if "I ft'" "ft_flows ft' = ft_flows ft" for ft'
    using that I ok [OF I] by (intro expire_all) (auto simp: fm_ok_def distinct_map_filter dest: entries)
  ultimately show ?thesis
    using I unfolding timer_sweep_eq [OF ok [OF I]] Let_def
    by (auto intro!: heartbeat simp: flows_stats_all)
qed

lemma drain_all: "I ft \<Longrightarrow> I (drain_all f now ft)"
  unfolding drain_all_eq
  by (rule expire_all) (auto dest: entries ok simp: fm_ok_def)

lemma runs_on: "I ft \<Longrightarrow> (\<And>pkt. Process pkt \<in> set cs \<Longrightarrow> good pkt) \<Longrightarrow> I (run place f cs ft)"
proof (induction cs arbitrary: ft)
  case (Cons c cs)
  have "I (apply_call place f c ft)"
    using Cons.prems by (cases c) (simp_all add: process_on timer_sweep drain_all)
  then show ?case using Cons by simp
qed simp

end

text \<open>The same for all packets.\<close>

locale table_invariant = table_invariant_on place f "\<lambda>_. True" I
  for place :: "flow_key \<Rightarrow> flow_map \<Rightarrow> nat" and f :: "flow_event \<Rightarrow> 'q \<Rightarrow> bool \<times> 'q"
    and I :: "'q flow_table \<Rightarrow> bool"
begin

lemma process: "I ft \<Longrightarrow> I (process place f pkt ft)"
  by (rule process_on) simp_all

lemma runs: "I ft \<Longrightarrow> I (run place f cs ft)"
  by (rule runs_on) simp_all

end

subsection \<open>The log of events\<close>

text \<open>A callback that also records each event with the callback's answer.\<close>

definition logging ::
  "(flow_event \<Rightarrow> 'q \<Rightarrow> bool \<times> 'q) \<Rightarrow> flow_event \<Rightarrow> 'q \<times> (flow_event \<times> bool) list \<Rightarrow>
   bool \<times> 'q \<times> (flow_event \<times> bool) list" where
  "logging f e s = (let (taken, q) = f e (fst s) in (taken, q, snd s @ [(e, taken)]))"

text \<open>Recording changes nothing else: dropping the log gives the unrecorded run.\<close>

definition forget :: "('q \<times> (flow_event \<times> bool) list) flow_table \<Rightarrow> 'q flow_table" where
  "forget ft =
     \<lparr>ft_cfg = ft_cfg ft, ft_metrics = ft_metrics ft, ft_sink = fst (ft_sink ft),
      ft_flows = ft_flows ft, ft_last_heartbeat_us = ft_last_heartbeat_us ft,
      ft_idle_timeout_us = ft_idle_timeout_us ft, ft_stats_interval_us = ft_stats_interval_us ft,
      ft_drop_count = ft_drop_count ft, ft_log = ft_log ft\<rparr>"

definition emitted :: "('q \<times> (flow_event \<times> bool) list) flow_table \<Rightarrow> flow_event list" where
  "emitted ft = map fst (snd (ft_sink ft))"

text \<open>The number of events the callback did not take.\<close>

definition rejected :: "('q \<times> (flow_event \<times> bool) list) flow_table \<Rightarrow> nat" where
  "rejected ft = length (filter (\<lambda>(e, taken). \<not> taken) (snd (ft_sink ft)))"

lemma emitted_frame [simp]:
  "emitted (on_metrics g ft) = emitted ft" "emitted (store m ft) = emitted ft"
  "emitted (ft\<lparr>ft_last_heartbeat_us := now\<rparr>) = emitted ft"
  "rejected (on_metrics g ft) = rejected ft" "rejected (store m ft) = rejected ft"
  "rejected (ft\<lparr>ft_last_heartbeat_us := now\<rparr>) = rejected ft"
  by (simp_all add: emitted_def rejected_def)

lemma emitted_emit [simp]: "emitted (emit (logging f) e ft) = emitted ft @ [e]"
  by (simp add: emitted_def logging_def split_beta Let_def)

lemma ft_metrics_emit_logging:
  "ft_metrics (emit (logging f) e ft) x - (if x = PacketsDropped then int (rejected (emit (logging f) e ft)) else 0) =
    ft_metrics ft x - (if x = PacketsDropped then int (rejected ft) else 0)"
  by (simp add: ft_metrics_emit rejected_def logging_def split_beta Let_def)

lemma forget_emit: "forget (emit (logging f) e ft) = emit f e (forget ft)"
  by (simp add: forget_def emit_def logging_def on_metrics_def warn_def split_beta Let_def)

lemma forget_frame [simp]:
  "forget (on_metrics g ft) = on_metrics g (forget ft)" "forget (store m ft) = store m (forget ft)"
  "forget (ft\<lparr>ft_last_heartbeat_us := now\<rparr>) = (forget ft)\<lparr>ft_last_heartbeat_us := now\<rparr>"
  "forget (refuse ft) = refuse (forget ft)"
  "ft_cfg (forget ft) = ft_cfg ft" "ft_flows (forget ft) = ft_flows ft"
  "ft_metrics (forget ft) = ft_metrics ft" "ft_sink (forget ft) = fst (ft_sink ft)"
  "ft_last_heartbeat_us (forget ft) = ft_last_heartbeat_us ft"
  "ft_idle_timeout_us (forget ft) = ft_idle_timeout_us ft"
  "ft_stats_interval_us (forget ft) = ft_stats_interval_us ft"
  "at_limit (forget ft) = at_limit ft"
  by (simp_all add: forget_def on_metrics_def store_def refuse_def warn_def at_limit_def Let_def)

lemma forget_expire_flow: "forget (expire_flow (logging f) e now r ft) = expire_flow f e now r (forget ft)"
  by (cases e) (simp add: expire_flow_eq forget_emit)

lemma forget_expire_all:
  "forget (expire_all (logging f) now es ft) = expire_all f now es (forget ft)"
  unfolding expire_all_def by (induction es arbitrary: ft) (simp_all add: forget_expire_flow)

lemma forget_stats_all:
  "forget (fold (\<lambda>e. emit (logging f) (stats_event now (snd e))) es ft) =
    fold (\<lambda>e. emit f (stats_event now (snd e))) es (forget ft)"
  by (induction es arbitrary: ft) (simp_all add: forget_emit)

lemma forget_apply_call:
  "fm_ok (ft_flows ft) \<Longrightarrow>
    forget (apply_call place (logging f) c ft) = apply_call place f c (forget ft)"
  by (cases c) (simp_all add: process_eq admit_def forget_emit forget_expire_flow timer_sweep_eq
      drain_all_eq forget_expire_all forget_stats_all Let_def split: option.split)

end
