(* ===== verification/Flow_Table_Counts.thy ===== *)
theory Flow_Table_Counts
  imports Flow_Table_Runs
begin

section \<open>Counters incremented beside the flow table\<close>

text \<open>
  No operation of the table reads a counter, so an increment made by somebody else commutes with all of
  them: the packets that do not decode, which the sources count as dropped, and the packet \<open>process\<close> counts as
  received before it takes the mutex.
\<close>

definition plus_count :: "metric_id \<Rightarrow> int \<Rightarrow> 'q flow_table \<Rightarrow> 'q flow_table" where
  "plus_count x n ft = on_metrics (\<lambda>m. m(x := m x + n)) ft"

lemma received_plus: "received ft = plus_count PacketsReceived 1 ft"
  by (simp add: plus_count_def on_metrics_def Increment_def)

lemma plus_count_0 [simp]: "plus_count x 0 ft = ft"
  by (simp add: plus_count_def on_metrics_def)

lemma plus_count_plus: "plus_count x n (plus_count y k ft) = plus_count y k (plus_count x n ft)"
  by (auto simp: plus_count_def on_metrics_def fun_eq_iff)

lemma plus_count_Increment:
  "on_metrics (Increment y) (plus_count x n ft) = plus_count x n (on_metrics (Increment y) ft)"
  by (auto simp: plus_count_def on_metrics_def Increment_def fun_eq_iff)

lemma plus_count_Decrement:
  "on_metrics (Decrement y) (plus_count x n ft) = plus_count x n (on_metrics (Decrement y) ft)"
  by (auto simp: plus_count_def on_metrics_def Decrement_def fun_eq_iff)

lemma plus_count_frame [simp]:
  "ft_cfg (plus_count x n ft) = ft_cfg ft" "ft_sink (plus_count x n ft) = ft_sink ft"
  "ft_flows (plus_count x n ft) = ft_flows ft"
  "ft_last_heartbeat_us (plus_count x n ft) = ft_last_heartbeat_us ft"
  "ft_idle_timeout_us (plus_count x n ft) = ft_idle_timeout_us ft"
  "ft_stats_interval_us (plus_count x n ft) = ft_stats_interval_us ft"
  "ft_drop_count (plus_count x n ft) = ft_drop_count ft"
  "at_limit (plus_count x n ft) = at_limit ft"
  "ft_metrics (plus_count x n ft) y = ft_metrics ft y + (if y = x then n else 0)"
  by (simp_all add: plus_count_def)

lemma plus_count_fields:
  "store m (plus_count x n ft) = plus_count x n (store m ft)"
  "warn l (plus_count x n ft) = plus_count x n (warn l ft)"
  "(plus_count x n ft)\<lparr>ft_sink := q\<rparr> = plus_count x n (ft\<lparr>ft_sink := q\<rparr>)"
  "(plus_count x n ft)\<lparr>ft_drop_count := c\<rparr> = plus_count x n (ft\<lparr>ft_drop_count := c\<rparr>)"
  "(plus_count x n ft)\<lparr>ft_last_heartbeat_us := t\<rparr> = plus_count x n (ft\<lparr>ft_last_heartbeat_us := t\<rparr>)"
  by (simp_all add: plus_count_def store_on_metrics) (simp_all add: on_metrics_def warn_def)

lemmas plus_count_swap = plus_count_Increment plus_count_Decrement plus_count_fields

lemma plus_count_emit: "emit f e (plus_count x n ft) = plus_count x n (emit f e ft)"
  by (simp add: emit_def plus_count_swap Let_def split: prod.split)

lemma plus_count_expire_flow: "expire_flow f e now r (plus_count x n ft) = plus_count x n (expire_flow f e now r ft)"
  by (cases e) (simp add: expire_flow_eq plus_count_swap plus_count_emit)

lemma plus_count_new:
  "process_new place f pkt (key_from_packet pkt) (plus_count x n ft) =
    plus_count x n (process_new place f pkt (key_from_packet pkt) ft)"
  by (simp add: process_new_eq refuse_def admit_def plus_count_swap plus_count_emit Let_def)

lemma plus_count_existing:
  "process_existing f pkt k s (plus_count x n ft) = plus_count x n (process_existing f pkt k s ft)"
  by (simp add: process_existing_eq plus_count_swap plus_count_expire_flow Let_def)

lemma plus_count_process: "process place f pkt (plus_count x n ft) = plus_count x n (process place f pkt ft)"
  by (simp add: process_def plus_count_swap plus_count_new plus_count_existing Let_def split: option.split)

lemma plus_count_stats_all:
  "fold (\<lambda>e. emit f (stats_event now (snd e))) es (plus_count x n ft) =
    plus_count x n (fold (\<lambda>e. emit f (stats_event now (snd e))) es ft)"
  by (induction es arbitrary: ft) (simp_all add: plus_count_emit)

lemma plus_count_sweep_loop:
  "sweep_loop f now b es acc (plus_count x n ft) =
    (fst (sweep_loop f now b es acc ft), plus_count x n (snd (sweep_loop f now b es acc ft)))"
  by (simp add: sweep_loop_eq plus_count_stats_all)

lemma plus_count_expire_loop: "expire_loop f now ks (plus_count x n ft) = plus_count x n (expire_loop f now ks ft)"
  by (induction ks arbitrary: ft) (simp_all add: plus_count_expire_flow split: option.split)

lemma plus_count_drain_loop: "drain_loop f now es (plus_count x n ft) = plus_count x n (drain_loop f now es ft)"
  by (induction es arbitrary: ft) (simp_all add: drain_loop_Cons plus_count_expire_flow del: drain_loop.simps(2))

lemma plus_count_timer_sweep: "timer_sweep f now (plus_count x n ft) = plus_count x n (timer_sweep f now ft)"
  by (simp add: timer_sweep_def plus_count_sweep_loop plus_count_expire_loop plus_count_swap split_beta Let_def)

lemma plus_count_drain_all: "drain_all f now (plus_count x n ft) = plus_count x n (drain_all f now ft)"
  by (simp add: drain_all_def plus_count_drain_loop)

lemma plus_count_apply_call: "apply_call place f c (plus_count x n ft) = plus_count x n (apply_call place f c ft)"
  by (cases c) (simp_all add: plus_count_process plus_count_timer_sweep plus_count_drain_all)

lemma plus_count_run: "run place f cs (plus_count x n ft) = plus_count x n (run place f cs ft)"
  by (induction cs arbitrary: ft) (simp_all add: plus_count_apply_call)

text \<open>\<open>drops d ft\<close>: the table after \<open>d\<close> further packets that did not decode.\<close>

definition drops :: "nat \<Rightarrow> 'q flow_table \<Rightarrow> 'q flow_table" where
  "drops d = plus_count PacketsDropped (int d)"

lemma drops_0 [simp]: "drops 0 ft = ft"
  by (simp add: drops_def)

lemma Increment_drops: "on_metrics (Increment PacketsDropped) (drops d ft) = drops (Suc d) ft"
  by (simp add: drops_def plus_count_def on_metrics_def Increment_def algebra_simps)

lemma drops_frame [simp]:
  "ft_cfg (drops d ft) = ft_cfg ft" "ft_sink (drops d ft) = ft_sink ft"
  "ft_flows (drops d ft) = ft_flows ft"
  "ft_last_heartbeat_us (drops d ft) = ft_last_heartbeat_us ft"
  "ft_idle_timeout_us (drops d ft) = ft_idle_timeout_us ft"
  "ft_stats_interval_us (drops d ft) = ft_stats_interval_us ft"
  "ft_drop_count (drops d ft) = ft_drop_count ft"
  "at_limit (drops d ft) = at_limit ft"
  "ft_metrics (drops d ft) x = ft_metrics ft x + (if x = PacketsDropped then int d else 0)"
  by (simp_all add: drops_def)

lemma drops_received: "received (drops d ft) = drops d (received ft)"
  by (simp add: drops_def plus_count_Increment)

lemma drops_process: "process place f pkt (drops d ft) = drops d (process place f pkt ft)"
  by (simp add: drops_def plus_count_process)

lemma drops_apply_call: "apply_call place f c (drops d ft) = drops d (apply_call place f c ft)"
  by (simp add: drops_def plus_count_apply_call)

lemma drops_drain_all: "drain_all f now (drops d ft) = drops d (drain_all f now ft)"
  by (simp add: drops_def plus_count_drain_all)

lemma drops_run: "run place f cs (drops d ft) = drops d (run place f cs ft)"
  by (simp add: drops_def plus_count_run)

end
