(* ===== verification/Table_Lock.thy ===== *)
theory Table_Lock
  imports Flow_Table_Counts
begin

section \<open>The mutex of the flow table\<close>

text \<open>
  \<open>process\<close> and \<open>drain_all\<close> are called by the main thread, \<open>timer_sweep\<close> by the timer thread.  Here their bodies are
  split into steps, one per lookup, branch and turn of a loop, and the two threads are interleaved step by step.  Only the
  step that takes the mutex looks at its owner; that the bodies exclude each other, and that a run
  is therefore a sequence of whole calls, is proved.  \<open>process\<close> counts its packet before it takes the mutex, and the source
  counts the packets that do not decode without it.
\<close>

datatype thread = Main_Thread | Timer_Thread

datatype table_pc =
    Outside
  | Counting parsed_packet
  | Locking ft_call
  | At_Find parsed_packet
  | At_New parsed_packet
  | At_Existing parsed_packet flow_state
  | At_Sweep i64
  | In_Sweep i64 bool flow_map "flow_key list"
  | In_Expire i64 bool "flow_key list"
  | At_Drain i64
  | In_Drain i64 flow_map
  | Unlocking

fun body_entry :: "ft_call \<Rightarrow> table_pc" where
  "body_entry (Process pkt) = At_Find pkt"
| "body_entry (Sweep now) = At_Sweep now"
| "body_entry (Drain now) = At_Drain now"

fun in_body :: "table_pc \<Rightarrow> bool" where
  "in_body Outside = False"
| "in_body (Counting _) = False"
| "in_body (Locking _) = False"
| "in_body Unlocking = False"
| "in_body _ = True"

text \<open>One step of a body.\<close>

fun table_step ::
  "(flow_key \<Rightarrow> flow_map \<Rightarrow> nat) \<Rightarrow> (flow_event \<Rightarrow> 'q \<Rightarrow> bool \<times> 'q) \<Rightarrow>
   table_pc \<times> 'q flow_table \<Rightarrow> table_pc \<times> 'q flow_table" where
  "table_step place f (At_Find pkt, ft) =
     (case fm_find (key_from_packet pkt) (ft_flows ft) of
        None \<Rightarrow> (At_New pkt, ft)
      | Some state \<Rightarrow> (At_Existing pkt state, ft))"
| "table_step place f (At_New pkt, ft) = (Unlocking, process_new place f pkt (key_from_packet pkt) ft)"
| "table_step place f (At_Existing pkt state, ft) =
     (Unlocking, process_existing f pkt (key_from_packet pkt) state ft)"
| "table_step place f (At_Sweep now_us, ft) =
     (In_Sweep now_us (ft_stats_interval_us ft \<le>s now_us - ft_last_heartbeat_us ft) (ft_flows ft) [], ft)"
| "table_step place f (In_Sweep now_us emit_stats [] to_expire, ft) = (In_Expire now_us emit_stats to_expire, ft)"
| "table_step place f (In_Sweep now_us emit_stats ((key, state) # rest) to_expire, ft) =
     (if ft_idle_timeout_us ft \<le>s now_us - fs_last_seen_us state then
        (In_Sweep now_us emit_stats rest (to_expire @ [key]), ft)
      else
        (In_Sweep now_us emit_stats rest to_expire,
         if emit_stats then
           emit f (default_flow_event\<lparr>ev_type := Stats, ev_state := state, ev_timestamp_us := now_us\<rparr>) ft
         else ft))"
| "table_step place f (In_Expire now_us emit_stats [], ft) =
     (Unlocking, if emit_stats then ft\<lparr>ft_last_heartbeat_us := now_us\<rparr> else ft)"
| "table_step place f (In_Expire now_us emit_stats (key # keys), ft) =
     (In_Expire now_us emit_stats keys,
      case fm_find key (ft_flows ft) of
        None \<Rightarrow> ft
      | Some state \<Rightarrow> expire_flow f (key, state) now_us IdleTimeout ft)"
| "table_step place f (At_Drain now_us, ft) = (In_Drain now_us (ft_flows ft), ft)"
| "table_step place f (In_Drain now_us [], ft) = (Unlocking, ft)"
| "table_step place f (In_Drain now_us (it # rest), ft) = (In_Drain now_us rest, drain_loop f now_us [it] ft)"
| "table_step place f (pc, ft) = (pc, ft)"

record 'q locked =
  lk_table :: "'q flow_table"
  lk_owner :: "thread option"
  lk_pc :: "thread \<Rightarrow> table_pc"
  lk_calls :: "ft_call list"
  lk_drops :: nat

text \<open>
  \<open>lk_calls\<close> records the calls in the order in which they take the mutex, \<open>lk_drops\<close> counts the
  packets that the main thread's source could not decode.
\<close>

definition unlocked :: "'q flow_table \<Rightarrow> 'q locked" where
  "unlocked ft = \<lparr>lk_table = ft, lk_owner = None, lk_pc = (\<lambda>_. Outside), lk_calls = [], lk_drops = 0\<rparr>"

abbreviation goto :: "thread \<Rightarrow> table_pc \<Rightarrow> 'q locked \<Rightarrow> 'q locked" where
  "goto t pc s \<equiv> s\<lparr>lk_pc := (lk_pc s)(t := pc)\<rparr>"

inductive lock_step ::
  "(flow_key \<Rightarrow> flow_map \<Rightarrow> nat) \<Rightarrow> (flow_event \<Rightarrow> 'q \<Rightarrow> bool \<times> 'q) \<Rightarrow> 'q locked \<Rightarrow> 'q locked \<Rightarrow> bool"
  for place :: "flow_key \<Rightarrow> flow_map \<Rightarrow> nat" and f :: "flow_event \<Rightarrow> 'q \<Rightarrow> bool \<times> 'q"
where
  call_process: "lk_pc s Main_Thread = Outside \<Longrightarrow> lock_step place f s (goto Main_Thread (Counting pkt) s)"
| count: "lk_pc s t = Counting pkt \<Longrightarrow>
    lock_step place f s (goto t (Locking (Process pkt)) (s\<lparr>lk_table := received (lk_table s)\<rparr>))"
| drop_packet: "lk_pc s Main_Thread = Outside \<Longrightarrow>
    lock_step place f s (s\<lparr>lk_table := on_metrics (Increment PacketsDropped) (lk_table s), lk_drops := Suc (lk_drops s)\<rparr>)"
| call_drain: "lk_pc s Main_Thread = Outside \<Longrightarrow> lock_step place f s (goto Main_Thread (Locking (Drain now)) s)"
| call_sweep: "lk_pc s Timer_Thread = Outside \<Longrightarrow> lock_step place f s (goto Timer_Thread (Locking (Sweep now)) s)"
| lock: "lk_pc s t = Locking c \<Longrightarrow> lk_owner s = None \<Longrightarrow>
    lock_step place f s (goto t (body_entry c) (s\<lparr>lk_owner := Some t, lk_calls := lk_calls s @ [c]\<rparr>))"
| body: "in_body (lk_pc s t) \<Longrightarrow> table_step place f (lk_pc s t, lk_table s) = (pc, ft) \<Longrightarrow>
    lock_step place f s (goto t pc (s\<lparr>lk_table := ft\<rparr>))"
| unlock: "lk_pc s t = Unlocking \<Longrightarrow> lock_step place f s (goto t Outside (s\<lparr>lk_owner := None\<rparr>))"

definition lock_reachable ::
  "(flow_key \<Rightarrow> flow_map \<Rightarrow> nat) \<Rightarrow> (flow_event \<Rightarrow> 'q \<Rightarrow> bool \<times> 'q) \<Rightarrow> 'q flow_table \<Rightarrow> 'q locked \<Rightarrow> bool" where
  "lock_reachable place f ft s \<longleftrightarrow> (lock_step place f)\<^sup>*\<^sup>* (unlocked ft) s"

subsection \<open>What is left of a call\<close>

fun finish ::
  "(flow_key \<Rightarrow> flow_map \<Rightarrow> nat) \<Rightarrow> (flow_event \<Rightarrow> 'q \<Rightarrow> bool \<times> 'q) \<Rightarrow>
   table_pc \<Rightarrow> 'q flow_table \<Rightarrow> 'q flow_table" where
  "finish place f (At_Find pkt) ft =
     (case fm_find (key_from_packet pkt) (ft_flows ft) of
        None \<Rightarrow> process_new place f pkt (key_from_packet pkt) ft
      | Some state \<Rightarrow> process_existing f pkt (key_from_packet pkt) state ft)"
| "finish place f (At_New pkt) ft = process_new place f pkt (key_from_packet pkt) ft"
| "finish place f (At_Existing pkt state) ft = process_existing f pkt (key_from_packet pkt) state ft"
| "finish place f (At_Sweep now) ft = timer_sweep f now ft"
| "finish place f (In_Sweep now emit_stats rest to_expire) ft =
     (let (to_expire, ft) = sweep_loop f now emit_stats rest to_expire ft;
          ft = expire_loop f now to_expire ft
      in if emit_stats then ft\<lparr>ft_last_heartbeat_us := now\<rparr> else ft)"
| "finish place f (In_Expire now emit_stats keys) ft =
     (let ft = expire_loop f now keys ft
      in if emit_stats then ft\<lparr>ft_last_heartbeat_us := now\<rparr> else ft)"
| "finish place f (At_Drain now) ft = drain_all f now ft"
| "finish place f (In_Drain now rest) ft = drain_loop f now rest ft"
| "finish place f pc ft = ft"

lemma finish_step: "table_step place f (pc, ft) = (pc', ft') \<Longrightarrow> finish place f pc' ft' = finish place f pc ft"
  by (induction "(pc, ft)" rule: table_step.induct)
    (auto simp: timer_sweep_def drain_all_def Let_def split: option.splits if_splits prod.splits)

lemma finish_entry:
  "finish place f (body_entry c) (case c of Process pkt \<Rightarrow> received ft | _ \<Rightarrow> ft) = apply_call place f c ft"
  by (cases c) (simp_all add: process_def Let_def)

text \<open>A counter incremented by the other thread makes no difference to what is left.\<close>

lemma finish_plus_count: "finish place f pc (plus_count x n ft) = plus_count x n (finish place f pc ft)"
  by (cases pc)
    (simp_all add: plus_count_new plus_count_existing plus_count_timer_sweep plus_count_drain_all
      plus_count_sweep_loop plus_count_expire_loop plus_count_drain_loop plus_count_fields Let_def split_beta
      split: option.split)

lemma finish_received: "finish place f pc (received ft) = received (finish place f pc ft)"
  by (simp only: received_plus finish_plus_count)

lemma finish_dropped: "finish place f pc (on_metrics (Increment PacketsDropped) ft) =
    on_metrics (Increment PacketsDropped) (finish place f pc ft)"
proof -
  have "on_metrics (Increment PacketsDropped) ft = plus_count PacketsDropped 1 ft" for ft :: "'a flow_table"
    by (simp add: plus_count_def on_metrics_def Increment_def)
  then show ?thesis by (simp only: finish_plus_count)
qed

subsection \<open>The invariant\<close>

abbreviation holds_mutex :: "table_pc \<Rightarrow> bool" where
  "holds_mutex pc \<equiv> in_body pc \<or> pc = Unlocking"

definition early :: "table_pc \<Rightarrow> 'q flow_table \<Rightarrow> 'q flow_table" where
  "early pc ft = (case pc of Locking (Process pkt) \<Rightarrow> received ft | _ \<Rightarrow> ft)"

definition completed ::
  "(flow_key \<Rightarrow> flow_map \<Rightarrow> nat) \<Rightarrow> (flow_event \<Rightarrow> 'q \<Rightarrow> bool \<times> 'q) \<Rightarrow> 'q locked \<Rightarrow> 'q flow_table" where
  "completed place f s =
     (case lk_owner s of None \<Rightarrow> lk_table s | Some t \<Rightarrow> finish place f (lk_pc s t) (lk_table s))"

definition lock_inv ::
  "(flow_key \<Rightarrow> flow_map \<Rightarrow> nat) \<Rightarrow> (flow_event \<Rightarrow> 'q \<Rightarrow> bool \<times> 'q) \<Rightarrow> 'q flow_table \<Rightarrow> 'q locked \<Rightarrow> bool" where
  "lock_inv place f ft s \<longleftrightarrow>
     (\<forall>t. holds_mutex (lk_pc s t) \<longleftrightarrow> lk_owner s = Some t) \<and>
     (\<forall>pkt. lk_pc s Timer_Thread \<noteq> Counting pkt) \<and>
     (\<forall>c. lk_pc s Timer_Thread = Locking c \<longrightarrow> (\<exists>now. c = Sweep now)) \<and>
     completed place f s = drops (lk_drops s) (early (lk_pc s Main_Thread) (run place f (lk_calls s) ft))"

lemma holds_entry [simp]: "in_body (body_entry c)" "body_entry c \<noteq> Unlocking" "body_entry c \<noteq> Locking d"
  "body_entry c \<noteq> Counting pkt"
  by (cases c; simp)+

lemma table_step_holds:
  "in_body pc \<Longrightarrow> table_step place f (pc, ft) = (pc', ft') \<Longrightarrow> holds_mutex pc'"
  by (induction "(pc, ft)" rule: table_step.induct) (auto split: option.splits if_splits)

lemma holds_not [simp]: "holds_mutex pc \<Longrightarrow> early pc ft = ft"
  by (cases pc) (simp_all add: early_def)

lemma early_drops: "early pc (drops d ft) = drops d (early pc ft)"
  by (simp add: early_def drops_received split: table_pc.split ft_call.split)

lemma lock_inv_owner: "lock_inv place f ft s \<Longrightarrow> holds_mutex (lk_pc s t) \<longleftrightarrow> lk_owner s = Some t"
  by (simp add: lock_inv_def)

lemma completed_goto:
  "lk_owner s \<noteq> Some t \<Longrightarrow> completed place f (goto t pc s) = completed place f s"
  by (auto simp: completed_def split: option.split)

lemma lock_inv_outside:
  fixes s :: "'q locked"
  assumes inv: "lock_inv place f ft s" and pc: "\<not> holds_mutex (lk_pc s t)" "\<not> holds_mutex pc"
    and kind: "t = Timer_Thread \<Longrightarrow> (\<forall>pkt. pc \<noteq> Counting pkt) \<and> (\<forall>c. pc = Locking c \<longrightarrow> (\<exists>now. c = Sweep now))"
    and early: "\<And>ft :: 'q flow_table. t = Main_Thread \<Longrightarrow> early pc ft = early (lk_pc s Main_Thread) ft"
  shows "lock_inv place f ft (goto t pc s)"
proof -
  have "lk_owner s \<noteq> Some t" using lock_inv_owner [OF inv, of t] pc(1) by simp
  then have "completed place f (goto t pc s) = completed place f s" by (rule completed_goto)
  with inv pc(2) \<open>lk_owner s \<noteq> Some t\<close> kind early show ?thesis
    unfolding lock_inv_def by (cases t) (simp_all del: not_Some_eq)
qed

lemma lock_inv_step:
  assumes "lock_step place f s s'" and inv: "lock_inv place f ft s"
  shows "lock_inv place f ft s'"
  using assms(1)
proof cases
  case (call_process pkt)
  show ?thesis unfolding call_process(1)
    by (rule lock_inv_outside [OF inv]) (simp_all add: call_process(2) early_def)
next
  case (count t pkt)
  with inv have t: "t = Main_Thread" by (cases t) (auto simp: lock_inv_def)
  have owner: "lk_owner s \<noteq> Some t" using lock_inv_owner [OF inv, of t] count(2) by simp
  have "completed place f s' = received (completed place f s)"
    using owner unfolding count(1) by (auto simp: completed_def finish_received split: option.split)
  with inv owner count t show ?thesis by (simp add: lock_inv_def early_def drops_received)
next
  case drop_packet
  have "completed place f s' = on_metrics (Increment PacketsDropped) (completed place f s)"
    by (simp add: drop_packet(1) completed_def finish_dropped split: option.split)
  with inv drop_packet show ?thesis by (simp add: lock_inv_def Increment_drops)
next
  case (call_drain now)
  show ?thesis unfolding call_drain(1)
    by (rule lock_inv_outside [OF inv]) (simp_all add: call_drain(2) early_def)
next
  case (call_sweep now)
  show ?thesis unfolding call_sweep(1)
    by (rule lock_inv_outside [OF inv]) (simp_all add: call_sweep(2))
next
  case (lock t c)
  let ?ft = "drops (lk_drops s) (run place f (lk_calls s) ft)"
  have table: "lk_table s = drops (lk_drops s) (early (lk_pc s Main_Thread) (run place f (lk_calls s) ft))"
    using inv lock(3) by (simp add: lock_inv_def completed_def)
  have sweep: "\<exists>now. c = Sweep now" if "t = Timer_Thread"
    using inv lock(2) that by (simp add: lock_inv_def)
  have "completed place f s' = finish place f (body_entry c) (lk_table s)"
    by (simp add: lock(1) completed_def)
  also have "\<dots> = early (lk_pc s' Main_Thread) (apply_call place f c ?ft)"
  proof (cases t)
    case Main_Thread
    then have "lk_table s = (case c of Process pkt \<Rightarrow> received ?ft | _ \<Rightarrow> ?ft)"
      using lock(2) by (simp add: table early_def drops_received split: ft_call.split)
    then show ?thesis using Main_Thread by (simp only: finish_entry) (simp add: lock(1))
  next
    case Timer_Thread
    then obtain now where c: "c = Sweep now" using sweep by blast
    have "lk_table s = early (lk_pc s Main_Thread) ?ft" by (simp add: table early_drops)
    then show ?thesis
      by (simp add: lock(1) Timer_Thread c early_def finish_received [where pc = "At_Sweep now", simplified]
          split: table_pc.split ft_call.split)
  qed
  also have "\<dots> = drops (lk_drops s') (early (lk_pc s' Main_Thread) (run place f (lk_calls s') ft))"
    by (simp add: lock(1) early_drops drops_apply_call)
  finally have "completed place f s' = drops (lk_drops s') (early (lk_pc s' Main_Thread) (run place f (lk_calls s') ft))" .
  with inv lock show ?thesis by (auto simp: lock_inv_def)
next
  case (body t pc ft')
  have pc: "holds_mutex pc" by (rule table_step_holds [OF body(2,3)])
  have owner: "lk_owner s = Some t" using lock_inv_owner [OF inv, of t] body(2) by simp
  have "completed place f s' = completed place f s"
    using finish_step [OF body(3)] by (simp add: body(1) completed_def owner)
  with inv pc body(1,2) owner show ?thesis by (auto simp: lock_inv_def)
next
  case (unlock t)
  have owner: "lk_owner s = Some t" using lock_inv_owner [OF inv, of t] unlock(2) by simp
  have "completed place f s' = completed place f s"
    by (simp add: unlock completed_def owner)
  moreover have "\<not> holds_mutex (lk_pc s u)" if "u \<noteq> t" for u
    using that owner lock_inv_owner [OF inv, of u] by simp
  ultimately show ?thesis using inv unlock owner by (cases t) (auto simp: lock_inv_def early_def)
qed

lemma lock_inv_reachable:
  assumes "lock_reachable place f ft s"
  shows "lock_inv place f ft s"
proof -
  have "lock_inv place f ft (unlocked ft)" by (simp add: lock_inv_def unlocked_def completed_def early_def)
  with assms show ?thesis
    unfolding lock_reachable_def by (induction rule: rtranclp_induct) (auto intro: lock_inv_step)
qed

text \<open>Only a step of a body calls the callback of the table.\<close>

lemma sink_under_lock:
  assumes "lock_step place f s s'" and "ft_sink (lk_table s') \<noteq> ft_sink (lk_table s)"
  shows "\<exists>t. in_body (lk_pc s t) \<and> (\<forall>u. u \<noteq> t \<longrightarrow> lk_pc s' u = lk_pc s u)"
  using assms by cases auto

text \<open>A sweep that has the mutex, and a packet counted and waiting for it.\<close>

definition contended :: "unit locked" where
  "contended =
     \<lparr>lk_table = received (FlowTable default_config metrics_zero ()), lk_owner = Some Timer_Thread,
      lk_pc = (\<lambda>t. case t of Main_Thread \<Rightarrow> Locking (Process default_packet) | Timer_Thread \<Rightarrow> At_Sweep 5),
      lk_calls = [Sweep 5], lk_drops = 0\<rparr>"

lemma contended_reachable:
  "lock_reachable (\<lambda>_ _. 0) (\<lambda>e q. (True, q)) (FlowTable default_config metrics_zero ()) contended"
proof -
  let ?ft = "FlowTable default_config metrics_zero () :: unit flow_table"
  let ?step = "lock_step (\<lambda>_ _. 0) (\<lambda>e q. (True, q)) :: unit locked \<Rightarrow> _"
  let ?s1 = "goto Timer_Thread (Locking (Sweep 5)) (unlocked ?ft)"
  let ?s2 = "goto Timer_Thread (body_entry (Sweep 5))
    (?s1\<lparr>lk_owner := Some Timer_Thread, lk_calls := lk_calls ?s1 @ [Sweep 5]\<rparr>)"
  let ?s3 = "goto Main_Thread (Counting default_packet) ?s2"
  let ?s4 = "goto Main_Thread (Locking (Process default_packet)) (?s3\<lparr>lk_table := received (lk_table ?s3)\<rparr>)"
  have "?step (unlocked ?ft) ?s1" by (rule lock_step.call_sweep) (simp add: unlocked_def)
  moreover have "?step ?s1 ?s2" by (rule lock_step.lock) (simp_all add: unlocked_def)
  moreover have "?step ?s2 ?s3" by (rule lock_step.call_process) (simp add: unlocked_def)
  moreover have "?step ?s3 ?s4" by (rule lock_step.count) simp
  ultimately have "?step\<^sup>*\<^sup>* (unlocked ?ft) ?s4"
    by (meson converse_rtranclp_into_rtranclp r_into_rtranclp)
  moreover have "?s4 = contended"
    by (simp add: contended_def unlocked_def fun_eq_iff split: thread.split)
  ultimately show ?thesis by (simp add: lock_reachable_def)
qed

text \<open>
  C11.  The mutex makes a run of the table a sequence of whole calls.  In every reachable state at most one
  thread is inside a body; events are handed to the callback only by the thread that owns the mutex, so the queue has
  one producer at a time; and the table is the result of the calls made so far, in the order in which they took
  the mutex: as it stands when nobody owns it, else once the owner has finished its call.  The only traces of
  what happens without it are counters: the packet a waiting \<open>process\<close> has counted as received, and the packets
  that did not decode.
\<close>

theorem table_serializable:
  assumes "lock_reachable place f ft s"
  shows "(holds_mutex (lk_pc s t) \<and> holds_mutex (lk_pc s u) \<longrightarrow> t = u) \<and>
    (lock_step place f s s' \<and> ft_sink (lk_table s') \<noteq> ft_sink (lk_table s) \<longrightarrow>
      (\<exists>t. lk_owner s = Some t \<and> (\<forall>u. u \<noteq> t \<longrightarrow> \<not> holds_mutex (lk_pc s' u)))) \<and>
    (case lk_owner s of None \<Rightarrow> lk_table s | Some t \<Rightarrow> finish place f (lk_pc s t) (lk_table s)) =
      drops (lk_drops s)
        ((if \<exists>pkt. lk_pc s Main_Thread = Locking (Process pkt) then received else id) (run place f (lk_calls s) ft))"
proof -
  note inv = lock_inv_reachable [OF assms]
  have "t = u" if "holds_mutex (lk_pc s t)" "holds_mutex (lk_pc s u)" for t u
    using that lock_inv_owner [OF inv, of t] lock_inv_owner [OF inv, of u] by simp
  moreover have "\<exists>t. lk_owner s = Some t \<and> (\<forall>u. u \<noteq> t \<longrightarrow> \<not> holds_mutex (lk_pc s' u))"
    if step: "lock_step place f s s'" "ft_sink (lk_table s') \<noteq> ft_sink (lk_table s)"
  proof -
    from sink_under_lock [OF step] obtain t where "in_body (lk_pc s t)" "\<forall>u. u \<noteq> t \<longrightarrow> lk_pc s' u = lk_pc s u"
      by blast
    with lock_inv_owner [OF inv] show ?thesis by (metis option.inject)
  qed
  moreover have "early (lk_pc s Main_Thread) (run place f (lk_calls s) ft) =
      (if \<exists>pkt. lk_pc s Main_Thread = Locking (Process pkt) then received else id) (run place f (lk_calls s) ft)"
    by (auto simp: early_def split: table_pc.split ft_call.split)
  ultimately show ?thesis using inv unfolding lock_inv_def completed_def by metis
qed

theorem table_serializable_witness:
  "finish (\<lambda>_ _. 0) (\<lambda>e q. (True, q)) (At_Sweep 5) (lk_table contended) =
    received (run (\<lambda>_ _. 0) (\<lambda>e q. (True, q)) [Sweep 5] (FlowTable default_config metrics_zero ()))"
  using table_serializable [OF contended_reachable] by (simp add: contended_def)

subsection \<open>Every call ends\<close>

fun steps_left :: "table_pc \<times> 'q flow_table \<Rightarrow> nat" where
  "steps_left (At_Find pkt, ft) = 2"
| "steps_left (At_New pkt, ft) = 1"
| "steps_left (At_Existing pkt s, ft) = 1"
| "steps_left (At_Sweep now, ft) = 2 * length (ft_flows ft) + 3"
| "steps_left (In_Sweep now b rest keys, ft) = 2 * length rest + length keys + 2"
| "steps_left (In_Expire now b keys, ft) = length keys + 1"
| "steps_left (At_Drain now, ft) = length (ft_flows ft) + 2"
| "steps_left (In_Drain now rest, ft) = length rest + 1"
| "steps_left (pc, ft) = 0"

lemma table_step_progress: "in_body pc \<Longrightarrow> steps_left (table_step place f (pc, ft)) < steps_left (pc, ft)"
  by (induction place f "(pc, ft)" rule: table_step.induct) (auto split: option.split)

text \<open>
  The steps of the calls that have been made: no thread makes a further call, and the source drops no
  packet.
\<close>

definition inner_step ::
  "(flow_key \<Rightarrow> flow_map \<Rightarrow> nat) \<Rightarrow> (flow_event \<Rightarrow> 'q \<Rightarrow> bool \<times> 'q) \<Rightarrow> 'q locked \<Rightarrow> 'q locked \<Rightarrow> bool" where
  "inner_step place f s s' \<longleftrightarrow> lock_step place f s s' \<and> lk_drops s' = lk_drops s \<and>
     (\<forall>t. lk_pc s t = Outside \<longrightarrow> lk_pc s' t = Outside)"

lemma inner_step_cases:
  assumes "inner_step place f s s'"
  obtains (count) t pkt where "lk_pc s t = Counting pkt"
      "s' = goto t (Locking (Process pkt)) (s\<lparr>lk_table := received (lk_table s)\<rparr>)"
  | (lock) t c where "lk_pc s t = Locking c" "lk_owner s = None"
      "s' = goto t (body_entry c) (s\<lparr>lk_owner := Some t, lk_calls := lk_calls s @ [c]\<rparr>)"
  | (body) t pc ft where "in_body (lk_pc s t)" "table_step place f (lk_pc s t, lk_table s) = (pc, ft)"
      "s' = goto t pc (s\<lparr>lk_table := ft\<rparr>)"
  | (unlock) t where "lk_pc s t = Unlocking" "s' = goto t Outside (s\<lparr>lk_owner := None\<rparr>)"
proof -
  from assms have "lock_step place f s s'" and drops: "lk_drops s' = lk_drops s"
    and outside: "\<And>t. lk_pc s t = Outside \<Longrightarrow> lk_pc s' t = Outside"
    by (auto simp: inner_step_def)
  then show thesis
  proof cases
    case (call_process pkt)
    then show thesis using outside [of Main_Thread] by simp
  next
    case (call_drain now)
    then show thesis using outside [of Main_Thread] by simp
  next
    case (call_sweep now)
    then show thesis using outside [of Timer_Thread] by simp
  next
    case drop_packet
    then show thesis using drops by simp
  qed (use that in blast)+
qed

lemma inner_step_inv: "inner_step place f s s' \<Longrightarrow> lock_inv place f ft s \<Longrightarrow> lock_inv place f ft s'"
  unfolding inner_step_def using lock_inv_step by blast

text \<open>Each of them brings the calls nearer to their end: first the calls that wait, then the steps of the owner.\<close>

fun waiting :: "table_pc \<Rightarrow> nat" where
  "waiting (Counting pkt) = 2"
| "waiting (Locking c) = 1"
| "waiting pc = 0"

definition rank :: "'q locked \<Rightarrow> nat \<times> nat" where
  "rank s = (waiting (lk_pc s Main_Thread) + waiting (lk_pc s Timer_Thread),
     case lk_owner s of None \<Rightarrow> 0 | Some t \<Rightarrow> Suc (steps_left (lk_pc s t, lk_table s)))"

lemma waiting_holds [simp]: "holds_mutex pc \<Longrightarrow> waiting pc = 0"
  by (cases pc) simp_all

lemma rank_decreases:
  assumes "inner_step place f s s'" and inv: "lock_inv place f ft s"
  shows "(rank s', rank s) \<in> less_than <*lex*> less_than"
  using assms(1)
proof (cases rule: inner_step_cases)
  case (count t pkt)
  then show ?thesis by (cases t) (simp_all add: rank_def)
next
  case (lock t c)
  have "waiting (body_entry c) = 0" by (rule waiting_holds) simp
  with lock show ?thesis by (cases t) (simp_all add: rank_def)
next
  case (body t pc ft')
  have owner: "lk_owner s = Some t" using lock_inv_owner [OF inv, of t] body(1) by simp
  have zero: "waiting pc = 0" "waiting (lk_pc s t) = 0"
    using table_step_holds [OF body(1,2)] body(1) by (auto intro: waiting_holds)
  have less: "steps_left (pc, ft') < steps_left (lk_pc s t, lk_table s)"
    using table_step_progress [OF body(1), of place f "lk_table s"] body(2) by simp
  from owner zero less body(3) show ?thesis by (cases t) (simp_all add: rank_def)
next
  case (unlock t)
  have "lk_owner s = Some t" using lock_inv_owner [OF inv, of t] unlock(1) by simp
  with unlock show ?thesis by (cases t) (simp_all add: rank_def)
qed

text \<open>Where no such step is possible every call has returned.\<close>

lemma inner_step_exists:
  assumes inv: "lock_inv place f ft s" and "lk_pc s t \<noteq> Outside"
  shows "\<exists>s'. inner_step place f s s'"
proof -
  have holder: ?thesis if "holds_mutex (lk_pc s u)" for u
  proof (cases "lk_pc s u = Unlocking")
    case True
    then show ?thesis
      using lock_step.unlock [where place = place and f = f, OF True] by (auto simp: inner_step_def)
  next
    case False
    then have body: "in_body (lk_pc s u)" using that by simp
    obtain pc ft' where step: "table_step place f (lk_pc s u, lk_table s) = (pc, ft')" by fastforce
    from lock_step.body [OF body step] body show ?thesis
      by (intro exI [of _ "goto u pc (s\<lparr>lk_table := ft'\<rparr>)"]) (auto simp: inner_step_def)
  qed
  show ?thesis
  proof (cases "lk_owner s")
    case (Some u)
    then show ?thesis using holder [of u] lock_inv_owner [OF inv, of u] by simp
  next
    case None
    show ?thesis
    proof (cases "lk_pc s t")
      case (Counting pkt)
      from lock_step.count [where place = place and f = f, OF this] Counting show ?thesis
        by (intro exI [of _ "goto t (Locking (Process pkt)) (s\<lparr>lk_table := received (lk_table s)\<rparr>)"])
          (auto simp: inner_step_def)
    next
      case (Locking c)
      from lock_step.lock [where place = place and f = f, OF this None] Locking show ?thesis
        by (intro exI [of _ "goto t (body_entry c) (s\<lparr>lk_owner := Some t, lk_calls := lk_calls s @ [c]\<rparr>)"])
          (auto simp: inner_step_def)
    qed (use assms(2) holder [of t] in auto)
  qed
qed

text \<open>
  The call a thread has made and that has not taken the mutex; and the two sequences of calls that can
  come out, one for each order of the two threads.
\<close>

definition pending :: "table_pc \<Rightarrow> ft_call list" where
  "pending pc = (case pc of Counting pkt \<Rightarrow> [Process pkt] | Locking c \<Rightarrow> [c] | _ \<Rightarrow> [])"

definition outcomes :: "'q locked \<Rightarrow> ft_call list set" where
  "outcomes s =
     {lk_calls s @ pending (lk_pc s Main_Thread) @ pending (lk_pc s Timer_Thread),
      lk_calls s @ pending (lk_pc s Timer_Thread) @ pending (lk_pc s Main_Thread)}"

lemma pending_holds: "holds_mutex pc \<Longrightarrow> pending pc = []"
  by (cases pc) (simp_all add: pending_def)

lemma pending_simps [simp]:
  "pending Outside = []" "pending (Counting pkt) = [Process pkt]" "pending (Locking c) = [c]" "pending Unlocking = []"
  "pending (body_entry c) = []"
  by (simp_all add: pending_holds) (simp_all add: pending_def)

lemma inner_step_outcomes:
  assumes "inner_step place f s s'"
  shows "outcomes s' \<subseteq> outcomes s \<and> lk_drops s' = lk_drops s"
  using assms
proof (cases rule: inner_step_cases)
  case (count t pkt)
  then show ?thesis by (cases t) (auto simp: outcomes_def)
next
  case (lock t c)
  then show ?thesis by (cases t) (auto simp: outcomes_def)
next
  case (body t pc ft')
  then have "pending pc = []" "pending (lk_pc s t) = []"
    using table_step_holds [OF body(1,2)] by (auto intro: pending_holds)
  with body(3) show ?thesis by (cases t) (auto simp: outcomes_def)
next
  case (unlock t)
  then show ?thesis by (cases t) (auto simp: outcomes_def)
qed

lemma inner_steps:
  assumes "(inner_step place f)\<^sup>*\<^sup>* s s'" and "lock_inv place f ft s"
  shows "lock_inv place f ft s' \<and> outcomes s' \<subseteq> outcomes s \<and> lk_drops s' = lk_drops s"
  using assms
  by (induction rule: rtranclp_induct) (use inner_step_inv inner_step_outcomes in fastforce)+

text \<open>
  C25.  Every call returns, whatever the scheduler does: from a reachable state, as long as no further call
  is made, there is no infinite run, so neither thread waits for ever for the mutex; and a run can only stop where both
  calls have returned, the mutex is free, and the table is the result of all calls, those that were waiting in one
  order or the other.
\<close>

theorem table_calls_return:
  assumes "lock_reachable place f ft s"
  shows "(\<nexists>run. run 0 = s \<and> (\<forall>i. inner_step place f (run i) (run (Suc i)))) \<and>
    (\<forall>s'. (inner_step place f)\<^sup>*\<^sup>* s s' \<and> (\<nexists>s''. inner_step place f s' s'') \<longrightarrow>
      lk_pc s' = (\<lambda>_. Outside) \<and> lk_owner s' = None \<and>
      (\<exists>calls \<in> outcomes s. lk_table s' = drops (lk_drops s) (run place f calls ft)))"
proof (intro conjI allI impI; (elim conjE)?)
  note inv = lock_inv_reachable [OF assms]
  show "\<nexists>run. run 0 = s \<and> (\<forall>i. inner_step place f (run i) (run (Suc i)))"
  proof
    assume "\<exists>run. run 0 = s \<and> (\<forall>i. inner_step place f (run i) (run (Suc i)))"
    then obtain r where r: "r 0 = s" "\<And>i. inner_step place f (r i) (r (Suc i))" by blast
    have invs: "lock_inv place f ft (r i)" for i
    proof (induction i)
      case 0
      show ?case using inv by (simp add: r(1))
    next
      case (Suc i)
      then show ?case by (rule inner_step_inv [OF r(2)])
    qed
    have "(r (Suc i), r i) \<in> inv_image (less_than <*lex*> less_than) rank" for i
      unfolding in_inv_image by (rule rank_decreases [OF r(2) invs])
    moreover have "wf (inv_image (less_than <*lex*> less_than) rank)" by (intro wf_inv_image wf_lex_prod wf_less_than)
    ultimately show False unfolding wf_iff_no_infinite_down_chain by blast
  qed
  fix s'
  assume steps: "(inner_step place f)\<^sup>*\<^sup>* s s'" and stuck: "\<nexists>s''. inner_step place f s' s''"
  from inner_steps [OF steps inv] have inv': "lock_inv place f ft s'" and out: "outcomes s' \<subseteq> outcomes s"
    and d: "lk_drops s' = lk_drops s" by auto
  have outside: "lk_pc s' t = Outside" for t using inner_step_exists [OF inv', of t] stuck by blast
  then show "lk_pc s' = (\<lambda>_. Outside)" by blast
  show owner: "lk_owner s' = None"
    using lock_inv_owner [OF inv'] outside by (cases "lk_owner s'") auto
  have "lk_table s' = drops (lk_drops s) (run place f (lk_calls s') ft)"
    using inv' by (simp add: lock_inv_def completed_def owner outside early_def d)
  moreover have "lk_calls s' \<in> outcomes s" using out by (simp add: outcomes_def outside)
  ultimately show "\<exists>calls \<in> outcomes s. lk_table s' = drops (lk_drops s) (run place f calls ft)" ..
qed

theorem table_calls_return_witness:
  "(\<nexists>run. run 0 = contended \<and> (\<forall>i. inner_step (\<lambda>_ _. 0) (\<lambda>e q. (True, q)) (run i) (run (Suc i)))) \<and>
   outcomes contended = {[Sweep 5, Process default_packet]}"
  using table_calls_return [OF contended_reachable]
  by (simp add: outcomes_def contended_def pending_holds)

end
