(* ===== verification/Flow_Table_Invariants.thy ===== *)
theory Flow_Table_Invariants
  imports Flow_Table_Runs
begin

section \<open>Invariants of the flow table\<close>

text \<open>
  What holds after every sequence of calls on a new table, whatever the sink behind it
  accepts: the table's keys and the life cycle of every flow, the metrics, the conservation
  of packets, and the limit on the number of flows.  Each is an instance of
  \<open>table_invariant\<close>.
\<close>

definition table_ok :: "'q flow_table \<Rightarrow> bool" where
  "table_ok ft \<longleftrightarrow>
     fm_ok (ft_flows ft) \<and> (\<forall>k s. fm_find k (ft_flows ft) = Some s \<longrightarrow> fs_key s = k)"

lemma fs_key_touched [simp]: "fs_key (touched pkt s) = fs_key s"
  by (simp add: touched_def)

lemma fs_key_opened [simp]: "fs_key (opened pkt) = key_from_packet pkt"
  by (simp add: opened_def)

lemma event_fields [simp]:
  "ev_type (start_event s) = Start" "ev_state (start_event s) = s"
  "ev_type (stats_event now s) = Stats" "ev_state (stats_event now s) = s"
  "ev_type (end_event now r s) = End" "ev_state (end_event now r s) = s"
  "ev_reason (end_event now r s) = r" "ev_timestamp_us (end_event now r s) = now"
  "ev_timestamp_us (stats_event now s) = now"
  by (simp_all add: start_event_def stats_event_def end_event_def)

lemma flows_expire_flow [simp]:
  "ft_flows (expire_flow f (k, s) now r ft) = fm_erase k (ft_flows ft)"
  by (simp add: expire_flow_eq)

lemma flows_refuse [simp]: "ft_flows (refuse ft) = ft_flows ft"
  by (simp add: refuse_def on_metrics_def warn_def Let_def)

lemma flows_admit [simp]:
  "ft_flows (admit place f pkt ft) = fm_emplace place (key_from_packet pkt) (opened pkt) (ft_flows ft)"
  by (simp add: admit_def)

lemma table_ok_stats: "table_ok ft \<Longrightarrow> table_ok (emit f e ft)"
  by (simp add: table_ok_def)

lemma table_ok_expire: "table_ok ft \<Longrightarrow> table_ok (expire_flow f (k, s) now r ft)"
  by (auto simp: table_ok_def fm_find_erase fm.ok_erase)

lemma table_ok_refuse: "table_ok ft \<Longrightarrow> table_ok (refuse (received ft))"
  by (simp add: table_ok_def)

lemma table_ok_admit:
  "table_ok ft \<Longrightarrow> fm_find (key_from_packet pkt) (ft_flows ft) = None \<Longrightarrow>
    table_ok (admit place f pkt (received ft))"
  by (auto simp: table_ok_def fm_find_emplace fm_ok_emplace)

lemma table_ok_touch:
  "table_ok ft \<Longrightarrow> fm_find k (ft_flows ft) = Some s \<Longrightarrow>
    table_ok (store (fm_update k (touched pkt s) (ft_flows ft)) (received ft))"
  by (auto simp: table_ok_def fm_find_update fm.ok_assign)

lemma table_ok_heartbeat: "table_ok ft \<Longrightarrow> table_ok (ft\<lparr>ft_last_heartbeat_us := now\<rparr>)"
  by (simp add: table_ok_def)

lemmas table_ok_steps =
  table_ok_stats table_ok_expire table_ok_refuse table_ok_admit table_ok_touch table_ok_heartbeat

interpretation keys: table_invariant place f table_ok for place f
  by unfold_locales (simp_all add: table_ok_steps, simp add: table_ok_def)

lemma table_ok_new: "table_ok (FlowTable cfg m q)"
  by (simp add: table_ok_def FlowTable_def fm_ok_def fm_find_def)

subsection \<open>The life cycle of a flow\<close>

text \<open>
  \<open>Start\<close>, any number of \<open>Stats\<close>, then \<open>End\<close>, then possibly again: the state says whether the
  flow is open, and \<open>None\<close> that the sequence is not of this shape.
\<close>

fun life_step :: "bool option \<Rightarrow> flow_event_type \<Rightarrow> bool option" where
  "life_step (Some False) Start = Some True"
| "life_step (Some True) Stats = Some True"
| "life_step (Some True) End = Some False"
| "life_step _ _ = None"

definition lifecycle :: "flow_key \<Rightarrow> flow_event list \<Rightarrow> bool option" where
  "lifecycle k evs = foldl life_step (Some False) (map ev_type (filter (\<lambda>e. ev_key e = k) evs))"

lemma lifecycle_Nil [simp]: "lifecycle k [] = Some False"
  by (simp add: lifecycle_def)

lemma lifecycle_snoc [simp]:
  "lifecycle k (evs @ [e]) =
    (if ev_key e = k then life_step (lifecycle k evs) (ev_type e) else lifecycle k evs)"
  by (simp add: lifecycle_def)

definition inv_life :: "('q \<times> (flow_event \<times> bool) list) flow_table \<Rightarrow> bool" where
  "inv_life ft \<longleftrightarrow> table_ok ft \<and> (\<forall>k. lifecycle k (emitted ft) = Some (fm_find k (ft_flows ft) \<noteq> None))"

lemma emitted_expire_flow [simp]:
  "emitted (expire_flow (logging f) (k, s) now r ft) = emitted ft @ [end_event now r s]"
  by (simp add: expire_flow_eq)

lemma emitted_refuse [simp]: "emitted (refuse ft) = emitted ft"
  by (simp add: refuse_def on_metrics_def warn_def emitted_def Let_def)

lemma emitted_admit [simp]:
  "emitted (admit place (logging f) pkt ft) = emitted ft @ [start_event (opened pkt)]"
  by (simp add: admit_def)

interpretation life: table_invariant place "logging f" inv_life
  for place and f :: "flow_event \<Rightarrow> 'q \<Rightarrow> bool \<times> 'q"
proof
  fix ft :: "('q \<times> (flow_event \<times> bool) list) flow_table" and k s now r pkt
  assume inv: "inv_life ft"
  then have ok: "table_ok ft" by (simp add: inv_life_def)
  then show "fm_ok (ft_flows ft)" by (simp add: table_ok_def)
  show "inv_life (refuse (received ft))" "inv_life (ft\<lparr>ft_last_heartbeat_us := now\<rparr>)"
    using inv by (simp_all add: inv_life_def table_ok_refuse table_ok_heartbeat)
  show "inv_life (admit place (logging f) pkt (received ft))"
    if "fm_find (key_from_packet pkt) (ft_flows ft) = None"
    using that inv by (auto simp: inv_life_def table_ok_admit fm_find_emplace)
  assume find: "fm_find k (ft_flows ft) = Some s"
  with ok have key: "fs_key s = k" by (simp add: table_ok_def)
  from inv find key show "inv_life (emit (logging f) (stats_event now s) ft)"
    by (auto simp: inv_life_def table_ok_stats)
  from inv find key show "inv_life (expire_flow (logging f) (k, s) now r ft)"
    by (auto simp: inv_life_def table_ok_expire fm_find_erase)
  from inv find show "inv_life (store (fm_update k (touched pkt s) (ft_flows ft)) (received ft))"
    by (auto simp: inv_life_def table_ok_touch fm_find_update)
qed

text \<open>A new table in front of a sink in state \<open>q\<close>, with an empty log.\<close>

definition fresh :: "app_config \<Rightarrow> 'q \<Rightarrow> ('q \<times> (flow_event \<times> bool) list) flow_table" where
  "fresh cfg q = FlowTable cfg metrics_zero (q, [])"

lemma emitted_fresh [simp]: "emitted (fresh cfg q) = []"
  by (simp add: fresh_def FlowTable_def emitted_def)

lemma flows_fresh [simp]: "ft_flows (fresh cfg q) = []"
  by (simp add: fresh_def FlowTable_def)

lemma fm_find_Nil [simp]: "fm_find k [] = None"
  by (simp add: fm_find_def)

lemma inv_life_fresh: "inv_life (fresh cfg q)"
  by (simp add: inv_life_def) (simp add: fresh_def table_ok_new)

text \<open>
  C9.  After any sequence of packets, sweeps and drains, and whatever the sink accepts, the
  events emitted for a flow key are \<open>Start\<close>, then some \<open>Stats\<close>, then \<open>End\<close>, repeated, with a
  last \<open>Start\<close> not yet ended exactly if the key is in the table.
\<close>

theorem flow_life_cycle:
  "lifecycle k (emitted (run place (logging f) calls (fresh cfg q))) =
    Some (fm_find k (ft_flows (run place (logging f) calls (fresh cfg q))) \<noteq> None)"
  using life.runs [OF inv_life_fresh, of place f calls cfg q] unfolding inv_life_def by blast

subsection \<open>Metrics\<close>

definition starts :: "flow_event list \<Rightarrow> nat" where
  "starts evs = length (filter (\<lambda>e. ev_type e = Start) evs)"

definition ends :: "expire_reason \<Rightarrow> flow_event list \<Rightarrow> nat" where
  "ends r evs = length (filter (\<lambda>e. ev_type e = End \<and> ev_reason e = r) evs)"

lemma starts_snoc [simp]:
  "starts [] = 0" "starts (evs @ [e]) = starts evs + (if ev_type e = Start then 1 else 0)"
  by (simp_all add: starts_def)

lemma ends_snoc [simp]:
  "ends r [] = 0"
  "ends r (evs @ [e]) = ends r evs + (if ev_type e = End \<and> ev_reason e = r then 1 else 0)"
  by (simp_all add: ends_def)

definition inv_metrics :: "('q \<times> (flow_event \<times> bool) list) flow_table \<Rightarrow> bool" where
  "inv_metrics ft \<longleftrightarrow>
     table_ok ft \<and>
     ft_metrics ft FlowsActive = int (length (ft_flows ft)) \<and>
     ft_metrics ft FlowsCreated = int (starts (emitted ft)) \<and>
     (\<forall>r. ft_metrics ft (FlowsExpired r) = int (ends r (emitted ft))) \<and>
     int (starts (emitted ft)) =
       int (length (ft_flows ft)) + int (ends IdleTimeout (emitted ft)) + int (ends TcpTeardown (emitted ft))"

lemma ft_metrics_store [simp]: "ft_metrics (ft\<lparr>ft_last_heartbeat_us := now\<rparr>) = ft_metrics ft"
  by simp

lemma ft_metrics_refuse:
  "ft_metrics (refuse ft) x = ft_metrics ft x + (if x = PacketsDropped then 1 else 0)"
  by (simp add: refuse_def on_metrics_def warn_def Let_def)

lemmas metric_changes = ft_metrics_emit expire_flow_eq admit_def ft_metrics_refuse

lemma fm_length_erase:
  "fm_ok m \<Longrightarrow> fm_find k m = Some s \<Longrightarrow> int (length (fm_erase k m)) = int (length m) - 1"
  using length_fm_erase [of m k s] by simp

interpretation metric: table_invariant place "logging f" inv_metrics
  for place and f :: "flow_event \<Rightarrow> 'q \<Rightarrow> bool \<times> 'q"
proof
  fix ft :: "('q \<times> (flow_event \<times> bool) list) flow_table" and k s now r pkt
  assume inv: "inv_metrics ft"
  then have ok: "table_ok ft" by (simp add: inv_metrics_def)
  then show fm: "fm_ok (ft_flows ft)" by (simp add: table_ok_def)
  show "inv_metrics (refuse (received ft))" "inv_metrics (ft\<lparr>ft_last_heartbeat_us := now\<rparr>)"
    using inv by (simp_all add: inv_metrics_def table_ok_refuse table_ok_heartbeat
        ft_metrics_refuse)
  show "inv_metrics (admit place (logging f) pkt (received ft))"
    if "fm_find (key_from_packet pkt) (ft_flows ft) = None"
    using that inv fm.size_emplace [OF fm that, of place]
    unfolding inv_metrics_def
    by (simp add: table_ok_admit) (simp add: admit_def ft_metrics_emit)
  assume find: "fm_find k (ft_flows ft) = Some s"
  from inv show "inv_metrics (emit (logging f) (stats_event now s) ft)"
    by (simp add: inv_metrics_def table_ok_stats ft_metrics_emit)
  from inv find show "inv_metrics (expire_flow (logging f) (k, s) now r ft)"
    unfolding inv_metrics_def
    by (cases r) (simp_all add: table_ok_expire, simp_all add: expire_flow_eq ft_metrics_emit
        fm_length_erase fm)
  from inv find show "inv_metrics (store (fm_update k (touched pkt s) (ft_flows ft)) (received ft))"
    by (simp add: inv_metrics_def table_ok_touch fm.size_assign fm)
qed

lemma inv_metrics_fresh: "inv_metrics (fresh cfg q)"
  by (simp add: inv_metrics_def)
    (simp add: fresh_def table_ok_new, simp add: FlowTable_def metrics_zero_def)

text \<open>
  After any run the gauge \<open>flows_active\<close> is the number of entries of the table,
  \<open>flows_created\<close> the number of \<open>Start\<close> events, \<open>flows_expired\<close> for each reason the number
  of \<open>End\<close> events with that reason, and every created flow is active or has expired.
\<close>

theorem flow_metrics:
  "let ft = run place (logging f) calls (fresh cfg q) in
    ft_metrics ft FlowsActive = int (length (ft_flows ft)) \<and>
    ft_metrics ft FlowsCreated = int (starts (emitted ft)) \<and>
    ft_metrics ft (FlowsExpired r) = int (ends r (emitted ft)) \<and>
    ft_metrics ft FlowsCreated = ft_metrics ft FlowsActive +
      ft_metrics ft (FlowsExpired IdleTimeout) + ft_metrics ft (FlowsExpired TcpTeardown)"
  using metric.runs [OF inv_metrics_fresh, of place f calls cfg q]
  by (simp add: inv_metrics_def Let_def)

subsection \<open>The limit on the number of flows\<close>

definition inv_limit :: "app_config \<Rightarrow> 'q flow_table \<Rightarrow> bool" where
  "inv_limit cfg ft \<longleftrightarrow>
     table_ok ft \<and> ft_cfg ft = cfg \<and> cfg_max_flows cfg \<le> INT_MAX \<and>
     int (length (ft_flows ft)) \<le> cfg_max_flows cfg"

lemma ft_cfg_refuse [simp]: "ft_cfg (refuse ft) = ft_cfg ft"
  by (simp add: refuse_def on_metrics_def warn_def Let_def)

interpretation limit: table_invariant place f "inv_limit cfg"
  for place and f :: "flow_event \<Rightarrow> 'q \<Rightarrow> bool \<times> 'q" and cfg
proof
  fix ft :: "'q flow_table" and k s now r pkt
  assume inv: "inv_limit cfg ft"
  then have ok: "table_ok ft" by (simp add: inv_limit_def)
  then show fm: "fm_ok (ft_flows ft)" by (simp add: table_ok_def)
  show "inv_limit cfg (refuse (received ft))" "inv_limit cfg (ft\<lparr>ft_last_heartbeat_us := now\<rparr>)"
    using inv by (simp_all add: inv_limit_def table_ok_refuse table_ok_heartbeat)
  show "inv_limit cfg (admit place f pkt (received ft))"
    if "fm_find (key_from_packet pkt) (ft_flows ft) = None" and "\<not> at_limit ft"
    using that inv fm.size_emplace [OF fm that(1), of place]
    by (simp add: inv_limit_def table_ok_admit)
      (simp add: at_limit_def size_as_int_eq admit_def)
  assume find: "fm_find k (ft_flows ft) = Some s"
  from inv show "inv_limit cfg (emit f (stats_event now s) ft)"
    by (simp add: inv_limit_def table_ok_stats)
  from inv find show "inv_limit cfg (expire_flow f (k, s) now r ft)"
    by (simp add: inv_limit_def table_ok_expire fm_length_erase fm) (simp add: expire_flow_eq)
  from inv find show "inv_limit cfg (store (fm_update k (touched pkt s) (ft_flows ft)) (received ft))"
    by (simp add: inv_limit_def table_ok_touch fm.size_assign fm)
qed

text \<open>
  C19.  With a configuration the parser accepts, the table never holds more flows than
  \<open>--max-flows\<close> allows.
\<close>

theorem flow_limit:
  assumes "parse argv = Inr cfg"
  shows "int (length (ft_flows (run place f calls (FlowTable cfg m q)))) \<le> cfg_max_flows cfg"
proof -
  from assms have "valid_config cfg" by (rule parse_valid)
  then have "inv_limit cfg (FlowTable cfg m q)"
    by (simp add: inv_limit_def table_ok_new valid_config_def) (simp add: FlowTable_def)
  from limit.runs [OF this, of place f calls] show ?thesis by (simp add: inv_limit_def)
qed

theorem flow_limit_witness:
  "int (length (ft_flows (run (\<lambda>_ _. 0) (\<lambda>e q. (True, q)) [Process default_packet, Sweep 5]
    (FlowTable (default_config\<lparr>cfg_iface := ''lo'', cfg_max_flows := 1\<rparr>) metrics_zero ())))) \<le> 1"
proof -
  have "parse [''p'', ''--iface'', ''lo'', ''--max-flows'', ''1''] =
      Inr (default_config\<lparr>cfg_iface := ''lo'', cfg_max_flows := 1\<rparr>)"
    by code_simp
  from flow_limit [OF this, of "\<lambda>_ _. 0" "\<lambda>e q. (True, q)" "[Process default_packet, Sweep 5]"
    metrics_zero "()"] show ?thesis by simp
qed

subsection \<open>Conservation of packets\<close>

definition total_of :: "(flow_state \<Rightarrow> u64) \<Rightarrow> flow_map \<Rightarrow> u64" where
  "total_of g m = (\<Sum>e \<leftarrow> m. g (snd e))"

lemma total_emplace:
  "fm_find k m = None \<Longrightarrow> total_of g (fm_emplace place k s m) = total_of g m + g s"
proof -
  assume "fm_find k m = None"
  then have "total_of g (fm_emplace place k s m) = total_of g (take (place k m) m @ drop (place k m) m) + g s"
    by (simp add: total_of_def fm_emplace_def del: append_take_drop_id)
  then show ?thesis by simp
qed

lemma total_not_in: "k \<notin> fst ` set m \<Longrightarrow> total_of g (fm_update k s m) = total_of g m"
  by (induction m) (auto simp: total_of_def fm_update_def)

lemma total_update:
  "fm_ok m \<Longrightarrow> fm_find k m = Some u \<Longrightarrow> total_of g (fm_update k s m) = total_of g m - g u + g s"
proof (induction m)
  case (Cons e m)
  then show ?case
    using total_not_in [of k m g s]
    by (cases e) (auto simp: fm_ok_def fm_find_def fm_update_def total_of_def split: if_splits)
qed (simp add: fm_find_def)

lemma fm_erase_not_in: "k \<notin> fst ` set m \<Longrightarrow> fm_erase k m = m"
  unfolding fm_erase_def by (intro filter_True) force

lemma total_erase:
  "fm_ok m \<Longrightarrow> fm_find k m = Some u \<Longrightarrow> total_of g (fm_erase k m) = total_of g m - g u"
proof (induction m)
  case (Cons e m)
  then show ?case
    using fm_erase_not_in [of k m]
    by (cases e) (auto simp: fm_ok_def fm_find_def fm_erase_def total_of_def split: if_splits)
qed (simp add: fm_find_def)

text \<open>The packets counted in the flows that have ended.\<close>

definition ended_packets :: "flow_event list \<Rightarrow> u64" where
  "ended_packets evs = (\<Sum>e \<leftarrow> filter (\<lambda>e. ev_type e = End) evs. fs_packet_count (ev_state e))"

lemma ended_packets_snoc [simp]:
  "ended_packets [] = 0"
  "ended_packets (evs @ [e]) =
    ended_packets evs + (if ev_type e = End then fs_packet_count (ev_state e) else 0)"
  by (simp_all add: ended_packets_def)

text \<open>The drops that are not due to the sink.\<close>

definition over_limit :: "('q \<times> (flow_event \<times> bool) list) flow_table \<Rightarrow> int" where
  "over_limit ft = ft_metrics ft PacketsDropped - int (rejected ft)"

lemma over_limit_simps [simp]:
  "over_limit (emit (logging f) e ft) = over_limit ft"
  "over_limit (store m ft) = over_limit ft"
  "over_limit (ft\<lparr>ft_last_heartbeat_us := now\<rparr>) = over_limit ft"
  "over_limit (refuse ft) = over_limit ft + 1"
  "over_limit (received ft) = over_limit ft"
  using ft_metrics_emit_logging [of f e ft PacketsDropped]
  by (simp_all add: over_limit_def)
    (simp add: refuse_def on_metrics_def warn_def rejected_def Let_def)

lemma over_limit_gauges [simp]:
  "x \<noteq> PacketsDropped \<Longrightarrow> over_limit (on_metrics (Increment x) ft) = over_limit ft"
  "x \<noteq> PacketsDropped \<Longrightarrow> over_limit (on_metrics (Decrement x) ft) = over_limit ft"
  by (simp_all add: over_limit_def)

definition inv_conserve :: "('q \<times> (flow_event \<times> bool) list) flow_table \<Rightarrow> bool" where
  "inv_conserve ft \<longleftrightarrow>
     table_ok ft \<and> 0 \<le> over_limit ft \<and>
     ft_drop_count ft = word_of_int (over_limit ft) \<and>
     word_of_int (ft_metrics ft PacketsReceived) =
       total_of fs_packet_count (ft_flows ft) + ended_packets (emitted ft) + word_of_int (over_limit ft)"

lemma drop_count_refuse [simp]: "ft_drop_count (refuse ft) = ft_drop_count ft + 1"
  by (simp add: refuse_def on_metrics_def warn_def Let_def)

lemma packet_counts [simp]:
  "fs_packet_count (opened pkt) = 1" "fs_packet_count (touched pkt s) = fs_packet_count s + 1"
  by (simp_all add: opened_def touched_def)

interpretation conserve: table_invariant place "logging f" inv_conserve
  for place and f :: "flow_event \<Rightarrow> 'q \<Rightarrow> bool \<times> 'q"
proof
  fix ft :: "('q \<times> (flow_event \<times> bool) list) flow_table" and k s now r pkt
  assume inv: "inv_conserve ft"
  then have ok: "table_ok ft" by (simp add: inv_conserve_def)
  then show fm: "fm_ok (ft_flows ft)" by (simp add: table_ok_def)
  show "inv_conserve (refuse (received ft))" "inv_conserve (ft\<lparr>ft_last_heartbeat_us := now\<rparr>)"
    using inv by (simp_all add: inv_conserve_def table_ok_refuse table_ok_heartbeat ft_metrics_refuse)
  show "inv_conserve (admit place (logging f) pkt (received ft))"
    if "fm_find (key_from_packet pkt) (ft_flows ft) = None"
    using that inv unfolding inv_conserve_def
    by (simp add: table_ok_admit) (simp add: admit_def ft_metrics_emit total_emplace)
  assume find: "fm_find k (ft_flows ft) = Some s"
  from inv show "inv_conserve (emit (logging f) (stats_event now s) ft)"
    by (simp add: inv_conserve_def table_ok_stats ft_metrics_emit)
  from inv find show "inv_conserve (expire_flow (logging f) (k, s) now r ft)"
    unfolding inv_conserve_def
    by (simp add: table_ok_expire total_erase [OF fm])
      (simp add: expire_flow_eq ft_metrics_emit)
  from inv find show "inv_conserve (store (fm_update k (touched pkt s) (ft_flows ft)) (received ft))"
    by (simp add: inv_conserve_def table_ok_touch total_update [OF fm])
qed

lemma inv_conserve_fresh: "inv_conserve (fresh cfg q)"
  by (simp add: inv_conserve_def total_of_def)
    (simp add: fresh_def table_ok_new, simp add: FlowTable_def over_limit_def metrics_zero_def rejected_def)

text \<open>
  C10.  No packet is lost without a trace: after any run the packets received are, modulo
  \<open>2 ^ 64\<close>, those counted in the flows of the table, those counted in the \<open>End\<close> events, and those dropped
  at the flow limit, which are the drops that are not events the sink refused.
\<close>

theorem flow_conservation:
  "let ft = run place (logging f) calls (fresh cfg q);
       dropped = ft_metrics ft PacketsDropped - int (rejected ft) in
    0 \<le> dropped \<and> ft_drop_count ft = word_of_int dropped \<and>
    word_of_int (ft_metrics ft PacketsReceived) =
      total_of fs_packet_count (ft_flows ft) + ended_packets (emitted ft) + word_of_int dropped"
  using conserve.runs [OF inv_conserve_fresh, of place f calls cfg q]
  by (simp add: inv_conserve_def over_limit_def Let_def)

end
