(* ===== verification/Flow_Table_Spec.thy ===== *)
theory Flow_Table_Spec
  imports Flow_Table_Invariants
begin

section \<open>What the flow table promises\<close>

text \<open>
  The exact effect of the sweep and of the drain on table and events, and the abstract
  specification: a map from keys to the packets of the open flow, from which every
  state the table stores and every event it emits is computed.
\<close>

subsection \<open>Sweep and drain, exactly\<close>

lemma emitted_stats_all:
  "emitted (fold (\<lambda>e. emit (logging f) (stats_event now (snd e))) es ft) =
    emitted ft @ map (\<lambda>e. stats_event now (snd e)) es"
  by (induction es arbitrary: ft) simp_all

lemma emitted_expire_all:
  "emitted (expire_all (logging f) now es ft) = emitted ft @ map (\<lambda>e. end_event now IdleTimeout (snd e)) es"
  unfolding expire_all_def by (induction es arbitrary: ft) auto

lemma flows_expire_all:
  "ft_flows (expire_all f now es ft) = filter (\<lambda>e. fst e \<notin> fst ` set es) (ft_flows ft)"
  unfolding expire_all_def
proof (induction es arbitrary: ft)
  case (Cons e es)
  then show ?case
    by (cases e) (auto simp: fm_erase_def intro!: filter_cong)
qed simp

lemma expire_all_frame [simp]:
  "ft_cfg (expire_all f now es ft) = ft_cfg ft"
  "ft_last_heartbeat_us (expire_all f now es ft) = ft_last_heartbeat_us ft"
  "ft_idle_timeout_us (expire_all f now es ft) = ft_idle_timeout_us ft"
  "ft_stats_interval_us (expire_all f now es ft) = ft_stats_interval_us ft"
proof -
  have "ft_cfg (fold (\<lambda>e. expire_flow f e now IdleTimeout) es ft) = ft_cfg ft \<and>
      ft_last_heartbeat_us (fold (\<lambda>e. expire_flow f e now IdleTimeout) es ft) = ft_last_heartbeat_us ft \<and>
      ft_idle_timeout_us (fold (\<lambda>e. expire_flow f e now IdleTimeout) es ft) = ft_idle_timeout_us ft \<and>
      ft_stats_interval_us (fold (\<lambda>e. expire_flow f e now IdleTimeout) es ft) = ft_stats_interval_us ft"
  proof (induction es arbitrary: ft)
    case (Cons e es)
    then show ?case by (cases e) (simp add: expire_flow_eq)
  qed simp
  then show "ft_cfg (expire_all f now es ft) = ft_cfg ft"
    "ft_last_heartbeat_us (expire_all f now es ft) = ft_last_heartbeat_us ft"
    "ft_idle_timeout_us (expire_all f now es ft) = ft_idle_timeout_us ft"
    "ft_stats_interval_us (expire_all f now es ft) = ft_stats_interval_us ft"
    by (simp_all add: expire_all_def)
qed

lemma stats_all_frame [simp]:
  "ft_cfg (fold (\<lambda>e. emit f (stats_event now (snd e))) es ft) = ft_cfg ft"
  "ft_flows (fold (\<lambda>e. emit f (stats_event now (snd e))) es ft) = ft_flows ft"
  "ft_last_heartbeat_us (fold (\<lambda>e. emit f (stats_event now (snd e))) es ft) = ft_last_heartbeat_us ft"
  "ft_idle_timeout_us (fold (\<lambda>e. emit f (stats_event now (snd e))) es ft) = ft_idle_timeout_us ft"
  "ft_stats_interval_us (fold (\<lambda>e. emit f (stats_event now (snd e))) es ft) = ft_stats_interval_us ft"
  by (induction es arbitrary: ft) simp_all

lemma filter_keys_filter:
  assumes "fm_ok m"
  shows "filter (\<lambda>e. fst e \<notin> fst ` set (filter P m)) m = filter (\<lambda>e. \<not> P e) m"
proof (rule filter_cong [OF refl])
  fix e assume e: "e \<in> set m"
  have "e' = e" if "e' \<in> set m" "fst e' = fst e" for e'
    using that e assms by (auto simp: fm_ok_def distinct_map dest: inj_onD)
  with e show "(fst e \<notin> fst ` set (filter P m)) = (\<not> P e)" by force
qed

lemma fm_find_filter:
  assumes "fm_ok m"
  shows "fm_find k (filter (\<lambda>e. P (snd e)) m) =
    (case fm_find k m of None \<Rightarrow> None | Some s \<Rightarrow> if P s then Some s else None)"
  using assms
proof (induction m)
  case (Cons e m)
  have "fm_find k m = None" if "fst e = k"
    using that Cons.prems by (auto simp: fm_ok_def fm_find_None_iff)
  with Cons show ?case
    by (cases e) (auto simp: fm_ok_def fm_find_def split: option.splits)
qed simp

lemma timer_sweep_flows:
  "fm_ok (ft_flows ft) \<Longrightarrow> ft_flows (timer_sweep f now ft) =
    filter (\<lambda>e. \<not> idle (ft_idle_timeout_us ft) now (snd e)) (ft_flows ft)"
  by (simp add: timer_sweep_eq Let_def flows_expire_all filter_keys_filter del: set_filter)

lemma timer_sweep_emitted:
  "fm_ok (ft_flows ft) \<Longrightarrow> emitted (timer_sweep (logging f) now ft) = emitted ft @
    (if ft_stats_interval_us ft \<le>s now - ft_last_heartbeat_us ft
     then map (\<lambda>e. stats_event now (snd e))
            (filter (\<lambda>e. \<not> idle (ft_idle_timeout_us ft) now (snd e)) (ft_flows ft))
     else []) @
    map (\<lambda>e. end_event now IdleTimeout (snd e))
      (filter (\<lambda>e. idle (ft_idle_timeout_us ft) now (snd e)) (ft_flows ft))"
  by (simp add: timer_sweep_eq Let_def emitted_expire_all emitted_stats_all)

lemma timer_sweep_frame:
  assumes "fm_ok (ft_flows ft)"
  shows "ft_cfg (timer_sweep f now ft) = ft_cfg ft"
    "ft_idle_timeout_us (timer_sweep f now ft) = ft_idle_timeout_us ft"
    "ft_stats_interval_us (timer_sweep f now ft) = ft_stats_interval_us ft"
    "ft_last_heartbeat_us (timer_sweep f now ft) =
      (if ft_stats_interval_us ft \<le>s now - ft_last_heartbeat_us ft then now else ft_last_heartbeat_us ft)"
  using assms by (simp_all add: timer_sweep_eq Let_def)

lemma drain_all_flows: "ft_flows (drain_all f now ft) = []"
  by (auto simp: drain_all_eq flows_expire_all filter_empty_conv)

lemma drain_all_emitted:
  "emitted (drain_all (logging f) now ft) =
    emitted ft @ map (\<lambda>e. end_event now IdleTimeout (snd e)) (ft_flows ft)"
  by (simp add: drain_all_eq emitted_expire_all)

lemma table_ok_run: "table_ok (run place f calls (FlowTable cfg m q))"
  by (rule keys.runs [OF table_ok_new])

lemma table_okD: "table_ok ft \<Longrightarrow> fm_ok (ft_flows ft)"
  by (simp add: table_ok_def)

subsection \<open>The specification\<close>

definition summary :: "parsed_packet list \<Rightarrow> flow_state" where
  "summary ps =
     \<lparr>fs_key = key_from_packet (hd ps), fs_start_us = pp_timestamp_us (hd ps),
      fs_last_seen_us = pp_timestamp_us (last ps), fs_packet_count = word_of_nat (length ps),
      fs_byte_count = (\<Sum>p \<leftarrow> ps. ucast (pp_wire_length p))\<rparr>"

record spec_state =
  sp_flows :: "flow_key \<Rightarrow> parsed_packet list option"
  sp_heartbeat :: i64
  sp_events :: "flow_event multiset"

definition spec_new :: spec_state where
  "spec_new = \<lparr>sp_flows = (\<lambda>_. None), sp_heartbeat = 0, sp_events = {#}\<rparr>"

definition spec_process :: "app_config \<Rightarrow> parsed_packet \<Rightarrow> spec_state \<Rightarrow> spec_state" where
  "spec_process cfg p sp =
     (let k = key_from_packet p; T = sp_flows sp in
      case T k of
        None \<Rightarrow>
          if cfg_max_flows cfg \<le> int (card (dom T)) then sp
          else sp\<lparr>sp_flows := T(k \<mapsto> [p]), sp_events := sp_events sp + {#start_event (summary [p])#}\<rparr>
      | Some ps \<Rightarrow>
          let ps = ps @ [p] in
          if teardown p then
            sp\<lparr>sp_flows := T(k := None),
               sp_events := sp_events sp + {#end_event (pp_timestamp_us p) TcpTeardown (summary ps)#}\<rparr>
          else sp\<lparr>sp_flows := T(k \<mapsto> ps)\<rparr>)"

definition seconds :: "int \<Rightarrow> i64" where
  "seconds n = word_of_int n * 1000000"

definition spec_sweep :: "app_config \<Rightarrow> i64 \<Rightarrow> spec_state \<Rightarrow> spec_state" where
  "spec_sweep cfg now sp =
     (let T = sp_flows sp;
          due = seconds (cfg_stats_interval_sec cfg) \<le>s now - sp_heartbeat sp;
          old = (\<lambda>k. idle (seconds (cfg_flow_timeout_sec cfg)) now (summary (the (T k))))
      in \<lparr>sp_flows = (\<lambda>k. if old k then None else T k),
          sp_heartbeat = (if due then now else sp_heartbeat sp),
          sp_events = sp_events sp +
            (if due then {#stats_event now (summary (the (T k))). k \<in># filter_mset (\<lambda>k. \<not> old k) (mset_set (dom T))#}
             else {#}) +
            {#end_event now IdleTimeout (summary (the (T k))). k \<in># filter_mset old (mset_set (dom T))#}\<rparr>)"

definition spec_drain :: "i64 \<Rightarrow> spec_state \<Rightarrow> spec_state" where
  "spec_drain now sp =
     sp\<lparr>sp_flows := (\<lambda>_. None),
        sp_events := sp_events sp +
          {#end_event now IdleTimeout (summary (the (sp_flows sp k))). k \<in># mset_set (dom (sp_flows sp))#}\<rparr>"

fun spec_call :: "app_config \<Rightarrow> ft_call \<Rightarrow> spec_state \<Rightarrow> spec_state" where
  "spec_call cfg (Process p) sp = spec_process cfg p sp"
| "spec_call cfg (Sweep now) sp = spec_sweep cfg now sp"
| "spec_call cfg (Drain now) sp = spec_drain now sp"

text \<open>When a table implements a specification state.\<close>

definition refines ::
  "app_config \<Rightarrow> spec_state \<Rightarrow> ('q \<times> (flow_event \<times> bool) list) flow_table \<Rightarrow> bool" where
  "refines cfg sp ft \<longleftrightarrow>
     fm_ok (ft_flows ft) \<and> inv_limit cfg ft \<and>
     (\<forall>k. fm_find k (ft_flows ft) = map_option summary (sp_flows sp k) \<and> sp_flows sp k \<noteq> Some []) \<and>
     ft_last_heartbeat_us ft = sp_heartbeat sp \<and>
     ft_idle_timeout_us ft = seconds (cfg_flow_timeout_sec cfg) \<and>
     ft_stats_interval_us ft = seconds (cfg_stats_interval_sec cfg) \<and>
     mset (emitted ft) = sp_events sp"

subsection \<open>The table implements the specification\<close>

lemma summary_single: "summary [p] = opened p"
  by (simp add: summary_def opened_def)

lemma summary_snoc: "ps \<noteq> [] \<Longrightarrow> summary (ps @ [p]) = touched p (summary ps)"
  by (simp add: summary_def touched_def add.commute)

lemma refines_entry:
  assumes "refines cfg sp ft" and "(k, s) \<in> set (ft_flows ft)"
  shows "s = summary (the (sp_flows sp k))"
proof -
  from assms(1) have "fm_ok (ft_flows ft)" by (simp add: refines_def)
  with assms(2) have "fm_find k (ft_flows ft) = Some s"
    by (simp add: fm_ok_def fm_find_def)
  with assms(1) show ?thesis by (auto simp: refines_def)
qed

lemma refines_dom:
  assumes "refines cfg sp ft"
  shows "dom (sp_flows sp) = set (map fst (ft_flows ft))"
proof -
  have "fm_find k (ft_flows ft) = None \<longleftrightarrow> sp_flows sp k = None" for k
    using assms by (simp add: refines_def)
  then have "k \<in> dom (sp_flows sp) \<longleftrightarrow> k \<in> set (map fst (ft_flows ft))" for k
    using fm_find_None_iff [of k "ft_flows ft"] by (metis domIff list.set_map)
  then show ?thesis by blast
qed

lemma refines_card:
  "refines cfg sp ft \<Longrightarrow> card (dom (sp_flows sp)) = length (ft_flows ft)"
  using refines_dom [of cfg sp ft] distinct_card [of "map fst (ft_flows ft)"]
  by (simp add: refines_def fm_ok_def)

text \<open>Events over the keys of the specification are events over the entries of the table.\<close>

lemma refines_events:
  assumes "refines cfg sp ft"
  shows "{#F (summary (the (sp_flows sp k))). k \<in># filter_mset (\<lambda>k. P (summary (the (sp_flows sp k)))) (mset_set (dom (sp_flows sp)))#} =
    mset (map (\<lambda>e. F (snd e)) (filter (\<lambda>e. P (snd e)) (ft_flows ft)))"
proof -
  let ?s = "\<lambda>k. summary (the (sp_flows sp k))"
  have s: "?s (fst e) = snd e" if "e \<in> set (ft_flows ft)" for e
    using refines_entry [OF assms] that by (cases e) auto
  have "mset_set (dom (sp_flows sp)) = mset (map fst (ft_flows ft))"
    using assms mset_set_set [of "map fst (ft_flows ft)"]
    by (simp add: refines_dom [OF assms]) (simp add: refines_def fm_ok_def)
  then have "{#F (?s k). k \<in># filter_mset (\<lambda>k. P (?s k)) (mset_set (dom (sp_flows sp)))#} =
      mset (map (\<lambda>k. F (?s k)) (filter (\<lambda>k. P (?s k)) (map fst (ft_flows ft))))"
    by (simp only: mset_filter [symmetric] mset_map [symmetric])
  also have "map (\<lambda>k. F (?s k)) (filter (\<lambda>k. P (?s k)) (map fst (ft_flows ft))) =
      map (\<lambda>e. F (snd e)) (filter (\<lambda>e. P (snd e)) (ft_flows ft))"
    unfolding filter_map by (simp add: s cong: filter_cong)
  finally show ?thesis .
qed

lemma frame_branches [simp]:
  "ft_last_heartbeat_us (refuse ft) = ft_last_heartbeat_us ft"
  "ft_idle_timeout_us (refuse ft) = ft_idle_timeout_us ft"
  "ft_stats_interval_us (refuse ft) = ft_stats_interval_us ft"
  "ft_last_heartbeat_us (admit place f pkt ft) = ft_last_heartbeat_us ft"
  "ft_idle_timeout_us (admit place f pkt ft) = ft_idle_timeout_us ft"
  "ft_stats_interval_us (admit place f pkt ft) = ft_stats_interval_us ft"
  "ft_last_heartbeat_us (expire_flow f (k, s) now r ft) = ft_last_heartbeat_us ft"
  "ft_idle_timeout_us (expire_flow f (k, s) now r ft) = ft_idle_timeout_us ft"
  "ft_stats_interval_us (expire_flow f (k, s) now r ft) = ft_stats_interval_us ft"
  by (simp_all add: refuse_def admit_def expire_flow_eq on_metrics_def warn_def Let_def)

lemma sink_refuse [simp]: "ft_sink (refuse ft) = ft_sink ft"
  by (simp add: refuse_def on_metrics_def warn_def Let_def)

lemma refines_at_limit:
  assumes "refines cfg sp ft"
  shows "at_limit ft \<longleftrightarrow> cfg_max_flows cfg \<le> int (card (dom (sp_flows sp)))"
  using assms refines_card [OF assms]
  by (simp add: refines_def inv_limit_def at_limit_def size_as_int_eq)

lemma refines_process:
  assumes R: "refines cfg sp ft"
  shows "refines cfg (spec_process cfg p sp) (process place (logging f) p ft)"
proof -
  let ?k = "key_from_packet p"
  have lim: "inv_limit cfg (process place (logging f) p ft)"
    using R by (intro limit.process) (simp add: refines_def)
  then have ok: "fm_ok (ft_flows (process place (logging f) p ft))"
    by (simp add: inv_limit_def table_ok_def)
  from R have fm: "fm_ok (ft_flows ft)" by (simp add: refines_def)
  show ?thesis
  proof (cases "sp_flows sp ?k")
    case None
    with R have find: "fm_find ?k (ft_flows ft) = None" by (simp add: refines_def)
    from None find R lim ok show ?thesis
      by (auto simp: refines_def spec_process_def process_eq Let_def refines_at_limit [OF R]
          fm_find_emplace summary_single)
  next
    case (Some ps)
    with R have find: "fm_find ?k (ft_flows ft) = Some (summary ps)" and ps: "ps \<noteq> []"
      by (auto simp: refines_def)
    from Some find ps R lim ok show ?thesis
      by (auto simp: refines_def spec_process_def process_eq Let_def
          fm_find_update fm_find_erase summary_snoc)
  qed
qed

lemma refines_sweep:
  assumes R: "refines cfg sp ft"
  shows "refines cfg (spec_sweep cfg now sp) (timer_sweep (logging f) now ft)"
proof -
  have lim: "inv_limit cfg (timer_sweep (logging f) now ft)"
    using R by (intro limit.timer_sweep) (simp add: refines_def)
  then have ok: "fm_ok (ft_flows (timer_sweep (logging f) now ft))"
    by (simp add: inv_limit_def table_ok_def)
  from R have fm: "fm_ok (ft_flows ft)" by (simp add: refines_def)
  note find = fm_find_filter [OF fm, where P = "\<lambda>s. \<not> idle (seconds (cfg_flow_timeout_sec cfg)) now s"]
  have T: "fm_find k (ft_flows ft) = map_option summary (sp_flows sp k)" "sp_flows sp k \<noteq> Some []" for k
    using R by (simp_all add: refines_def)
  have flows: "fm_find k (ft_flows (timer_sweep (logging f) now ft)) =
      map_option summary (sp_flows (spec_sweep cfg now sp) k)" "sp_flows (spec_sweep cfg now sp) k \<noteq> Some []" for k
    using T [of k] R
    by (auto simp: timer_sweep_flows [OF fm] find spec_sweep_def Let_def refines_def split: option.split)
  have events: "mset (emitted (timer_sweep (logging f) now ft)) = sp_events (spec_sweep cfg now sp)"
    using R unfolding timer_sweep_emitted [OF fm] spec_sweep_def Let_def
    by (simp add: refines_def
        refines_events [OF R, of "stats_event now"
          "\<lambda>s. \<not> idle (seconds (cfg_flow_timeout_sec cfg)) now s"]
        refines_events [OF R, of "end_event now IdleTimeout"
          "\<lambda>s. idle (seconds (cfg_flow_timeout_sec cfg)) now s"])
  show ?thesis
    using lim ok flows events R
    by (simp add: refines_def timer_sweep_frame [OF fm]) (simp add: spec_sweep_def Let_def)
qed

lemma refines_drain:
  assumes R: "refines cfg sp ft"
  shows "refines cfg (spec_drain now sp) (drain_all (logging f) now ft)"
proof -
  have lim: "inv_limit cfg (drain_all (logging f) now ft)"
    using R by (intro limit.drain_all) (simp add: refines_def)
  then show ?thesis
    using R refines_events [OF R, of "end_event now IdleTimeout" "\<lambda>_. True"]
    by (simp add: refines_def spec_drain_def drain_all_flows drain_all_emitted fm_ok_def)
      (simp add: drain_all_eq)
qed

lemma refines_run:
  "refines cfg sp ft \<Longrightarrow> refines cfg (fold (spec_call cfg) calls sp) (run place (logging f) calls ft)"
proof (induction calls arbitrary: sp ft)
  case (Cons c calls)
  then have "refines cfg (spec_call cfg c sp) (apply_call place (logging f) c ft)"
    by (cases c) (simp_all add: refines_process refines_sweep refines_drain)
  with Cons.IH show ?case by simp
qed simp

lemma refines_fresh: "valid_config cfg \<Longrightarrow> refines cfg spec_new (fresh cfg q)"
  by (simp add: refines_def inv_limit_def valid_config_def)
    (simp add: fresh_def table_ok_new, simp add: FlowTable_def spec_new_def fm_ok_def seconds_def emitted_def)

subsection \<open>Facts about single calls\<close>

definition intervals :: "app_config \<Rightarrow> 'q flow_table \<Rightarrow> bool" where
  "intervals cfg ft \<longleftrightarrow> table_ok ft \<and>
     ft_idle_timeout_us ft = seconds (cfg_flow_timeout_sec cfg) \<and>
     ft_stats_interval_us ft = seconds (cfg_stats_interval_sec cfg)"

interpretation intervals: table_invariant place f "intervals cfg"
  for place and f :: "flow_event \<Rightarrow> 'q \<Rightarrow> bool \<times> 'q" and cfg
  by unfold_locales (simp_all add: intervals_def table_ok_steps, simp add: table_ok_def)

lemma intervals_run:
  "ft_idle_timeout_us (run place f calls (fresh cfg q)) = seconds (cfg_flow_timeout_sec cfg)"
  "ft_stats_interval_us (run place f calls (fresh cfg q)) = seconds (cfg_stats_interval_sec cfg)"
proof -
  have "intervals cfg (fresh cfg q)"
    by (simp add: intervals_def fresh_def table_ok_new) (simp add: FlowTable_def seconds_def)
  from intervals.runs [OF this, of place f calls]
  show "ft_idle_timeout_us (run place f calls (fresh cfg q)) = seconds (cfg_flow_timeout_sec cfg)"
    "ft_stats_interval_us (run place f calls (fresh cfg q)) = seconds (cfg_stats_interval_sec cfg)"
    by (simp_all add: intervals_def)
qed

lemma smod_nat: "int n smod 1000 = int (n mod 1000)"
  by (cases "n = 0") (simp_all add: signed_modulo_int_def zmod_int)

lemma mod_Suc_eq_1: "int ((n + 1) mod 1000) = 1 \<longleftrightarrow> n mod 1000 = 0"
proof -
  have "(n + 1) mod 1000 = (if Suc (n mod 1000) = 1000 then 0 else Suc (n mod 1000))"
    by (simp add: mod_Suc)
  then show ?thesis by simp
qed

lemma warn_every_thousand:
  fixes w :: i32
  assumes "unat w < 2147483647"
  shows "sint (w + 1) smod 1000 = 1 \<longleftrightarrow> unat w mod 1000 = 0"
proof -
  have u: "uint (w + 1) = int (unat w + 1)"
    using assms by (simp add: unat_add_small uint_nat del: of_nat_unat int_nat_eq)
  then have s: "sint (w + 1) = int (unat w + 1)"
  proof -
    have "int (unat w + 1) < 2147483648" using assms by linarith
    then show ?thesis
      unfolding sint_uint u by (intro signed_take_bit_int_eq_self) (simp_all del: of_nat_add int_ops)
  qed
  have "int (unat w + 1) smod 1000 = int ((unat w + 1) mod 1000)"
    by (rule smod_nat)
  then show ?thesis unfolding s by (simp only: mod_Suc_eq_1)
qed

subsection \<open>Properties\<close>

text \<open>
  C2.  The flow table implements its specification: with a valid configuration, after any
  sequence of calls and whatever the sink accepts, every entry is the summary of the packets
  of its open flow (first and last time, number of packets, sum of lengths, modulo \<open>2 ^ 64\<close>),
  and the events emitted are, as a multiset, exactly those the specification computes from the
  packets.  (Its flows expire when idle for at least the time-out, as in the code; docs/design/architecture.md has
  \<open>last_seen + timeout < now\<close>.)
\<close>

theorem flow_table_refines_spec:
  assumes "valid_config cfg"
  shows "let sp = fold (spec_call cfg) calls spec_new;
             ft = run place (logging f) calls (fresh cfg q)
    in (\<forall>k. fm_find k (ft_flows ft) = map_option summary (sp_flows sp k)) \<and>
       mset (emitted ft) = sp_events sp"
  using refines_run [OF refines_fresh [OF assms], of calls place f q]
  by (simp add: refines_def Let_def)

definition sample_packet :: "u16 \<Rightarrow> u32 \<Rightarrow> i64 \<Rightarrow> bool \<Rightarrow> parsed_packet" where
  "sample_packet port len t fin =
     default_packet\<lparr>pp_src_port := port, pp_protocol := 6, pp_wire_length := len,
       pp_timestamp_us := t, pp_tcp_fin := fin\<rparr>"

theorem flow_table_refines_spec_witness:
  "let ft = run (\<lambda>_ _. 0) (logging (\<lambda>e q. (True, q)))
       [Process (sample_packet 1 60 10 False), Process (sample_packet 2 40 11 True),
        Process (sample_packet 1 50 12 True)] (fresh default_config ());
       sp = fold (spec_call default_config)
       [Process (sample_packet 1 60 10 False), Process (sample_packet 2 40 11 True),
        Process (sample_packet 1 50 12 True)] spec_new
   in mset (emitted ft) = sp_events sp"
  using flow_table_refines_spec [OF valid_default, where q = "()" and f = "\<lambda>e q. (True, q)"
      and place = "\<lambda>_ _. 0"]
  by (simp only: Let_def)

text \<open>
  C33.  A timer sweep of any reachable table emits first, if a heartbeat is due, one \<open>Stats\<close>
  event for each flow that is not idle, in table order, and then one \<open>End\<close> event with reason
  \<open>IdleTimeout\<close> for each idle flow; it removes exactly the idle flows, and moves the heartbeat
  only when it was due.  Idle means idle for at least the time-out, as in the code; docs/design/architecture.md
  asks for more than the time-out (\<open>last_seen + timeout < now\<close>).
\<close>

theorem flow_sweep_exact:
  "let ft = run place (logging f) calls (fresh cfg q);
       old = \<lambda>s. seconds (cfg_flow_timeout_sec cfg) \<le>s now - fs_last_seen_us s;
       due = seconds (cfg_stats_interval_sec cfg) \<le>s now - ft_last_heartbeat_us ft;
       ft' = timer_sweep (logging f) now ft
   in emitted ft' = emitted ft @
        (if due then map (stats_event now) (filter (\<lambda>s. \<not> old s) (map snd (ft_flows ft))) else []) @
        map (end_event now IdleTimeout) (filter old (map snd (ft_flows ft))) \<and>
      ft_flows ft' = filter (\<lambda>e. \<not> old (snd e)) (ft_flows ft) \<and>
      ft_last_heartbeat_us ft' = (if due then now else ft_last_heartbeat_us ft)"
proof -
  let ?ft = "run place (logging f) calls (fresh cfg q)"
  have fm: "fm_ok (ft_flows ?ft)"
    using table_ok_run [THEN table_okD] by (simp add: fresh_def)
  show ?thesis
    using intervals_run [of place "logging f" calls cfg q]
    by (simp add: Let_def timer_sweep_emitted [OF fm] timer_sweep_flows [OF fm]
        timer_sweep_frame [OF fm] idle_def filter_map comp_def)
qed

text \<open>
  Draining any reachable table emits one \<open>End\<close> event for every flow, in table order,
  with the time of the call, and leaves no flow: every flow ever created has then ended, and the
  gauge of active flows is zero.
\<close>

theorem flow_drain_exact:
  "let ft = run place (logging f) calls (fresh cfg q); ft' = drain_all (logging f) now ft
   in emitted ft' = emitted ft @ map (end_event now IdleTimeout) (map snd (ft_flows ft)) \<and>
      ft_flows ft' = [] \<and> ft_metrics ft' FlowsActive = 0 \<and>
      starts (emitted ft') = ends IdleTimeout (emitted ft') + ends TcpTeardown (emitted ft') \<and>
      lifecycle k (emitted ft') = Some False"
proof -
  let ?ft = "run place (logging f) calls (fresh cfg q)"
  let ?ft' = "drain_all (logging f) now ?ft"
  have m: "inv_metrics ?ft'" by (intro metric.drain_all metric.runs inv_metrics_fresh)
  have l: "inv_life ?ft'" by (intro life.drain_all life.runs inv_life_fresh)
  have flows: "ft_flows ?ft' = []" by (rule drain_all_flows)
  from m have "ft_metrics ?ft' FlowsActive = 0"
    and "starts (emitted ?ft') = ends IdleTimeout (emitted ?ft') + ends TcpTeardown (emitted ?ft')"
    by (simp_all only: inv_metrics_def flows list.size) simp_all
  moreover from l have "lifecycle k (emitted ?ft') = Some False"
    by (simp add: inv_life_def flows)
  ultimately show ?thesis
    by (simp only: Let_def flows drain_all_emitted map_map comp_def)
qed

text \<open>
  C34.  A packet of an unknown flow arriving at the limit leaves the flows, the
  events and the sink as they are; it is counted as received and as dropped, and a warning
  is logged for the first such packet and then for every thousandth one.
\<close>

theorem flow_over_limit:
  assumes "fm_find (key_from_packet pkt) (ft_flows ft) = None"
    and "cfg_max_flows (ft_cfg ft) \<le> int (length (ft_flows ft))"
    and "int (length (ft_flows ft)) \<le> INT_MAX" and "unat (ft_drop_count ft) < 2147483647"
  shows "let ft' = process place f pkt ft in
    ft_flows ft' = ft_flows ft \<and> ft_sink ft' = ft_sink ft \<and>
    (\<forall>x. ft_metrics ft' x = ft_metrics ft x + (if x \<in> {PacketsReceived, PacketsDropped} then 1 else 0)) \<and>
    ft_log ft' = ft_log ft @
      (if unat (ft_drop_count ft) mod 1000 = 0 then [Max_Flows_Reached (cfg_max_flows (ft_cfg ft))] else [])"
proof -
  have lim: "at_limit ft" using assms(2,3) by (simp add: at_limit_def size_as_int_eq)
  have "sint (ft_drop_count ft + 1) smod 1000 = 1 \<longleftrightarrow> unat (ft_drop_count ft) mod 1000 = 0"
    by (rule warn_every_thousand [OF assms(4)])
  then have refused: "ft_log (refuse (received ft)) = ft_log ft @
      (if unat (ft_drop_count ft) mod 1000 = 0 then [Max_Flows_Reached (cfg_max_flows (ft_cfg ft))] else [])"
    by (simp add: refuse_def on_metrics_def warn_def Let_def)
  have "process place f pkt ft = refuse (received ft)"
    using lim assms(1) by (simp add: process_eq)
  then show ?thesis by (simp add: refused ft_metrics_refuse Let_def)
qed

theorem flow_over_limit_witness:
  "let ft = FlowTable (default_config\<lparr>cfg_max_flows := 0\<rparr>) metrics_zero ()
   in ft_log (process (\<lambda>_ _. 0) (\<lambda>e q. (True, q)) default_packet ft) = [Max_Flows_Reached 0]"
  using flow_over_limit [of default_packet "FlowTable (default_config\<lparr>cfg_max_flows := 0\<rparr>) metrics_zero ()"
      "\<lambda>_ _. 0" "\<lambda>e q. (True, q)"]
  by (simp add: FlowTable_def default_config_def fm_find_def INT_MAX_def Let_def)

text \<open>
  C35.  A TCP packet with FIN or RST ends its flow at once if the flow is in the table: the
  \<open>End\<close> event has reason \<open>TcpTeardown\<close>, the packet's time, and counts that include the packet.  A
  first packet with FIN or RST opens a flow instead, which stays in the table.
\<close>

theorem flow_teardown:
  assumes "pp_protocol pkt = IPPROTO_TCP" and "pp_tcp_fin pkt \<or> pp_tcp_rst pkt"
  defines "k \<equiv> key_from_packet pkt"
  shows "(\<forall>s. fm_find k (ft_flows ft) = Some s \<longrightarrow>
      (let ft' = process place (logging f) pkt ft in
       fm_find k (ft_flows ft') = None \<and>
       emitted ft' = emitted ft @ [end_event (pp_timestamp_us pkt) TcpTeardown
         (s\<lparr>fs_last_seen_us := pp_timestamp_us pkt, fs_packet_count := fs_packet_count s + 1,
            fs_byte_count := fs_byte_count s + ucast (pp_wire_length pkt)\<rparr>)])) \<and>
    (fm_find k (ft_flows ft) = None \<and> int (length (ft_flows ft)) < cfg_max_flows (ft_cfg ft) \<and>
       cfg_max_flows (ft_cfg ft) \<le> INT_MAX \<longrightarrow>
      (let ft' = process place (logging f) pkt ft in
       fm_find k (ft_flows ft') \<noteq> None \<and> emitted ft' = emitted ft @ [start_event (opened pkt)]))"
proof -
  have td: "teardown pkt" using assms(1,2) by (simp add: teardown_def)
  have "\<not> at_limit ft" if "int (length (ft_flows ft)) < cfg_max_flows (ft_cfg ft)"
      "cfg_max_flows (ft_cfg ft) \<le> INT_MAX"
    using that by (simp add: at_limit_def size_as_int_eq)
  with td show ?thesis
    by (auto simp: k_def process_eq Let_def fm_find_erase fm_find_emplace touched_def)
qed

theorem flow_teardown_witness:
  "let ft = process (\<lambda>_ _. 0) (logging (\<lambda>e q. (True, q))) (sample_packet 7 60 10 False) (fresh default_config ());
       ft' = process (\<lambda>_ _. 0) (logging (\<lambda>e q. (True, q))) (sample_packet 7 40 12 True) ft
   in fm_find (key_from_packet (sample_packet 7 40 12 True)) (ft_flows ft') = None"
proof -
  let ?f = "logging (\<lambda>e q. (True, q))" and ?p = "sample_packet 7 40 12 True"
  let ?ft = "process (\<lambda>_ _. 0) ?f (sample_packet 7 60 10 False) (fresh default_config ())"
  have "fm_find (key_from_packet ?p) (ft_flows ?ft) = Some (opened (sample_packet 7 60 10 False))"
    by code_simp
  moreover have "pp_protocol ?p = IPPROTO_TCP" "pp_tcp_fin ?p \<or> pp_tcp_rst ?p"
    by (simp_all add: sample_packet_def IPPROTO_TCP_def)
  ultimately show ?thesis
    using flow_teardown [of ?p ?ft "\<lambda>_ _. 0" "\<lambda>e q. (True, q)"] by (simp add: Let_def)
qed

end
