(* ===== verification/Packet_Source.thy ===== *)
theory Packet_Source
  imports Packet_Decoder Std_String
begin

section \<open>Packet sources (packets/)\<close>

text \<open>
  \<open>PcapFileSource\<close> and \<open>LiveCaptureSource\<close>.  libpcap and libcap are not part of the
  repository: what they answer is a parameter, the record \<open>pcap_lib\<close>, of functions of the calls
  made before, so that every behaviour of the library is some value of the parameter.  The
  calls themselves are recorded in order, which makes the use of handles and filter
  programs visible.  The application behind the callback has a state \<open>'s\<close>; \<open>Bad_Read\<close> stands for
  a read outside a captured packet.
\<close>

type_synonym pcap_handle = nat

datatype pcap_event =
    Open_Offline string "pcap_handle option"
  | Open_Live string int int int "pcap_handle option"
  | Compile pcap_handle string int int
  | Setfilter pcap_handle int
  | Geterr pcap_handle
  | Freecode
  | Setnonblock pcap_handle int int
  | Loop pcap_handle int int
  | Dispatch pcap_handle int int
  | Breakloop pcap_handle
  | Close pcap_handle

record pcap_pkthdr =
  ph_ts :: timeval
  ph_caplen :: u32

type_synonym captured = "pcap_pkthdr \<times> u8 list"

text \<open>
  The answers: the handle or the error text of an open, the status of \<open>pcap_compile\<close>,
  \<open>pcap_setfilter\<close> and \<open>pcap_setnonblock\<close>, the text of \<open>pcap_geterr\<close>, and for \<open>pcap_loop\<close> and
  \<open>pcap_dispatch\<close> the packets handed to the handler and the result.
\<close>

record pcap_lib =
  lib_open :: "pcap_event list \<Rightarrow> string + pcap_handle"
  lib_compile :: "pcap_event list \<Rightarrow> int"
  lib_setfilter :: "pcap_event list \<Rightarrow> int"
  lib_geterr :: "pcap_event list \<Rightarrow> string"
  lib_setnonblock :: "pcap_event list \<Rightarrow> int \<times> string"
  lib_packets :: "pcap_event list \<Rightarrow> captured list"
  lib_result :: "pcap_event list \<Rightarrow> int"

definition PCAP_ERROR :: int where "PCAP_ERROR = - 1"
definition PCAP_ERROR_BREAK :: int where "PCAP_ERROR_BREAK = - 2"
definition PCAP_NETMASK_UNKNOWN :: int where "PCAP_NETMASK_UNKNOWN = 0xFFFFFFFF"

text \<open>The calls so far and the state of the application.\<close>

record 's world =
  w_calls :: "pcap_event list"
  w_app :: "'s decoding"

definition call :: "pcap_event \<Rightarrow> 's world \<Rightarrow> 's world" where
  "call e w = w\<lparr>w_calls := w_calls w @ [e]\<rparr>"

record source =
  src_name :: string
  src_bpf_filter :: string
  src_metrics :: bool
  src_handle :: "pcap_handle option"

text \<open>Exceptions: \<open>std::runtime_error\<close> with its message, or the normal end.\<close>

datatype outcome = Returned | Runtime_Error string

subsection \<open>The packet handler\<close>

text \<open>
  \<open>callback\<close> is the function given to \<open>run\<close>, \<open>dropped\<close> the increment of
  \<open>packets_dropped\<close>, made when the source has a metrics registry.
\<close>

definition pcap_handler ::
  "(parsed_packet \<Rightarrow> 's \<Rightarrow> 's) \<Rightarrow> ('s \<Rightarrow> 's) \<Rightarrow> bool \<Rightarrow> captured \<Rightarrow> 's decoding \<Rightarrow> 's decoding" where
  "pcap_handler callback dropped metrics p app =
     and_then app (\<lambda>s.
       case decode (Some (snd p)) (ph_caplen (fst p)) (ph_ts (fst p)) of
         Bad_Read \<Rightarrow> Bad_Read
       | Decoded pkt \<Rightarrow> Decoded (callback pkt s)
       | Nullopt \<Rightarrow> Decoded (if metrics then dropped s else s))"

definition handle_packets ::
  "(parsed_packet \<Rightarrow> 's \<Rightarrow> 's) \<Rightarrow> ('s \<Rightarrow> 's) \<Rightarrow> bool \<Rightarrow> captured list \<Rightarrow> 's world \<Rightarrow> 's world" where
  "handle_packets callback dropped metrics ps w =
     w\<lparr>w_app := fold (pcap_handler callback dropped metrics) ps (w_app w)\<rparr>"

subsection \<open>Reading a file\<close>

definition PcapFileSource :: "string \<Rightarrow> string \<Rightarrow> bool \<Rightarrow> source" where
  "PcapFileSource path bpf_filter metrics =
     \<lparr>src_name = path, src_bpf_filter = bpf_filter, src_metrics = metrics, src_handle = None\<rparr>"

text \<open>
  A signal handler may run between any two steps and call \<open>stop\<close>; \<open>sig\<close> says after which calls of libpcap it
  does.  A signal during \<open>pcap_loop\<close> or \<open>pcap_dispatch\<close> counts as one after that call, whose packets and
  result are the library's choice.
\<close>

definition stop_source :: "source \<Rightarrow> 's world \<Rightarrow> 's world" where
  "stop_source src w =
     (case src_handle src of None \<Rightarrow> w | Some h \<Rightarrow> call (Breakloop h) w)"

definition interrupt :: "(pcap_event list \<Rightarrow> bool) \<Rightarrow> source \<Rightarrow> 's world \<Rightarrow> 's world" where
  "interrupt sig src w = (if sig (w_calls w) then stop_source src w else w)"

definition pcap_call :: "(pcap_event list \<Rightarrow> bool) \<Rightarrow> source \<Rightarrow> pcap_event \<Rightarrow> 's world \<Rightarrow> 's world" where
  "pcap_call sig src e w = interrupt sig src (call e w)"

text \<open>\<open>pcap_close(handle_); handle_ = nullptr\<close>: a signal in between finds the handle still set.\<close>

definition close_handle ::
  "(pcap_event list \<Rightarrow> bool) \<Rightarrow> pcap_handle \<Rightarrow> source \<Rightarrow> 's world \<Rightarrow> source \<times> 's world" where
  "close_handle sig h src w =
     (let w = pcap_call sig src (Close h) w in (src\<lparr>src_handle := None\<rparr>, w))"

text \<open>The destructor of either source.\<close>

definition destroy_source :: "(pcap_event list \<Rightarrow> bool) \<Rightarrow> source \<Rightarrow> 's world \<Rightarrow> source \<times> 's world" where
  "destroy_source sig src w =
     (case src_handle src of None \<Rightarrow> (src, w) | Some h \<Rightarrow> close_handle sig h src w)"

text \<open>The block that compiles and installs the filter; an error message if it throws.\<close>

definition install_filter ::
  "pcap_lib \<Rightarrow> (pcap_event list \<Rightarrow> bool) \<Rightarrow> pcap_handle \<Rightarrow> source \<Rightarrow> 's world \<Rightarrow>
   string option \<times> source \<times> 's world" where
  "install_filter lib sig h src w =
     (if src_bpf_filter src = [] then (None, src, w)
      else
        (let r = lib_compile lib (w_calls w);
             w = pcap_call sig src (Compile h (src_bpf_filter src) 1 r) w
         in if r \<noteq> 0 then
              (let err = lib_geterr lib (w_calls w);
                   w = pcap_call sig src (Geterr h) w;
                   (src, w) = close_handle sig h src w
               in (Some (''BPF filter compile error: '' @ err), src, w))
            else
              (let r = lib_setfilter lib (w_calls w);
                   w = pcap_call sig src (Setfilter h r) w
               in if r \<noteq> 0 then
                    (let err = lib_geterr lib (w_calls w);
                         w = pcap_call sig src (Geterr h) w;
                         w = pcap_call sig src Freecode w;
                         (src, w) = close_handle sig h src w
                     in (Some (''BPF setfilter error: '' @ err), src, w))
                  else (None, src, pcap_call sig src Freecode w))))"

definition file_run ::
  "pcap_lib \<Rightarrow> (pcap_event list \<Rightarrow> bool) \<Rightarrow> (parsed_packet \<Rightarrow> 's \<Rightarrow> 's) \<Rightarrow> ('s \<Rightarrow> 's) \<Rightarrow>
   source \<Rightarrow> 's world \<Rightarrow> outcome \<times> source \<times> 's world" where
  "file_run lib sig callback dropped src w =
     (let w = interrupt sig src w in
      case lib_open lib (w_calls w) of
        Inl errbuf \<Rightarrow>
          (Runtime_Error (''Cannot open pcap file: '' @ errbuf), src\<lparr>src_handle := None\<rparr>,
           call (Open_Offline (src_name src) None) w)
      | Inr h \<Rightarrow>
          (let src = src\<lparr>src_handle := Some h\<rparr>;
               w = pcap_call sig src (Open_Offline (src_name src) (Some h)) w;
               (err, src, w) = install_filter lib sig h src w
           in case err of
                Some msg \<Rightarrow> (Runtime_Error msg, src, w)
              | None \<Rightarrow>
                  (let ps = lib_packets lib (w_calls w);
                       r = lib_result lib (w_calls w);
                       w = handle_packets callback dropped (src_metrics src) ps (call (Loop h 0 r) w);
                       w = interrupt sig src w;
                       (src, w) = close_handle sig h src w
                   in (Returned, src, w))))"

definition file_description :: "source \<Rightarrow> string" where
  "file_description src = ''pcap-file:'' @ src_name src"

subsection \<open>Live capture\<close>

text \<open>
  On Linux: \<open>cap_get_proc\<close> fails or gives the capability state, of which \<open>cap_get_flag\<close> reads one
  flag; when that call fails, \<open>val\<close> keeps \<open>CAP_CLEAR\<close>.
\<close>

definition has_cap_net_raw :: "'c option \<Rightarrow> ('c \<Rightarrow> bool option) \<Rightarrow> bool" where
  "has_cap_net_raw cap_get_proc cap_get_flag =
     (case cap_get_proc of
        None \<Rightarrow> False
      | Some caps \<Rightarrow> (case cap_get_flag caps of None \<Rightarrow> False | Some set_flag \<Rightarrow> set_flag))"

definition LiveCaptureSource ::
  "bool \<Rightarrow> string \<Rightarrow> string \<Rightarrow> bool \<Rightarrow> string + source" where
  "LiveCaptureSource has_cap iface bpf_filter metrics =
     (if \<not> has_cap then
        Inl (''Live capture requires CAP_NET_RAW. Run as root or grant the capability:'' @
             [CHR 0x0A] @ ''  sudo setcap cap_net_raw+eip ./packetpipe'')
      else Inr \<lparr>src_name = iface, src_bpf_filter = bpf_filter, src_metrics = metrics,
                src_handle = None\<rparr>)"

text \<open>
  The loop around \<open>pcap_dispatch\<close>, with fuel for its iterations: \<open>None\<close> says that the fuel did not
  suffice.
\<close>

fun dispatch_loop ::
  "pcap_lib \<Rightarrow> (pcap_event list \<Rightarrow> bool) \<Rightarrow> (parsed_packet \<Rightarrow> 's \<Rightarrow> 's) \<Rightarrow> ('s \<Rightarrow> 's) \<Rightarrow>
   pcap_handle \<Rightarrow> source \<Rightarrow> nat \<Rightarrow> 's world \<Rightarrow> (string option \<times> 's world) option" where
  "dispatch_loop lib sig callback dropped h src 0 w = None"
| "dispatch_loop lib sig callback dropped h src (Suc fuel) w =
     (let ps = lib_packets lib (w_calls w);
          r = lib_result lib (w_calls w);
          w = handle_packets callback dropped (src_metrics src) ps (call (Dispatch h 100 r) w);
          w = interrupt sig src w
      in if r = PCAP_ERROR_BREAK then Some (None, w)
         else if r = PCAP_ERROR then
           (let err = lib_geterr lib (w_calls w)
            in Some (Some (''pcap_dispatch error: '' @ err), pcap_call sig src (Geterr h) w))
         else dispatch_loop lib sig callback dropped h src fuel w)"

definition live_run ::
  "pcap_lib \<Rightarrow> (pcap_event list \<Rightarrow> bool) \<Rightarrow> (parsed_packet \<Rightarrow> 's \<Rightarrow> 's) \<Rightarrow> ('s \<Rightarrow> 's) \<Rightarrow>
   nat \<Rightarrow> source \<Rightarrow> 's world \<Rightarrow> (outcome \<times> source \<times> 's world) option" where
  "live_run lib sig callback dropped fuel src w =
     (let w = interrupt sig src w in
      case lib_open lib (w_calls w) of
        Inl errbuf \<Rightarrow>
          Some (Runtime_Error (''Cannot open interface '' @ src_name src @ '': '' @ errbuf),
                src\<lparr>src_handle := None\<rparr>, call (Open_Live (src_name src) 65535 1 100 None) w)
      | Inr h \<Rightarrow>
          (let src = src\<lparr>src_handle := Some h\<rparr>;
               w = pcap_call sig src (Open_Live (src_name src) 65535 1 100 (Some h)) w;
               (err, src, w) = install_filter lib sig h src w
           in case err of
                Some msg \<Rightarrow> Some (Runtime_Error msg, src, w)
              | None \<Rightarrow>
                  (let (r, errbuf) = lib_setnonblock lib (w_calls w);
                       w = pcap_call sig src (Setnonblock h 1 r) w
                   in if r \<noteq> 0 then Some (Runtime_Error (''pcap_setnonblock: '' @ errbuf), src, w)
                      else
                        (case dispatch_loop lib sig callback dropped h src fuel w of
                           None \<Rightarrow> None
                         | Some (Some msg, w) \<Rightarrow> Some (Runtime_Error msg, src, w)
                         | Some (None, w) \<Rightarrow>
                             (let (src, w) = close_handle sig h src w in Some (Returned, src, w))))))"

definition live_description :: "source \<Rightarrow> string" where
  "live_description src = ''live-iface:'' @ src_name src"

subsection \<open>Use of handles and filter programs\<close>

text \<open>
  The open handle and whether a compiled filter program is live; \<open>None\<close> when a call used a
  handle that is not open, opened a second one, closed one twice, or leaked a program.
\<close>

type_synonym usage = "(pcap_handle option \<times> bool) option"

fun use_step :: "usage \<Rightarrow> pcap_event \<Rightarrow> usage" where
  "use_step (Some (None, False)) (Open_Offline _ r) = Some (r, False)"
| "use_step (Some (None, False)) (Open_Live _ _ _ _ r) = Some (r, False)"
| "use_step (Some (Some h, False)) (Compile h' _ _ r) = (if h = h' then Some (Some h, r = 0) else None)"
| "use_step (Some (Some h, True)) (Setfilter h' _) = (if h = h' then Some (Some h, True) else None)"
| "use_step (Some (Some h, p)) (Geterr h') = (if h = h' then Some (Some h, p) else None)"
| "use_step (Some (Some h, True)) Freecode = Some (Some h, False)"
| "use_step (Some (Some h, False)) (Setnonblock h' _ _) = (if h = h' then Some (Some h, False) else None)"
| "use_step (Some (Some h, False)) (Loop h' _ _) = (if h = h' then Some (Some h, False) else None)"
| "use_step (Some (Some h, False)) (Dispatch h' _ _) = (if h = h' then Some (Some h, False) else None)"
| "use_step (Some (Some h, p)) (Breakloop h') = (if h = h' then Some (Some h, p) else None)"
| "use_step (Some (Some h, False)) (Close h') = (if h = h' then Some (None, False) else None)"
| "use_step _ _ = None"

definition usage :: "pcap_event list \<Rightarrow> usage" where
  "usage evs = foldl use_step (Some (None, False)) evs"

lemma usage_simps [simp]: "usage [] = Some (None, False)" "usage (evs @ es) = foldl use_step (usage evs) es"
  by (simp_all add: usage_def)

lemma world_simps [simp]:
  "w_calls (call e w) = w_calls w @ [e]" "w_app (call e w) = w_app w"
  "w_calls (handle_packets f g b ps w) = w_calls w"
  by (simp_all add: call_def handle_packets_def)

text \<open>A call with the handler behind it, while the handle is open.\<close>

lemma interrupt_app [simp]:
  "w_app (interrupt sig src w) = w_app w" "w_app (pcap_call sig src e w) = w_app w"
  by (simp_all add: interrupt_def pcap_call_def stop_source_def split: option.split)

lemma interrupt_no_handle [simp]: "src_handle src = None \<Longrightarrow> interrupt sig src w = w"
  by (simp add: interrupt_def stop_source_def)

lemma usage_interrupt:
  "usage (w_calls w) = Some (Some h, p) \<Longrightarrow> src_handle src = Some h \<Longrightarrow>
    usage (w_calls (interrupt sig src w)) = Some (Some h, p)"
  by (simp add: interrupt_def stop_source_def)

lemma usage_pcap_call:
  "use_step (usage (w_calls w)) e = Some (Some h, p) \<Longrightarrow> src_handle src = Some h \<Longrightarrow>
    usage (w_calls (pcap_call sig src e w)) = Some (Some h, p)"
  unfolding pcap_call_def by (rule usage_interrupt) simp_all

definition quiet_close :: "(pcap_event list \<Rightarrow> bool) \<Rightarrow> bool" where
  "quiet_close sig \<longleftrightarrow> (\<forall>evs h. \<not> sig (evs @ [Close h]))"

lemma usage_close:
  assumes "quiet_close sig" and "usage (w_calls w) = Some (Some h, False)"
    and "close_handle sig h src w = (src', w')"
  shows "src_handle src' = None \<and> usage (w_calls w') = Some (None, False)"
  using assms by (auto simp: close_handle_def pcap_call_def interrupt_def quiet_close_def)

lemma install_filter_usage:
  assumes "install_filter lib sig h src w = (err, src', w')" and "quiet_close sig"
    and "usage (w_calls w) = Some (Some h, False)" and "src_handle src = Some h"
  shows "case err of
      None \<Rightarrow> src' = src \<and> usage (w_calls w') = Some (Some h, False)
    | Some _ \<Rightarrow> src_handle src' = None \<and> usage (w_calls w') = Some (None, False)"
proof (cases "src_bpf_filter src = []")
  case True
  with assms show ?thesis by (auto simp: install_filter_def)
next
  case False
  define r where "r = lib_compile lib (w_calls w)"
  define w1 where "w1 = pcap_call sig src (Compile h (src_bpf_filter src) 1 r) w"
  define r2 where "r2 = lib_setfilter lib (w_calls w1)"
  define w2 where "w2 = pcap_call sig src (Setfilter h r2) w1"
  define w3 where "w3 = pcap_call sig src (Geterr h) w2"
  note at = usage_pcap_call [OF _ assms(4), of _ _ _ sig]
  have w1: "usage (w_calls w1) = Some (Some h, r = 0)"
    unfolding w1_def by (rule at) (simp add: assms(3))
  have closed: "usage (w_calls (pcap_call sig src (Geterr h) w1)) = Some (Some h, False)" if "r \<noteq> 0"
    by (rule at) (simp add: w1 that)
  have w2: "usage (w_calls w2) = Some (Some h, True)" if "r = 0"
    unfolding w2_def by (rule at) (simp add: w1 that)
  have w3: "usage (w_calls w3) = Some (Some h, True)" if "r = 0"
    unfolding w3_def by (rule at) (simp add: w2 that)
  have freed: "usage (w_calls (pcap_call sig src Freecode w2)) = Some (Some h, False)"
    "usage (w_calls (pcap_call sig src Freecode w3)) = Some (Some h, False)" if "r = 0"
    by (rule at, simp add: w2 w3 that)+
  have "install_filter lib sig h src w =
      (if r \<noteq> 0 then
         (let (src, w) = close_handle sig h src (pcap_call sig src (Geterr h) w1)
          in (Some (''BPF filter compile error: '' @ lib_geterr lib (w_calls w1)), src, w))
       else if r2 \<noteq> 0 then
         (let (src, w) = close_handle sig h src (pcap_call sig src Freecode w3)
          in (Some (''BPF setfilter error: '' @ lib_geterr lib (w_calls w2)), src, w))
       else (None, src, pcap_call sig src Freecode w2))"
    using False by (simp add: install_filter_def Let_def r_def w1_def r2_def w2_def w3_def)
  with assms(1) show ?thesis
    using usage_close [OF assms(2) closed, of src] usage_close [OF assms(2) freed(2), of src] freed(1)
    by (cases "r = 0") (auto split: if_splits prod.splits)
qed

lemma dispatch_loop_usage:
  assumes "dispatch_loop lib sig f g h src fuel w = Some (err, w')"
    and "usage (w_calls w) = Some (Some h, False)" and "src_handle src = Some h"
  shows "usage (w_calls w') = Some (Some h, False)"
  using assms
proof (induction fuel arbitrary: w)
  case (Suc fuel)
  let ?w = "interrupt sig src (handle_packets f g (src_metrics src) (lib_packets lib (w_calls w))
    (call (Dispatch h 100 (lib_result lib (w_calls w))) w))"
  have "usage (w_calls ?w) = Some (Some h, False)" using Suc.prems by (intro usage_interrupt) simp_all
  with Suc show ?case by (auto simp: Let_def usage_pcap_call split: if_splits)
qed simp

lemma file_run_usage:
  assumes "usage (w_calls w) = Some (None, False)" and "src_handle src = None" and "quiet_close sig"
    and "file_run lib sig callback dropped src w = (out, src', w')"
  shows "src_handle src' = None \<and> usage (w_calls w') = Some (None, False)"
proof (cases "lib_open lib (w_calls w)")
  case (Inr h)
  let ?src = "src\<lparr>src_handle := Some h\<rparr>"
  let ?w = "pcap_call sig ?src (Open_Offline (src_name src) (Some h)) w"
  obtain err src1 w1 where filter: "install_filter lib sig h ?src ?w = (err, src1, w1)"
    by (cases "install_filter lib sig h ?src ?w") auto
  have "usage (w_calls ?w) = Some (Some h, False)" by (rule usage_pcap_call) (simp_all add: assms(1))
  note fu = install_filter_usage [OF filter assms(3) this]
  show ?thesis
  proof (cases err)
    case None
    then have 1: "src1 = ?src" "usage (w_calls w1) = Some (Some h, False)" using fu by simp_all
    let ?w2 = "interrupt sig ?src (handle_packets callback dropped (src_metrics src)
      (lib_packets lib (w_calls w1)) (call (Loop h 0 (lib_result lib (w_calls w1))) w1))"
    have "usage (w_calls ?w2) = Some (Some h, False)" using 1(2) by (intro usage_interrupt) simp_all
    from usage_close [OF assms(3) this, of ?src] None filter 1(1) Inr assms(2,4) show ?thesis
      by (auto simp: file_run_def Let_def split: prod.splits)
  next
    case (Some msg)
    with fu filter Inr assms(2,4) show ?thesis by (simp add: file_run_def Let_def)
  qed
qed (use assms in \<open>auto simp: file_run_def\<close>)

text \<open>A live run, given what the opening of the handle and the filter answer.\<close>

lemma live_run_Inl:
  assumes "src_handle src = None" and "lib_open lib (w_calls w) = Inl e"
  shows "live_run lib sig f g fuel src w =
    Some (Runtime_Error (''Cannot open interface '' @ src_name src @ '': '' @ e),
      src\<lparr>src_handle := None\<rparr>, call (Open_Live (src_name src) 65535 1 100 None) w)"
  using assms by (simp add: live_run_def)

lemma live_run_Inr:
  assumes "src_handle src = None" and "lib_open lib (w_calls w) = Inr h"
    and "install_filter lib sig h (src\<lparr>src_handle := Some h\<rparr>)
      (pcap_call sig (src\<lparr>src_handle := Some h\<rparr>) (Open_Live (src_name src) 65535 1 100 (Some h)) w) =
      (err, src1, w1)"
    and "lib_setnonblock lib (w_calls w1) = (r, errbuf)"
  shows "live_run lib sig f g fuel src w =
    (case err of Some msg \<Rightarrow> Some (Runtime_Error msg, src1, w1)
     | None \<Rightarrow>
        if r \<noteq> 0 then Some (Runtime_Error (''pcap_setnonblock: '' @ errbuf), src1, pcap_call sig src1 (Setnonblock h 1 r) w1)
        else case dispatch_loop lib sig f g h src1 fuel (pcap_call sig src1 (Setnonblock h 1 r) w1) of
          None \<Rightarrow> None
        | Some (Some msg, w) \<Rightarrow> Some (Runtime_Error msg, src1, w)
        | Some (None, w) \<Rightarrow> (let (src, w) = close_handle sig h src1 w in Some (Returned, src, w)))"
  using assms by (simp add: live_run_def Let_def split: option.split)

lemma destroy_usage:
  assumes "quiet_close sig" and "usage (w_calls w) = Some (src_handle src, False)"
  shows "usage (w_calls (snd (destroy_source sig src w))) = Some (None, False)"
proof (cases "src_handle src")
  case None
  with assms show ?thesis by (simp add: destroy_source_def)
next
  case (Some h)
  obtain src' w' where close: "close_handle sig h src w = (src', w')" by fastforce
  from assms(2) Some have "usage (w_calls w) = Some (Some h, False)" by simp
  from usage_close [OF assms(1) this close] Some close show ?thesis by (simp add: destroy_source_def)
qed

lemma live_run_usage:
  assumes "usage (w_calls w) = Some (None, False)" and "src_handle src = None" and "quiet_close sig"
    and "live_run lib sig f g fuel src w = Some (out, src', w')"
  shows "usage (w_calls w') = Some (src_handle src', False) \<and> (out = Returned \<longrightarrow> src_handle src' = None)"
proof (cases "lib_open lib (w_calls w)")
  case (Inl e)
  from assms(4) [unfolded live_run_Inl [OF assms(2) Inl]] assms(1) show ?thesis by auto
next
  case (Inr h)
  let ?src = "src\<lparr>src_handle := Some h\<rparr>"
  let ?w = "pcap_call sig ?src (Open_Live (src_name src) 65535 1 100 (Some h)) w"
  obtain err src1 w1 where filter: "install_filter lib sig h ?src ?w = (err, src1, w1)"
    by (cases "install_filter lib sig h ?src ?w") auto
  obtain r msg where nb: "lib_setnonblock lib (w_calls w1) = (r, msg)" by fastforce
  note run = assms(4) [unfolded live_run_Inr [OF assms(2) Inr filter nb]]
  have "usage (w_calls ?w) = Some (Some h, False)" by (rule usage_pcap_call) (simp_all add: assms(1))
  note fu = install_filter_usage [OF filter assms(3) this]
  show ?thesis
  proof (cases err)
    case (Some msg)
    with fu run show ?thesis by auto
  next
    case None
    then have 1: "src_handle src1 = Some h" "usage (w_calls w1) = Some (Some h, False)" using fu by simp_all
    have 2: "usage (w_calls (pcap_call sig src1 (Setnonblock h 1 r) w1)) = Some (Some h, False)"
      using 1 by (intro usage_pcap_call) simp_all
    show ?thesis
    proof (cases "r = 0")
      case True
      then obtain e w2 where
        loop: "dispatch_loop lib sig f g h src1 fuel (pcap_call sig src1 (Setnonblock h 1 r) w1) = Some (e, w2)"
        using run None by (auto split: option.splits)
      have 3: "usage (w_calls w2) = Some (Some h, False)" using dispatch_loop_usage [OF loop 2 1(1)] .
      show ?thesis
        using run None True loop 1(1) 3 usage_close [OF assms(3) 3, of src1]
        by (cases e) (auto split: prod.splits)
    qed (use run None 1(1) 2 in auto)
  qed
qed

text \<open>
  C15.  Whatever libpcap answers and after whichever calls of libpcap the signal handler runs
  \<open>stop\<close>, except between \<open>pcap_close(handle_)\<close> and \<open>handle_ = nullptr\<close>, both sources use their handle
  only while it is open, free every compiled filter program, and once \<open>run\<close> has ended and the source
  is destroyed no handle is left open; a file source has closed it when \<open>run\<close> ends, also when it throws.
\<close>

theorem source_releases_handles:
  assumes "usage (w_calls w) = Some (None, False)" and "src_handle src = None"
    and "\<And>evs h. \<not> sig (evs @ [Close h])"
  shows "(let (out, src', w') = file_run lib sig callback dropped src w
      in src_handle src' = None \<and> usage (w_calls w') = Some (None, False)) \<and>
    (case live_run lib sig callback dropped fuel src w of
       None \<Rightarrow> True
     | Some (out, src', w') \<Rightarrow>
         usage (w_calls (snd (destroy_source sig src' w'))) = Some (None, False) \<and>
         (out = Returned \<longrightarrow> src_handle src' = None))"
proof -
  have quiet: "quiet_close sig" using assms(3) by (simp add: quiet_close_def)
  have "usage (w_calls (snd (destroy_source sig src' w'))) = Some (None, False) \<and>
      (out = Returned \<longrightarrow> src_handle src' = None)"
    if "live_run lib sig callback dropped fuel src w = Some (out, src', w')" for out src' w'
    using live_run_usage [OF assms(1,2) quiet that] destroy_usage [OF quiet] by blast
  with file_run_usage [OF assms(1,2) quiet, of lib callback dropped] show ?thesis
    by (auto simp: Let_def split: option.split prod.split)
qed

theorem source_releases_handles_witness:
  "let lib = \<lparr>lib_open = (\<lambda>_. Inr 7), lib_compile = (\<lambda>_. 0), lib_setfilter = (\<lambda>_. - 1),
          lib_geterr = (\<lambda>_. ''bad''), lib_setnonblock = (\<lambda>_. (0, [])), lib_packets = (\<lambda>_. []),
          lib_result = (\<lambda>_. 0)\<rparr>;
       (out, src', w') = file_run lib (\<lambda>evs. evs \<noteq> [] \<and> last evs = Freecode) (\<lambda>p s. s) (\<lambda>s. s) (PcapFileSource ''f'' ''tcp'' False)
          \<lparr>w_calls = [], w_app = Decoded ()\<rparr>
   in out = Runtime_Error ''BPF setfilter error: bad'' \<and> Breakloop 7 \<in> set (w_calls w') \<and>
     usage (w_calls w') = Some (None, False)"
proof -
  let ?lib = "\<lparr>lib_open = (\<lambda>_. Inr 7), lib_compile = (\<lambda>_. 0), lib_setfilter = (\<lambda>_. - 1),
          lib_geterr = (\<lambda>_. ''bad''), lib_setnonblock = (\<lambda>_. (0, [])), lib_packets = (\<lambda>_. []),
          lib_result = (\<lambda>_. 0)\<rparr>"
  let ?w = "\<lparr>w_calls = [], w_app = Decoded ()\<rparr>" and ?src = "PcapFileSource ''f'' ''tcp'' False"
  let ?run = "file_run ?lib (\<lambda>evs. evs \<noteq> [] \<and> last evs = Freecode) (\<lambda>p s. s) (\<lambda>s. s) ?src ?w"
  have "fst ?run = Runtime_Error ''BPF setfilter error: bad'' \<and> Breakloop 7 \<in> set (w_calls (snd (snd ?run)))"
    by code_simp
  moreover have "let (out, src', w') = ?run in src_handle src' = None \<and> usage (w_calls w') = Some (None, False)"
    by (rule conjunct1 [OF source_releases_handles]) (simp_all add: PcapFileSource_def)
  ultimately show ?thesis by (auto simp: Let_def split: prod.splits)
qed

text \<open>A signal after the close.\<close>

lemma use_after_close: "use_step (use_step u (Close h)) (Breakloop h') = None"
  by (cases "(u, Close h)" rule: use_step.cases) auto

lemma close_race:
  assumes "\<forall>evs h. sig (evs @ [Close h])" and "src_handle src = Some h'"
    and "close_handle sig h src w = (src', w')"
  shows "usage (w_calls w') = None"
  using assms by (auto simp: close_handle_def pcap_call_def interrupt_def stop_source_def use_after_close)

lemma install_filter_None: "install_filter lib sig h src w = (None, src', w') \<Longrightarrow> src' = src"
  by (auto simp: install_filter_def Let_def split: if_splits prod.splits)

lemma install_filter_race:
  assumes "\<forall>evs h. sig (evs @ [Close h])" and "src_handle src = Some h'"
    and "install_filter lib sig h src w = (Some msg, src', w')"
  shows "usage (w_calls w') = None"
  using assms(3) close_race [OF assms(1,2)]
  by (auto simp: install_filter_def Let_def split: if_splits prod.splits)

lemma file_close_race:
  assumes "\<forall>evs h. sig (evs @ [Close h])" and "src_handle src = None"
    and Inr: "lib_open lib (w_calls w) = Inr h"
  shows "usage (w_calls (snd (snd (file_run lib sig callback dropped src w)))) = None"
proof -
  let ?src = "src\<lparr>src_handle := Some h\<rparr>"
  obtain err src1 w1 where filter:
    "install_filter lib sig h ?src (pcap_call sig ?src (Open_Offline (src_name src) (Some h)) w) = (err, src1, w1)"
    by (metis prod.collapse)
  show ?thesis
  proof (cases err)
    case None
    then have src1: "src1 = ?src" using filter install_filter_None by fastforce
    obtain src2 w2 where close: "close_handle sig h ?src (interrupt sig ?src (handle_packets callback dropped
        (src_metrics src) (lib_packets lib (w_calls w1)) (call (Loop h 0 (lib_result lib (w_calls w1))) w1))) = (src2, w2)"
      by (metis prod.collapse)
    from close_race [OF assms(1), of ?src h, OF _ close] close None filter src1 Inr assms(2) show ?thesis
      by (simp add: file_run_def Let_def)
  next
    case (Some msg)
    with install_filter_race [OF assms(1), of ?src h] filter Inr assms(2) show ?thesis
      by (simp add: file_run_def Let_def)
  qed
qed

lemma live_close_race:
  assumes "\<forall>evs h. sig (evs @ [Close h])" and "src_handle src = None"
    and "live_run lib sig callback dropped fuel src w = Some (Returned, src', w')"
  shows "usage (w_calls w') = None"
proof -
  note run = assms(3)
  show ?thesis
  proof (cases "lib_open lib (w_calls w)")
    case (Inl e)
    with run live_run_Inl [OF assms(2) Inl] show ?thesis by simp
  next
    case (Inr h)
    let ?src = "src\<lparr>src_handle := Some h\<rparr>"
    obtain err src1 w1 where filter: "install_filter lib sig h ?src
        (pcap_call sig ?src (Open_Live (src_name src) 65535 1 100 (Some h)) w) = (err, src1, w1)"
      by (metis prod.collapse)
    obtain r msg where nb: "lib_setnonblock lib (w_calls w1) = (r, msg)" by fastforce
    have "src_handle src1 = Some h" if "err = None" using filter that install_filter_None by fastforce
    with run [unfolded live_run_Inr [OF assms(2) Inr filter nb]] close_race [OF assms(1), of src1 h]
    show ?thesis by (auto split: option.splits if_splits prod.splits)
  qed
qed

text \<open>
  C36.  A signal that arrives between \<open>pcap_close(handle_)\<close> and \<open>handle_ = nullptr\<close> makes \<open>stop\<close>
  call \<open>pcap_breakloop\<close> on the closed handle, in either source: with a handler that runs there, every run of a
  file source that opened its file, and every run of a live source that returns, uses a handle after it was closed.
\<close>

theorem source_close_race:
  assumes "\<And>evs h. sig (evs @ [Close h])" and "src_handle src = None"
  shows "(\<forall>h. lib_open lib (w_calls w) = Inr h \<longrightarrow>
      usage (w_calls (snd (snd (file_run lib sig callback dropped src w)))) = None) \<and>
    (\<forall>src' w'. live_run lib sig callback dropped fuel src w = Some (Returned, src', w') \<longrightarrow>
      usage (w_calls w') = None)"
proof -
  have noisy: "\<forall>evs h. sig (evs @ [Close h])" by (intro allI assms(1))
  show ?thesis
    by (intro conjI allI impI) (erule file_close_race [OF noisy assms(2)], erule live_close_race [OF noisy assms(2)])
qed

theorem source_close_race_witness:
  "let lib = \<lparr>lib_open = (\<lambda>_. Inr 7), lib_compile = (\<lambda>_. 0), lib_setfilter = (\<lambda>_. 0),
          lib_geterr = (\<lambda>_. []), lib_setnonblock = (\<lambda>_. (0, [])), lib_packets = (\<lambda>_. []),
          lib_result = (\<lambda>_. 0)\<rparr>;
       w' = snd (snd (file_run lib (\<lambda>evs. case rev evs of Close _ # _ \<Rightarrow> True | _ \<Rightarrow> False) (\<lambda>p s. s) (\<lambda>s. s)
          (PcapFileSource ''f'' [] False) \<lparr>w_calls = [], w_app = Decoded ()\<rparr>))
   in w_calls w' = [Open_Offline ''f'' (Some 7), Loop 7 0 0, Close 7, Breakloop 7] \<and> usage (w_calls w') = None"
proof -
  let ?lib = "\<lparr>lib_open = (\<lambda>_. Inr 7), lib_compile = (\<lambda>_. 0), lib_setfilter = (\<lambda>_. 0),
          lib_geterr = (\<lambda>_. []), lib_setnonblock = (\<lambda>_. (0, [])), lib_packets = (\<lambda>_. []),
          lib_result = (\<lambda>_. 0)\<rparr>"
  let ?sig = "\<lambda>evs. case rev evs of Close _ # _ \<Rightarrow> True | _ \<Rightarrow> False"
  let ?w = "\<lparr>w_calls = [], w_app = Decoded ()\<rparr>" and ?src = "PcapFileSource ''f'' [] False"
  have "usage (w_calls (snd (snd (file_run ?lib ?sig (\<lambda>p s. s) (\<lambda>s. s) ?src ?w)))) = None"
    using source_close_race [of ?sig ?src ?lib ?w] by (simp add: PcapFileSource_def)
  moreover have "w_calls (snd (snd (file_run ?lib ?sig (\<lambda>p s. s) (\<lambda>s. s) ?src ?w))) =
      [Open_Offline ''f'' (Some 7), Loop 7 0 0, Close 7, Breakloop 7]"
    by code_simp
  ultimately show ?thesis by (simp only: Let_def)
qed

subsection \<open>Delivery of packets\<close>

text \<open>The packets a library hands over in a run, read off the calls.\<close>

fun reads :: "pcap_event \<Rightarrow> bool" where
  "reads (Loop _ _ _) = True"
| "reads (Dispatch _ _ _) = True"
| "reads _ = False"

definition delivered :: "pcap_lib \<Rightarrow> pcap_event list \<Rightarrow> captured list" where
  "delivered lib evs =
     concat (map (\<lambda>i. if reads (evs ! i) then lib_packets lib (take i evs) else []) [0..<length evs])"

lemma delivered_Nil [simp]: "delivered lib [] = []"
  by (simp add: delivered_def)

lemma delivered_snoc [simp]:
  "delivered lib (evs @ [e]) = delivered lib evs @ (if reads e then lib_packets lib evs else [])"
proof -
  have "map (\<lambda>i. if reads ((evs @ [e]) ! i) then lib_packets lib (take i (evs @ [e])) else []) [0..<length evs] =
      map (\<lambda>i. if reads (evs ! i) then lib_packets lib (take i evs) else []) [0..<length evs]"
    by (rule map_cong) (simp_all add: nth_append)
  then show ?thesis by (simp add: delivered_def del: map_eq_conv)
qed

text \<open>What one packet does to the application.\<close>

definition deliver ::
  "(parsed_packet \<Rightarrow> 's \<Rightarrow> 's) \<Rightarrow> ('s \<Rightarrow> 's) \<Rightarrow> bool \<Rightarrow> captured \<Rightarrow> 's \<Rightarrow> 's" where
  "deliver callback dropped metrics p s =
     (case decode (Some (snd p)) (ph_caplen (fst p)) (ph_ts (fst p)) of
        Decoded pkt \<Rightarrow> callback pkt s
      | _ \<Rightarrow> if metrics then dropped s else s)"

text \<open>libpcap gives at least \<open>caplen\<close> bytes with every packet.\<close>

definition whole_packets :: "pcap_lib \<Rightarrow> bool" where
  "whole_packets lib \<longleftrightarrow> (\<forall>evs. \<forall>p \<in> set (lib_packets lib evs). unat (ph_caplen (fst p)) \<le> length (snd p))"

lemma pcap_handler_deliver:
  assumes "unat (ph_caplen (fst p)) \<le> length (snd p)"
  shows "pcap_handler f g b p (Decoded s) = Decoded (deliver f g b p s)"
  using decode_safe [OF assms, of "ph_ts (fst p)"]
  by (auto simp: pcap_handler_def deliver_def split: decoding.split)

lemma fold_pcap_handler:
  "\<forall>p \<in> set ps. unat (ph_caplen (fst p)) \<le> length (snd p) \<Longrightarrow>
    fold (pcap_handler f g b) ps (Decoded s) = Decoded (fold (deliver f g b) ps s)"
  by (induction ps arbitrary: s) (simp_all add: pcap_handler_deliver)

definition delivered_ok ::
  "pcap_lib \<Rightarrow> (parsed_packet \<Rightarrow> 's \<Rightarrow> 's) \<Rightarrow> ('s \<Rightarrow> 's) \<Rightarrow> bool \<Rightarrow> 's \<Rightarrow> 's world \<Rightarrow> bool" where
  "delivered_ok lib f g b s w \<longleftrightarrow>
     w_app w = Decoded (fold (deliver f g b) (delivered lib (w_calls w)) s)"

lemma delivered_ok_call: "delivered_ok lib f g b s w \<Longrightarrow> \<not> reads e \<Longrightarrow> delivered_ok lib f g b s (call e w)"
  by (simp add: delivered_ok_def)

lemma delivered_ok_read:
  assumes "delivered_ok lib f g b s w" and "whole_packets lib" and "reads e"
  shows "delivered_ok lib f g b s (handle_packets f g b (lib_packets lib (w_calls w)) (call e w))"
  using assms fold_pcap_handler [of "lib_packets lib (w_calls w)" f g b]
  by (simp add: delivered_ok_def handle_packets_def whole_packets_def)

lemma delivered_ok_interrupt [simp]:
  "delivered_ok lib f g b s w \<Longrightarrow> delivered_ok lib f g b s (interrupt sig src w)"
  by (auto simp: interrupt_def stop_source_def intro: delivered_ok_call split: option.split)

lemma delivered_ok_pcap_call [simp]:
  "delivered_ok lib f g b s w \<Longrightarrow> \<not> reads e \<Longrightarrow> delivered_ok lib f g b s (pcap_call sig src e w)"
  by (simp add: pcap_call_def delivered_ok_call)

lemma delivered_ok_close:
  "delivered_ok lib f g b s w \<Longrightarrow> delivered_ok lib f g b s (snd (close_handle sig h src w))"
  by (simp add: close_handle_def)

lemma delivered_ok_filter:
  assumes "install_filter lib sig h src w = (err, src', w')" and "delivered_ok lib f g b s w"
  shows "delivered_ok lib f g b s w' \<and> src_metrics src' = src_metrics src"
  using assms
  by (auto simp: install_filter_def close_handle_def Let_def split: if_splits)

lemma delivered_ok_loop:
  assumes "dispatch_loop lib sig f g h src fuel w = Some (err, w')" and "whole_packets lib"
    and "delivered_ok lib f g (src_metrics src) s w"
  shows "delivered_ok lib f g (src_metrics src) s w'"
  using assms
proof (induction fuel arbitrary: w)
  case (Suc fuel)
  let ?b = "src_metrics src"
  let ?w = "interrupt sig src (handle_packets f g ?b (lib_packets lib (w_calls w))
    (call (Dispatch h 100 (lib_result lib (w_calls w))) w))"
  have w: "delivered_ok lib f g ?b s ?w"
    using Suc.prems by (intro delivered_ok_interrupt delivered_ok_read) simp_all
  then have "delivered_ok lib f g ?b s (pcap_call sig src (Geterr h) ?w)" by simp
  with w Suc show ?case
    by (simp only: dispatch_loop.simps Let_def) (auto split: if_splits)
qed simp

lemma delivered_ok_file:
  assumes "whole_packets lib" and "delivered_ok lib f g (src_metrics src) s w"
    and "file_run lib sig f g src w = (out, src', w')"
  shows "delivered_ok lib f g (src_metrics src) s w'"
proof (cases "lib_open lib (w_calls (interrupt sig src w))")
  case (Inl e)
  with assms show ?thesis by (auto simp: file_run_def Let_def intro: delivered_ok_call)
next
  case (Inr h)
  let ?src = "src\<lparr>src_handle := Some h\<rparr>"
  let ?w = "pcap_call sig ?src (Open_Offline (src_name src) (Some h)) (interrupt sig src w)"
  obtain err src1 w1 where filter: "install_filter lib sig h ?src ?w = (err, src1, w1)"
    by (cases "install_filter lib sig h ?src ?w") auto
  have "delivered_ok lib f g (src_metrics src) s ?w" using assms(2) by simp
  from delivered_ok_filter [OF filter this]
  have w1: "delivered_ok lib f g (src_metrics src) s w1" "src_metrics src1 = src_metrics src" by simp_all
  let ?w2 = "interrupt sig src1 (handle_packets f g (src_metrics src) (lib_packets lib (w_calls w1))
    (call (Loop h 0 (lib_result lib (w_calls w1))) w1))"
  have "delivered_ok lib f g (src_metrics src) s ?w2"
    using w1(1) assms(1) by (intro delivered_ok_interrupt delivered_ok_read) simp_all
  from delivered_ok_close [OF this, of sig h src1] w1 assms(3) Inr filter show ?thesis
    by (auto simp: file_run_def Let_def split: option.splits prod.splits)
qed

lemma delivered_ok_live:
  assumes "whole_packets lib" and "delivered_ok lib f g (src_metrics src) s w"
    and "live_run lib sig f g fuel src w = Some (out, src', w')"
  shows "delivered_ok lib f g (src_metrics src) s w'"
proof (cases "lib_open lib (w_calls (interrupt sig src w))")
  case (Inl e)
  with assms show ?thesis by (auto simp: live_run_def Let_def intro: delivered_ok_call)
next
  case (Inr h)
  let ?src = "src\<lparr>src_handle := Some h\<rparr>"
  let ?w = "pcap_call sig ?src (Open_Live (src_name src) 65535 1 100 (Some h)) (interrupt sig src w)"
  obtain err src1 w1 where filter: "install_filter lib sig h ?src ?w = (err, src1, w1)"
    by (cases "install_filter lib sig h ?src ?w") auto
  obtain r msg where nb: "lib_setnonblock lib (w_calls w1) = (r, msg)" by fastforce
  have "delivered_ok lib f g (src_metrics src) s ?w" using assms(2) by simp
  from delivered_ok_filter [OF filter this]
  have w1: "delivered_ok lib f g (src_metrics src) s w1" "src_metrics src1 = src_metrics src" by simp_all
  then have w2: "delivered_ok lib f g (src_metrics src1) s (pcap_call sig src1 (Setnonblock h 1 r) w1)"
    by simp
  have loop: "delivered_ok lib f g (src_metrics src) s w3"
    if "dispatch_loop lib sig f g h src1 fuel (pcap_call sig src1 (Setnonblock h 1 r) w1) = Some (e, w3)" for e w3
    using delivered_ok_loop [OF that assms(1) w2] w1(2) by simp
  have closed: "delivered_ok lib f g (src_metrics src) s w4"
    if "delivered_ok lib f g (src_metrics src) s w3" "close_handle sig h src1 w3 = (src2, w4)" for w3 src2 w4
    using delivered_ok_close [OF that(1), of sig h src1] that(2) by simp
  from w1 w2 loop closed assms(3) Inr filter nb show ?thesis
    by (auto simp: live_run_def Let_def split: option.splits if_splits prod.splits)
qed

text \<open>
  C28.  If libpcap gives every packet with its captured bytes, a run of either source, however
  it ends and whenever the signal handler runs, reads nothing outside them, and what the application has seen is each packet
  libpcap handed over, once and in order: the callback for a packet that decodes, one
  count of \<open>packets_dropped\<close> for one that does not (when there is a registry).
\<close>

theorem source_delivers:
  assumes "whole_packets lib" and "w_calls w = []" and "w_app w = Decoded s"
  shows "(let (out, src', w') = file_run lib sig callback dropped src w in
      w_app w' = Decoded (fold (deliver callback dropped (src_metrics src)) (delivered lib (w_calls w')) s)) \<and>
    (case live_run lib sig callback dropped fuel src w of
       None \<Rightarrow> True
     | Some (out, src', w') \<Rightarrow>
         w_app w' = Decoded (fold (deliver callback dropped (src_metrics src)) (delivered lib (w_calls w')) s))"
proof -
  have start: "delivered_ok lib callback dropped (src_metrics src) s w"
    using assms(2,3) by (simp add: delivered_ok_def)
  show ?thesis
    using delivered_ok_file [OF assms(1) start] delivered_ok_live [OF assms(1) start]
    by (auto simp: delivered_ok_def Let_def split: option.splits prod.splits)
qed

theorem source_delivers_witness:
  "let lib = \<lparr>lib_open = (\<lambda>_. Inr 7), lib_compile = (\<lambda>_. 0), lib_setfilter = (\<lambda>_. 0),
          lib_geterr = (\<lambda>_. []), lib_setnonblock = (\<lambda>_. (0, [])),
          lib_packets = (\<lambda>_. [(\<lparr>ph_ts = \<lparr>tv_sec = 1, tv_usec = 2\<rparr>, ph_caplen = 42\<rparr>, sample_udp),
            (\<lparr>ph_ts = \<lparr>tv_sec = 1, tv_usec = 3\<rparr>, ph_caplen = 3\<rparr>, [1, 2, 3])]),
          lib_result = (\<lambda>_. 0)\<rparr>;
       (out, src', w') = file_run lib (\<lambda>_. False) (\<lambda>p (n, d). (n + 1, d)) (\<lambda>(n, d). (n, d + 1))
          (PcapFileSource ''f'' [] True) \<lparr>w_calls = [], w_app = Decoded (0 :: nat, 0 :: nat)\<rparr>
   in w_app w' = Decoded (1, 1)"
proof -
  let ?lib = "\<lparr>lib_open = (\<lambda>_. Inr 7), lib_compile = (\<lambda>_. 0), lib_setfilter = (\<lambda>_. 0),
          lib_geterr = (\<lambda>_. []), lib_setnonblock = (\<lambda>_. (0, [])),
          lib_packets = (\<lambda>_. [(\<lparr>ph_ts = \<lparr>tv_sec = 1, tv_usec = 2\<rparr>, ph_caplen = 42\<rparr>, sample_udp),
            (\<lparr>ph_ts = \<lparr>tv_sec = 1, tv_usec = 3\<rparr>, ph_caplen = 3\<rparr>, [1, 2, 3])]),
          lib_result = (\<lambda>_. 0)\<rparr>"
  let ?f = "\<lambda>p :: parsed_packet. \<lambda>(n :: nat, d :: nat). (n + 1, d)" and ?g = "\<lambda>(n :: nat, d :: nat). (n, d + 1)"
  let ?w = "\<lparr>w_calls = [], w_app = Decoded (0 :: nat, 0 :: nat)\<rparr>" and ?src = "PcapFileSource ''f'' [] True"
  have len: "length sample_udp = 42"
    by (simp add: sample_udp_def eth_header_def ipv4_header_def)
  have "let (out, src', w') = file_run ?lib (\<lambda>_. False) ?f ?g ?src ?w in
      w_app w' = Decoded (fold (deliver ?f ?g (src_metrics ?src)) (delivered ?lib (w_calls w')) (0, 0))"
    by (rule conjunct1 [OF source_delivers]) (simp_all add: whole_packets_def len)
  moreover have "let (out, src', w') = file_run ?lib (\<lambda>_. False) ?f ?g ?src ?w in
      delivered ?lib (w_calls w') = lib_packets ?lib []"
    by (simp add: file_run_def install_filter_def close_handle_def PcapFileSource_def Let_def
        delivered_def call_def pcap_call_def interrupt_def)
  moreover have "fold (deliver ?f ?g True) (lib_packets ?lib []) (0, 0) = (1, 1)"
    by (simp add: deliver_def decode_sample_udp) (simp add: decode_def kEthHdrLen_def)
  ultimately show ?thesis by (auto simp: Let_def PcapFileSource_def split: prod.splits)
qed

subsection \<open>Stopping a live capture\<close>

definition dispatches :: "pcap_event list \<Rightarrow> nat" where
  "dispatches evs = length (filter (\<lambda>e. case e of Dispatch _ _ _ \<Rightarrow> True | _ \<Rightarrow> False) evs)"

lemma dispatches_simps [simp]:
  "dispatches [] = 0" "dispatches (evs @ es) = dispatches evs + dispatches es"
  "dispatches (e # es) = (case e of Dispatch _ _ _ \<Rightarrow> 1 | _ \<Rightarrow> 0) + dispatches es"
  by (simp_all add: dispatches_def split: pcap_event.split)

lemma dispatches_interrupt [simp]:
  "dispatches (w_calls (interrupt sig src w)) = dispatches (w_calls w)"
  by (simp add: interrupt_def stop_source_def split: option.split)

text \<open>
  The documented effect of \<open>pcap_breakloop\<close>: it sets a flag, and the next \<open>pcap_dispatch\<close> that starts with the
  flag set returns \<open>PCAP_ERROR_BREAK\<close> without handling a packet.
\<close>

definition break_pending :: "pcap_event list \<Rightarrow> bool" where
  "break_pending evs =
     foldl (\<lambda>pending e. case e of
         Breakloop h \<Rightarrow> True
       | Loop _ _ _ \<Rightarrow> False
       | Dispatch _ _ _ \<Rightarrow> False
       | Open_Offline _ _ \<Rightarrow> False
       | Open_Live _ _ _ _ _ \<Rightarrow> False
       | _ \<Rightarrow> pending) False evs"

definition breaks :: "pcap_lib \<Rightarrow> bool" where
  "breaks lib \<longleftrightarrow>
     (\<forall>evs. break_pending evs \<longrightarrow> lib_result lib evs = PCAP_ERROR_BREAK \<and> lib_packets lib evs = [])"

text \<open>
  The points at which a dispatch is next; \<open>stopped_by sig n\<close>: at the one before the dispatch number \<open>n + 1\<close> the handler
  runs, unless it has run since the last dispatch, or since the handle was opened.
\<close>

definition dispatch_next :: "pcap_event list \<Rightarrow> bool" where
  "dispatch_next evs =
     (case rev evs of Setnonblock _ _ _ # _ \<Rightarrow> True | Dispatch _ _ _ # _ \<Rightarrow> True | _ \<Rightarrow> False)"

definition stopped_by :: "(pcap_event list \<Rightarrow> bool) \<Rightarrow> nat \<Rightarrow> bool" where
  "stopped_by sig n \<longleftrightarrow>
     (\<forall>evs. dispatch_next evs \<and> dispatches evs = n \<longrightarrow> sig evs \<or> break_pending evs)"

lemma break_pending_simps [simp]:
  "break_pending [] = False" "break_pending (evs @ [Breakloop h]) = True"
  "break_pending (evs @ [Dispatch h c r]) = False" "break_pending (evs @ [Loop h c r]) = False"
  "break_pending (evs @ [Open_Live name s p m oh]) = False" "break_pending (evs @ [Open_Offline name oh]) = False"
  "break_pending (evs @ [Compile h f i j]) = break_pending evs" "break_pending (evs @ [Setfilter h i]) = break_pending evs"
  "break_pending (evs @ [Geterr h]) = break_pending evs" "break_pending (evs @ [Freecode]) = break_pending evs"
  "break_pending (evs @ [Setnonblock h i j]) = break_pending evs"
  by (simp_all add: break_pending_def)

lemma dispatch_next_simps [simp]:
  "dispatch_next (evs @ [Setnonblock h i j])" "dispatch_next (evs @ [Dispatch h c r])"
  by (simp_all add: dispatch_next_def)

text \<open>At such a point, with the handle open, the flag is set after the handler has had its turn.\<close>

lemma pending_after_interrupt:
  assumes "stopped_by sig n" and "src_handle src = Some h"
    and "dispatch_next (w_calls w)" and "dispatches (w_calls w) = n"
  shows "break_pending (w_calls (interrupt sig src w))"
  using assms by (auto simp: stopped_by_def interrupt_def stop_source_def)

lemma dispatch_loop_stops:
  assumes lib: "breaks lib" and src: "src_handle src = Some h" and sig: "stopped_by sig n"
  shows "dispatches (w_calls w) \<le> n \<Longrightarrow>
      dispatches (w_calls w) = n \<longrightarrow> break_pending (w_calls w) \<Longrightarrow>
    \<exists>err w'. dispatches (w_calls w') \<le> Suc n \<and>
      (\<forall>fuel \<ge> Suc (n - dispatches (w_calls w)). dispatch_loop lib sig f g h src fuel w = Some (err, w'))"
proof (induction "n - dispatches (w_calls w)" arbitrary: w)
  case 0
  then have n: "dispatches (w_calls w) = n" and pending: "break_pending (w_calls w)" by simp_all
  let ?w = "interrupt sig src (handle_packets f g (src_metrics src) (lib_packets lib (w_calls w))
    (call (Dispatch h 100 (lib_result lib (w_calls w))) w))"
  have "dispatch_loop lib sig f g h src (Suc fuel) w = Some (None, ?w)" for fuel
    using pending lib by (simp add: breaks_def Let_def)
  then have "dispatch_loop lib sig f g h src fuel w = Some (None, ?w)" if "1 \<le> fuel" for fuel
    using that by (cases fuel) simp_all
  then show ?case using n by (intro exI [of _ None] exI [of _ ?w]) simp
next
  case (Suc k)
  define r where "r = lib_result lib (w_calls w)"
  define w1 where "w1 = handle_packets f g (src_metrics src) (lib_packets lib (w_calls w)) (call (Dispatch h 100 r) w)"
  define w2 where "w2 = interrupt sig src w1"
  have d: "dispatches (w_calls w2) = Suc (dispatches (w_calls w))" by (simp add: w2_def w1_def)
  have "k = n - dispatches (w_calls w2)" "dispatches (w_calls w2) \<le> n" using Suc.hyps(2) d by linarith+
  moreover have "dispatches (w_calls w2) = n \<longrightarrow> break_pending (w_calls w2)"
    using pending_after_interrupt [OF sig src, of w1] d by (simp add: w2_def w1_def)
  ultimately obtain err w' where rest: "dispatches (w_calls w') \<le> Suc n"
    "\<forall>fuel \<ge> Suc (n - dispatches (w_calls w2)). dispatch_loop lib sig f g h src fuel w2 = Some (err, w')"
    using Suc.hyps(1) [of w2] by blast
  have step: "dispatch_loop lib sig f g h src (Suc fuel) w =
      (if r = PCAP_ERROR_BREAK then Some (None, w2)
       else if r = PCAP_ERROR then
         Some (Some (''pcap_dispatch error: '' @ lib_geterr lib (w_calls w2)), pcap_call sig src (Geterr h) w2)
       else dispatch_loop lib sig f g h src fuel w2)" for fuel
    by (subst dispatch_loop.simps(2)) (simp only: Let_def w1_def r_def w2_def)
  define res where "res =
      (if r = PCAP_ERROR_BREAK then (None, w2)
       else if r = PCAP_ERROR then
         (Some (''pcap_dispatch error: '' @ lib_geterr lib (w_calls w2)), pcap_call sig src (Geterr h) w2)
       else (err, w'))"
  have "dispatch_loop lib sig f g h src fuel w = Some res" if "Suc (n - dispatches (w_calls w)) \<le> fuel" for fuel
    using that rest(2) d Suc.hyps(2)
    by (cases fuel) (auto simp: step res_def simp del: dispatch_loop.simps)
  moreover have "dispatches (w_calls (snd res)) \<le> Suc n"
    using rest(1) d Suc.prems(1) Suc.hyps(2) by (auto simp: res_def pcap_call_def)
  ultimately show ?case by (metis prod.collapse)
qed

lemma dispatches_pcap_call [simp]:
  "dispatches (w_calls (pcap_call sig src e w)) =
    (case e of Dispatch _ _ _ \<Rightarrow> 1 | _ \<Rightarrow> 0) + dispatches (w_calls w)"
  by (simp add: pcap_call_def)

lemma dispatches_close [simp]: "dispatches (w_calls (snd (close_handle sig h src w))) = dispatches (w_calls w)"
  by (simp add: close_handle_def)

lemma dispatches_filter:
  "install_filter lib sig h src w = (err, src', w') \<Longrightarrow> dispatches (w_calls w') = dispatches (w_calls w)"
  by (auto simp: install_filter_def close_handle_def Let_def split: if_splits)

lemma live_run_returns:
  assumes lib: "breaks lib" and sig: "stopped_by sig n" and calls: "w_calls w = []" and src: "src_handle src = None"
  shows "\<exists>out src' w'. dispatches (w_calls w') \<le> n + 1 \<and>
    (\<forall>fuel \<ge> Suc n. live_run lib sig callback dropped fuel src w = Some (out, src', w'))"
proof (cases "lib_open lib (w_calls w)")
  case (Inl e)
  show ?thesis
    by (rule exI, rule exI, rule exI, rule conjI [rotated], intro allI impI, rule live_run_Inl [OF src Inl])
      (simp add: calls)
next
  case (Inr h)
  let ?src = "src\<lparr>src_handle := Some h\<rparr>"
  let ?w = "pcap_call sig ?src (Open_Live (src_name src) 65535 1 100 (Some h)) w"
  obtain err src1 w1 where filter: "install_filter lib sig h ?src ?w = (err, src1, w1)"
    by (cases "install_filter lib sig h ?src ?w") auto
  have d: "dispatches (w_calls w1) = 0" using dispatches_filter [OF filter] calls by simp
  obtain r msg where nb: "lib_setnonblock lib (w_calls w1) = (r, msg)" by fastforce
  note run = live_run_Inr [OF src Inr filter nb, of callback dropped]
  let ?w2 = "pcap_call sig src1 (Setnonblock h 1 r) w1"
  show ?thesis
  proof (cases "err = None \<and> r = 0")
    case False
    let ?final = "case err of Some msg \<Rightarrow> (Runtime_Error msg, src1, w1)
      | None \<Rightarrow> (Runtime_Error (''pcap_setnonblock: '' @ msg), src1, ?w2)"
    have "live_run lib sig callback dropped fuel src w = Some ?final" for fuel
      using False by (cases err) (simp_all add: run)
    moreover have "dispatches (w_calls (snd (snd ?final))) \<le> n + 1" using d by (simp split: option.split)
    ultimately show ?thesis by (metis prod.collapse)
  next
    case True
    then have src1: "src_handle src1 = Some h" using filter install_filter_None by fastforce
    have "dispatches (w_calls ?w2) = n \<longrightarrow> break_pending (w_calls ?w2)"
      using pending_after_interrupt [OF sig src1, of "call (Setnonblock h 1 r) w1"] d
      by (simp add: pcap_call_def)
    then obtain e w3 where loop: "dispatches (w_calls w3) \<le> Suc n"
      "\<forall>fuel \<ge> Suc n. dispatch_loop lib sig callback dropped h src1 fuel ?w2 = Some (e, w3)"
      using dispatch_loop_stops [OF lib src1 sig, of ?w2 callback dropped] d by auto
    let ?final = "case e of Some msg \<Rightarrow> (Runtime_Error msg, src1, w3) | None \<Rightarrow> (Returned, close_handle sig h src1 w3)"
    have "live_run lib sig callback dropped fuel src w = Some ?final" if "Suc n \<le> fuel" for fuel
      using True loop(2) that by (cases e) (simp_all add: run split: prod.split)
    moreover have "dispatches (w_calls (snd (snd ?final))) \<le> n + 1" using loop(1) by (simp split: option.split)
    ultimately show ?thesis by (metis prod.collapse)
  qed
qed

text \<open>An interface that can be opened and set up and on which a dispatch ends only because of \<open>pcap_breakloop\<close>.\<close>

definition stays_up :: "pcap_lib \<Rightarrow> pcap_handle \<Rightarrow> bool" where
  "stays_up lib h \<longleftrightarrow> lib_open lib [] = Inr h \<and>
     (\<forall>evs. lib_compile lib evs = 0 \<and> lib_setfilter lib evs = 0 \<and> fst (lib_setnonblock lib evs) = 0 \<and>
       (lib_result lib evs \<in> {PCAP_ERROR_BREAK, PCAP_ERROR} \<longrightarrow> break_pending evs))"

lemma live_signal_lost:
  assumes "stays_up lib h" and "\<And>evs. sig evs \<Longrightarrow> evs = []" and "w_calls w = []" and "src_handle src = None"
  shows "live_run lib sig callback dropped fuel src w = None"
proof -
  note lib = assms(1) [unfolded stays_up_def]
  let ?src = "src\<lparr>src_handle := Some h\<rparr>"
  have quiet: "pcap_call sig s e v = call e v" for s e and v :: "'a world"
    using assms(2) by (force simp: pcap_call_def interrupt_def)
  define w0 where "w0 = call (Open_Live (src_name src) 65535 1 100 (Some h)) w"
  obtain err src1 w1 where filter: "install_filter lib sig h ?src w0 = (err, src1, w1)"
    by (cases "install_filter lib sig h ?src w0") auto
  then have w1: "err = None" "\<not> break_pending (w_calls w1)"
    using lib by (auto simp: install_filter_def quiet Let_def w0_def assms(3) break_pending_def split: if_splits)
  obtain msg where nb: "lib_setnonblock lib (w_calls w1) = (0, msg)" using lib by (metis prod.collapse)
  have loop: "dispatch_loop lib sig callback dropped h s fuel v = None" if "\<not> break_pending (w_calls v)" for s v
    using that
  proof (induction fuel arbitrary: v)
    case (Suc fuel)
    let ?v = "handle_packets callback dropped (src_metrics s) (lib_packets lib (w_calls v))
      (call (Dispatch h 100 (lib_result lib (w_calls v))) v)"
    have "interrupt sig s ?v = ?v" using assms(2) by (force simp: interrupt_def)
    moreover have "lib_result lib (w_calls v) \<notin> {PCAP_ERROR_BREAK, PCAP_ERROR}" using lib Suc.prems by blast
    moreover have "dispatch_loop lib sig callback dropped h s fuel ?v = None" by (rule Suc.IH) simp
    ultimately show ?case by (simp add: Let_def)
  qed simp
  have "live_run lib sig callback dropped fuel src w =
      (case dispatch_loop lib sig callback dropped h src1 fuel (call (Setnonblock h 1 0) w1) of None \<Rightarrow> None
       | Some (Some msg, w) \<Rightarrow> Some (Runtime_Error msg, src1, w)
       | Some (None, w) \<Rightarrow> (let (src, w) = close_handle sig h src1 w in Some (Returned, src, w)))"
    using live_run_Inr [of src lib w h sig err src1 w1 0 msg] filter nb w1(1) lib
    by (simp add: quiet assms(3,4) flip: w0_def)
  then show ?thesis using w1(2) by (simp add: loop)
qed

definition breaking_lib :: pcap_lib where
  "breaking_lib =
     \<lparr>lib_open = (\<lambda>_. Inr 7), lib_compile = (\<lambda>_. 0), lib_setfilter = (\<lambda>_. 0), lib_geterr = (\<lambda>_. []),
      lib_setnonblock = (\<lambda>_. (0, [])), lib_packets = (\<lambda>_. []),
      lib_result = (\<lambda>evs. if break_pending evs then PCAP_ERROR_BREAK else 0)\<rparr>"

definition sample_live :: source where
  "sample_live = \<lparr>src_name = ''lo'', src_bpf_filter = [], src_metrics = True, src_handle = None\<rparr>"

text \<open>
  C27.  \<open>stop\<close> ends a live capture once the handle is open: if by the point before the dispatch
  number \<open>n + 1\<close> the signal handler has run, at whichever point since the handle was opened, or it runs there,
  and \<open>pcap_breakloop\<close> does what libpcap documents, then \<open>run\<close> returns or throws after at most \<open>n + 1\<close>
  dispatches, whether or not the handler runs at other points, and every fuel greater than \<open>n\<close> gives the same
  result.  A signal that arrives before \<open>pcap_open_live\<close> has given the handle is lost: \<open>stop\<close> finds no handle and
  nothing remembers the request (\<open>g_shutdown\<close> is set and never read), so that on an interface that stays up
  \<open>run\<close> does not return, whatever the fuel.
\<close>

theorem live_capture_stops:
  assumes "w_calls w = []" and "src_handle src = None"
  shows "(breaks lib \<and> stopped_by sig n \<longrightarrow>
      (\<exists>out src' w'. dispatches (w_calls w') \<le> n + 1 \<and>
        (\<forall>fuel \<ge> Suc n. live_run lib sig callback dropped fuel src w = Some (out, src', w')))) \<and>
    (stays_up lib h \<and> (\<forall>evs. sig evs \<longrightarrow> evs = []) \<longrightarrow>
      (\<forall>fuel. live_run lib sig callback dropped fuel src w = None))"
  using live_run_returns [OF _ _ assms] live_signal_lost [OF _ _ assms] by auto

theorem live_capture_stops_witness:
  "(\<exists>out src' w'. dispatches (w_calls w') \<le> 3 + 1 \<and>
    (\<forall>fuel \<ge> Suc 3. live_run breaking_lib (\<lambda>evs. dispatch_next evs \<and> dispatches evs = 3) (\<lambda>p s. s) (\<lambda>s. s) fuel
      sample_live \<lparr>w_calls = [], w_app = Decoded ()\<rparr> = Some (out, src', w'))) \<and>
   live_run breaking_lib (\<lambda>evs. evs = []) (\<lambda>p s. s) (\<lambda>s. s) 1000 sample_live
     \<lparr>w_calls = [], w_app = Decoded ()\<rparr> = None"
proof -
  let ?w = "\<lparr>w_calls = [], w_app = Decoded ()\<rparr>"
  note stops = live_capture_stops [of ?w sample_live breaking_lib _ _ "\<lambda>p s. s" "\<lambda>s. s" 7]
  have "breaks breaking_lib" "stays_up breaking_lib 7"
    by (simp_all add: breaks_def stays_up_def breaking_lib_def PCAP_ERROR_BREAK_def PCAP_ERROR_def)
  moreover have "stopped_by (\<lambda>evs. dispatch_next evs \<and> dispatches evs = 3) 3" by (simp add: stopped_by_def)
  ultimately show ?thesis
    using stops [of "\<lambda>evs. dispatch_next evs \<and> dispatches evs = 3" 3] stops [of "\<lambda>evs. evs = []" 0]
    by (simp add: sample_live_def)
qed

end
