(* ===== verification/Avro_Serializer.thy ===== *)
theory Avro_Serializer
  imports Flow_Event Std_String
begin

section \<open>The Avro serializer (avro/avro\_serializer.cpp)\<close>

text \<open>
  Flow identifiers and the Confluent wire format.  The Avro library is a parameter: the
  generic record of the schema with its initial field values, and the encoder, which gives
  the binary payload or the text of the exception it (or an assignment to a field of another
  type) throws.  \<open>inet_ntop\<close> for IPv4 is the dotted decimal notation; for IPv6 its text is a
  parameter.
\<close>

subsection \<open>Addresses\<close>

definition is_ipv4_mapped :: "u8 list \<Rightarrow> bool" where
  "is_ipv4_mapped ip \<longleftrightarrow>
     ip ! 10 = 0xFF \<and> ip ! 11 = 0xFF \<and>
     ip ! 0 = 0 \<and> ip ! 1 = 0 \<and> ip ! 2 = 0 \<and> ip ! 3 = 0 \<and>
     ip ! 4 = 0 \<and> ip ! 5 = 0 \<and> ip ! 6 = 0 \<and> ip ! 7 = 0 \<and>
     ip ! 8 = 0 \<and> ip ! 9 = 0"

text \<open>\<open>inet_ntop(AF_INET, \<dots>)\<close>: four decimal numbers separated by dots.\<close>

definition dotted :: "u8 list \<Rightarrow> string" where
  "dotted a =
     dec_string (unat (a ! 0)) @ CHR ''.'' # dec_string (unat (a ! 1)) @ CHR ''.'' #
     dec_string (unat (a ! 2)) @ CHR ''.'' # dec_string (unat (a ! 3))"

definition ip_array_to_string :: "(u8 list \<Rightarrow> string) \<Rightarrow> u8 list \<Rightarrow> string" where
  "ip_array_to_string ntop6 ip =
     (if is_ipv4_mapped ip then dotted (take 4 (drop 12 ip)) else ntop6 (take 16 ip))"

definition flow_id :: "(u8 list \<Rightarrow> string) \<Rightarrow> flow_key \<Rightarrow> string" where
  "flow_id ntop6 key =
     (let src_str = ip_array_to_string ntop6 (fk_src_ip key);
          dst_str = ip_array_to_string ntop6 (fk_dst_ip key);
          src_v6 = \<not> is_ipv4_mapped (fk_src_ip key);
          dst_v6 = \<not> is_ipv4_mapped (fk_dst_ip key);
          src_fmt = (if src_v6 then ''['' @ src_str @ '']'' else src_str);
          dst_fmt = (if dst_v6 then ''['' @ dst_str @ '']'' else dst_str)
      in src_fmt @ '':'' @ dec_string (unat (fk_src_port key)) @ ''-'' @
         dst_fmt @ '':'' @ dec_string (unat (fk_dst_port key)) @ ''/'' @
         dec_string (unat (fk_protocol key)))"

subsection \<open>The record and the message\<close>

datatype avro_value =
    AString string
  | AInt i32
  | ALong i64
  | AEnum string
  | ANull
  | ABranchString string

record avro_serializer =
  as_record :: "avro_value list"
  as_schema_id :: i32

text \<open>
  \<open>read_file\<close> gives the contents of the schema file, \<open>compile\<close> the initial record of the schema
  or an exception.
\<close>

definition AvroSerializer ::
  "(string \<Rightarrow> string option) \<Rightarrow> (string \<Rightarrow> string + avro_value list) \<Rightarrow> string \<Rightarrow> i32 \<Rightarrow>
   string + avro_serializer" where
  "AvroSerializer read_file compile schema_path schema_id =
     (case read_file schema_path of
        None \<Rightarrow> Inl (''Cannot open Avro schema: '' @ schema_path)
      | Some contents \<Rightarrow>
          (case compile contents of
             Inl what \<Rightarrow> Inl what
           | Inr rec \<Rightarrow> Inr \<lparr>as_record = rec, as_schema_id = schema_id\<rparr>))"

definition kSchemaVersionIdx :: nat where "kSchemaVersionIdx = 0"
definition kEventTypeIdx :: nat where "kEventTypeIdx = 1"
definition kFlowIdIdx :: nat where "kFlowIdIdx = 2"
definition kSrcIpIdx :: nat where "kSrcIpIdx = 3"
definition kDstIpIdx :: nat where "kDstIpIdx = 4"
definition kSrcPortIdx :: nat where "kSrcPortIdx = 5"
definition kDstPortIdx :: nat where "kDstPortIdx = 6"
definition kProtocolIdx :: nat where "kProtocolIdx = 7"
definition kStartTsIdx :: nat where "kStartTsIdx = 8"
definition kEventTsIdx :: nat where "kEventTsIdx = 9"
definition kPacketCountIdx :: nat where "kPacketCountIdx = 10"
definition kByteCountIdx :: nat where "kByteCountIdx = 11"
definition kExpireReasonIdx :: nat where "kExpireReasonIdx = 12"

lemmas field_index_defs =
  kSchemaVersionIdx_def kEventTypeIdx_def kFlowIdIdx_def kSrcIpIdx_def kDstIpIdx_def
  kSrcPortIdx_def kDstPortIdx_def kProtocolIdx_def kStartTsIdx_def kEventTsIdx_def
  kPacketCountIdx_def kByteCountIdx_def kExpireReasonIdx_def

fun event_symbol :: "flow_event_type \<Rightarrow> string" where
  "event_symbol Start = ''FLOW_START''"
| "event_symbol End = ''FLOW_END''"
| "event_symbol Stats = ''FLOW_STATS''"

definition fill_record :: "(u8 list \<Rightarrow> string) \<Rightarrow> flow_event \<Rightarrow> avro_value list \<Rightarrow> avro_value list" where
  "fill_record ntop6 evt rec =
     (let key = fs_key (ev_state evt);
          fid = flow_id ntop6 key;
          rec = rec[kSchemaVersionIdx := AString ''1.0''];
          rec = rec[kFlowIdIdx := AString fid];
          rec = rec[kSrcIpIdx := AString (ip_array_to_string ntop6 (fk_src_ip key))];
          rec = rec[kDstIpIdx := AString (ip_array_to_string ntop6 (fk_dst_ip key))];
          rec = rec[kSrcPortIdx := AInt (ucast (fk_src_port key))];
          rec = rec[kDstPortIdx := AInt (ucast (fk_dst_port key))];
          rec = rec[kProtocolIdx := AInt (ucast (fk_protocol key))];
          rec = rec[kStartTsIdx := ALong (fs_start_us (ev_state evt))];
          rec = rec[kEventTsIdx := ALong (ev_timestamp_us evt)];
          rec = rec[kPacketCountIdx := ALong (fs_packet_count (ev_state evt))];
          rec = rec[kByteCountIdx := ALong (fs_byte_count (ev_state evt))];
          rec = rec[kEventTypeIdx := AEnum (event_symbol (ev_type evt))];
          rec = (if ev_type evt = End then
                   (let reason_str = (if ev_reason evt = IdleTimeout then ''idle_timeout''
                                      else ''tcp_teardown'')
                    in rec[kExpireReasonIdx := ABranchString reason_str])
                 else rec[kExpireReasonIdx := ANull])
      in rec)"

text \<open>The bytes of \<open>htonl(schema_id)\<close> in memory.\<close>

definition be32_bytes :: "u32 \<Rightarrow> u8 list" where
  "be32_bytes w =
     [ucast (drop_bit 24 w), ucast (drop_bit 16 w), ucast (drop_bit 8 w), ucast w]"

definition serialize ::
  "(u8 list \<Rightarrow> string) \<Rightarrow> (avro_value list \<Rightarrow> string + u8 list) \<Rightarrow> avro_serializer \<Rightarrow> flow_event \<Rightarrow>
   string + u8 list" where
  "serialize ntop6 encode ser evt =
     (let attempt =
        (if length (as_record ser) \<le> kExpireReasonIdx then
           Inl ''Avro schema field layout mismatch for FlowEvent''
         else
           (case encode (fill_record ntop6 evt (as_record ser)) of
              Inl what \<Rightarrow> Inl what
            | Inr payload \<Rightarrow>
                Inr ([0x00] @ be32_bytes (as_schema_id ser) @ payload)))
      in case attempt of
           Inl what \<Rightarrow> Inl (''Avro serialization failed: '' @ what)
         | Inr result \<Rightarrow> Inr result)"

subsection \<open>Flow identifiers determine the key\<close>

text \<open>
  What the documentation of \<open>inet_ntop\<close> says of IPv6: the text uses hexadecimal digits, colons
  and dots, and \<open>inet_pton\<close> reads it back.
\<close>

definition ip6_char :: "char \<Rightarrow> bool" where
  "ip6_char c \<longleftrightarrow> c \<in> set ''0123456789abcdefABCDEF:.''"

definition ntop6_ok :: "(u8 list \<Rightarrow> string) \<Rightarrow> bool" where
  "ntop6_ok ntop6 \<longleftrightarrow>
     (\<forall>a. length a = 16 \<longrightarrow> (\<forall>c \<in> set (ntop6 a). ip6_char c)) \<and>
     (\<exists>pton6. \<forall>a. length a = 16 \<longrightarrow> pton6 (ntop6 a) = a)"

lemma split_at:
  assumes "xs @ c # ys = xs' @ c # ys'" and "c \<notin> set xs" and "c \<notin> set xs'"
  shows "xs = xs' \<and> ys = ys'"
  using assms by (induction xs arbitrary: xs') (auto simp: Cons_eq_append_conv append_eq_Cons_conv)

lemma dotted_chars: "c \<in> set (dotted a) \<Longrightarrow> is_digit c \<or> c = CHR ''.''"
  by (auto simp: dotted_def dest: dec_string_digits)

lemma unat_dec_inj: "dec_string (unat a) = dec_string (unat b) \<Longrightarrow> a = b" for a b :: "'a::len word"
  by (auto dest: dec_string_inj simp: word_unat_eq_iff)

lemma dotted_inj:
  assumes "dotted a = dotted b" and "length a = 4" "length b = 4"
  shows "a = b"
proof -
  have dot: "CHR ''.'' \<notin> set (dec_string n)" for n by (rule not_digit_dec_string) (simp add: is_digit_def)
  note s = split_at [OF _ dot dot]
  from s [OF assms(1) [unfolded dotted_def]] have a0: "a ! 0 = b ! 0"
    and r1: "dec_string (unat (a ! 1)) @ CHR ''.'' # dec_string (unat (a ! 2)) @ CHR ''.'' # dec_string (unat (a ! 3)) =
      dec_string (unat (b ! 1)) @ CHR ''.'' # dec_string (unat (b ! 2)) @ CHR ''.'' # dec_string (unat (b ! 3))"
    by (auto dest: unat_dec_inj)
  from s [OF r1] have a1: "a ! 1 = b ! 1"
    and r2: "dec_string (unat (a ! 2)) @ CHR ''.'' # dec_string (unat (a ! 3)) =
      dec_string (unat (b ! 2)) @ CHR ''.'' # dec_string (unat (b ! 3))"
    by (auto dest: unat_dec_inj)
  from s [OF r2] have a2: "a ! 2 = b ! 2" and a3: "a ! 3 = b ! 3"
    by (auto dest: unat_dec_inj)
  show ?thesis
  proof (rule nth_equalityI)
    fix i assume "i < length a"
    then have "i = 0 \<or> i = 1 \<or> i = 2 \<or> i = 3" using assms(2) by auto
    then show "a ! i = b ! i" using a0 a1 a2 a3 by auto
  qed (simp add: assms)
qed

lemma mapped_inj:
  assumes "is_ipv4_mapped a" "is_ipv4_mapped b" and len: "length a = 16" "length b = 16"
    and "take 4 (drop 12 a) = take 4 (drop 12 b)"
  shows "a = b"
proof (rule nth_equalityI)
  fix i assume i: "i < length a"
  show "a ! i = b ! i"
  proof (cases "i < 12")
    case True
    then have "i = 0 \<or> i = 1 \<or> i = 2 \<or> i = 3 \<or> i = 4 \<or> i = 5 \<or> i = 6 \<or> i = 7 \<or> i = 8 \<or>
        i = 9 \<or> i = 10 \<or> i = 11" by arith
    with assms(1,2) show ?thesis unfolding is_ipv4_mapped_def by (elim disjE) simp_all
  next
    case False
    with i len have "i - 12 < 4" "12 + (i - 12) = i" by simp_all
    then show ?thesis
      using arg_cong [OF assms(5), of "\<lambda>l. l ! (i - 12)"] len by simp
  qed
qed (simp add: len)

text \<open>The address part of an identifier: brackets around IPv6.\<close>

definition ip_fmt :: "(u8 list \<Rightarrow> string) \<Rightarrow> u8 list \<Rightarrow> string" where
  "ip_fmt ntop6 ip =
     (if is_ipv4_mapped ip then ip_array_to_string ntop6 ip
      else CHR ''['' # ip_array_to_string ntop6 ip @ [CHR '']''])"

lemma flow_id_eq:
  "flow_id ntop6 k =
    ip_fmt ntop6 (fk_src_ip k) @ CHR '':'' # dec_string (unat (fk_src_port k)) @ CHR ''-'' #
    ip_fmt ntop6 (fk_dst_ip k) @ CHR '':'' # dec_string (unat (fk_dst_port k)) @ CHR ''/'' #
    dec_string (unat (fk_protocol k))"
  by (simp add: flow_id_def ip_fmt_def Let_def)

lemma ip_fmt_split:
  assumes ok: "ntop6_ok ntop6" and len: "length a = 16" "length b = 16"
    and eq: "ip_fmt ntop6 a @ CHR '':'' # r = ip_fmt ntop6 b @ CHR '':'' # r'"
  shows "a = b \<and> r = r'"
proof -
  have colon: "CHR '':'' \<notin> set (dotted x)" for x
    by (auto simp: is_digit_def dest: dotted_chars)
  have bracket: "CHR '']'' \<notin> set (ntop6 x)" if "length x = 16" for x
    using ok that by (force simp: ntop6_ok_def ip6_char_def)
  have start: "hd (dotted x @ s) \<noteq> CHR ''[''" for x s
  proof -
    obtain c cs where d: "dotted x = c # cs"
      by (cases "dotted x") (simp_all add: dotted_def)
    then have "is_digit c \<or> c = CHR ''.''" using dotted_chars [of c x] by simp
    then show ?thesis by (auto simp: d is_digit_def)
  qed
  show ?thesis
  proof (cases "is_ipv4_mapped a"; cases "is_ipv4_mapped b")
    assume m: "is_ipv4_mapped a" "is_ipv4_mapped b"
    then have "dotted (take 4 (drop 12 a)) = dotted (take 4 (drop 12 b)) \<and> r = r'"
      using split_at [OF _ colon colon] eq by (simp add: ip_fmt_def ip_array_to_string_def)
    then show ?thesis using m mapped_inj [of a b] dotted_inj [of "take 4 (drop 12 a)"] len by simp
  next
    assume m: "\<not> is_ipv4_mapped a" "\<not> is_ipv4_mapped b"
    then have "ntop6 a @ CHR '']'' # CHR '':'' # r = ntop6 b @ CHR '']'' # CHR '':'' # r'"
      using eq len by (simp add: ip_fmt_def ip_array_to_string_def)
    from split_at [OF this bracket bracket] len have "ntop6 a = ntop6 b" "r = r'" by auto
    then show ?thesis using ok len unfolding ntop6_ok_def by metis
  next
    assume m: "is_ipv4_mapped a" "\<not> is_ipv4_mapped b"
    then show ?thesis using arg_cong [OF eq, of hd] start by (simp add: ip_fmt_def ip_array_to_string_def)
  next
    assume m: "\<not> is_ipv4_mapped a" "is_ipv4_mapped b"
    then show ?thesis using arg_cong [OF eq, of hd] start [symmetric]
      by (simp add: ip_fmt_def ip_array_to_string_def)
  qed
qed

lemma flow_id_inj:
  assumes ok: "ntop6_ok ntop6" and wf: "wf_key k" "wf_key k'" and eq: "flow_id ntop6 k = flow_id ntop6 k'"
  shows "k = k'"
proof -
  have sep: "CHR ''-'' \<notin> set (dec_string n)" "CHR ''/'' \<notin> set (dec_string n)" for n
    by (rule not_digit_dec_string, simp add: is_digit_def)+
  note len = wf [unfolded wf_key_def]
  from ip_fmt_split [OF ok _ _ eq [unfolded flow_id_eq]] len
  have src: "fk_src_ip k = fk_src_ip k'"
    and r1: "dec_string (unat (fk_src_port k)) @ CHR ''-'' # ip_fmt ntop6 (fk_dst_ip k) @ CHR '':'' #
        dec_string (unat (fk_dst_port k)) @ CHR ''/'' # dec_string (unat (fk_protocol k)) =
      dec_string (unat (fk_src_port k')) @ CHR ''-'' # ip_fmt ntop6 (fk_dst_ip k') @ CHR '':'' #
        dec_string (unat (fk_dst_port k')) @ CHR ''/'' # dec_string (unat (fk_protocol k'))"
    by blast+
  from split_at [OF r1 sep(1) sep(1)] have sport: "fk_src_port k = fk_src_port k'"
    and r2: "ip_fmt ntop6 (fk_dst_ip k) @ CHR '':'' #
        dec_string (unat (fk_dst_port k)) @ CHR ''/'' # dec_string (unat (fk_protocol k)) =
      ip_fmt ntop6 (fk_dst_ip k') @ CHR '':'' #
        dec_string (unat (fk_dst_port k')) @ CHR ''/'' # dec_string (unat (fk_protocol k'))"
    by (auto dest: unat_dec_inj)
  from ip_fmt_split [OF ok _ _ r2] len have dst: "fk_dst_ip k = fk_dst_ip k'"
    and r3: "dec_string (unat (fk_dst_port k)) @ CHR ''/'' # dec_string (unat (fk_protocol k)) =
      dec_string (unat (fk_dst_port k')) @ CHR ''/'' # dec_string (unat (fk_protocol k'))"
    by blast+
  from split_at [OF r3 sep(2) sep(2)] have "fk_dst_port k = fk_dst_port k'" "fk_protocol k = fk_protocol k'"
    by (auto dest: unat_dec_inj)
  with src sport dst show ?thesis by simp
qed

text \<open>An instance of \<open>ntop6_ok\<close>: the address in full, without abbreviation.\<close>

definition hex_digit :: "nat \<Rightarrow> char" where
  "hex_digit d = ''0123456789abcdef'' ! d"

definition full_hex :: "u8 list \<Rightarrow> string" where
  "full_hex a = concat (map (\<lambda>b. [hex_digit (unat b div 16), hex_digit (unat b mod 16)]) a)"

definition hex_value :: "char \<Rightarrow> nat" where
  "hex_value c = (let n = of_char c in if n \<le> 57 then n - 48 else n - 87)"

fun parse_hex :: "string \<Rightarrow> u8 list" where
  "parse_hex (c # d # cs) = word_of_nat (16 * hex_value c + hex_value d) # parse_hex cs"
| "parse_hex _ = []"

lemma hex_digit_cases:
  assumes "d < 16"
  shows "hex_value (hex_digit d) = d \<and> ip6_char (hex_digit d)"
proof -
  from assms have "d \<in> set [0..<16]" by simp
  then show ?thesis by (auto simp: upt_rec hex_digit_def hex_value_def ip6_char_def)
qed

lemma ntop6_ok_full_hex: "ntop6_ok full_hex"
  unfolding ntop6_ok_def
proof (intro conjI exI allI impI)
  fix a :: "u8 list"
  have d: "unat b div 16 < 16" for b :: u8
    using unat_u8_less [of b] by (simp add: div_less_iff_less_mult del: unat_u8_less)
  then show "\<forall>c \<in> set (full_hex a). ip6_char c"
    by (auto simp: full_hex_def hex_digit_cases)
  show "parse_hex (full_hex a) = a"
    by (induction a) (simp_all add: full_hex_def hex_digit_cases d mult_div_mod_eq)
qed

text \<open>
  C16.  The flow identifier, which is also the key of the Kafka message, names the flow: two
  different keys have different identifiers, mixed IPv4 and IPv6 included.
\<close>

theorem flow_id_injective:
  assumes "ntop6_ok ntop6" and "wf_key k" and "wf_key k'" and "k \<noteq> k'"
  shows "flow_id ntop6 k \<noteq> flow_id ntop6 k'"
  using flow_id_inj assms by blast

theorem flow_id_injective_witness:
  "flow_id full_hex (default_flow_key\<lparr>fk_src_port := 12, fk_dst_port := 3\<rparr>) \<noteq>
   flow_id full_hex (default_flow_key\<lparr>fk_src_port := 1, fk_dst_port := 23\<rparr>)"
  by (rule flow_id_injective [OF ntop6_ok_full_hex]) (simp_all add: wf_key_def default_flow_key_def)

subsection \<open>What a message holds\<close>

text \<open>What a consumer reads: the Confluent header, then the fields of the record.\<close>

fun read_header :: "u8 list \<Rightarrow> (i32 \<times> u8 list) option" where
  "read_header (m # a # b # c # d # payload) =
     (if m = 0 then
        Some (push_bit 24 (ucast a) OR push_bit 16 (ucast b) OR push_bit 8 (ucast c) OR ucast d, payload)
      else None)"
| "read_header _ = None"

definition event_fields :: "(u8 list \<Rightarrow> string) \<Rightarrow> flow_event \<Rightarrow> avro_value list" where
  "event_fields ntop6 evt =
     (let s = ev_state evt; k = fs_key s in
      [AString ''1.0'', AEnum (event_symbol (ev_type evt)), AString (flow_id ntop6 k),
       AString (ip_array_to_string ntop6 (fk_src_ip k)),
       AString (ip_array_to_string ntop6 (fk_dst_ip k)),
       AInt (ucast (fk_src_port k)), AInt (ucast (fk_dst_port k)), AInt (ucast (fk_protocol k)),
       ALong (fs_start_us s), ALong (ev_timestamp_us evt), ALong (fs_packet_count s),
       ALong (fs_byte_count s),
       if ev_type evt = End then
         ABranchString (if ev_reason evt = IdleTimeout then ''idle_timeout'' else ''tcp_teardown'')
       else ANull])"

lemma list_13:
  assumes "length xs = 13"
  obtains a b c d e f g h i j k l m where "xs = [a, b, c, d, e, f, g, h, i, j, k, l, m]"
proof -
  have "xs = map ((!) xs) [0..<13]" using assms by (metis map_nth)
  then have "xs = [xs ! 0, xs ! 1, xs ! 2, xs ! 3, xs ! 4, xs ! 5, xs ! 6, xs ! 7, xs ! 8, xs ! 9,
      xs ! 10, xs ! 11, xs ! 12]" by (simp add: upt_rec numeral_eq_Suc)
  with that show ?thesis by blast
qed

lemma fill_record_fields:
  assumes "length rec = 13"
  shows "fill_record ntop6 evt rec = event_fields ntop6 evt"
proof -
  obtain a b c d e f g h i j k l m where "rec = [a, b, c, d, e, f, g, h, i, j, k, l, m]"
    using assms by (rule list_13)
  then show ?thesis by (simp add: fill_record_def event_fields_def field_index_defs Let_def)
qed

lemma be32_bits: "push_bit 24 (ucast (ucast (drop_bit 24 w) :: u8) :: u32) OR
    push_bit 16 (ucast (ucast (drop_bit 16 w) :: u8)) OR push_bit 8 (ucast (ucast (drop_bit 8 w) :: u8)) OR
    ucast (ucast w :: u8) = w" for w :: u32
proof (rule bit_word_eqI)
  fix n assume "n < LENGTH(32)"
  then have "n < 8 \<or> (8 \<le> n \<and> n < 16) \<or> (16 \<le> n \<and> n < 24) \<or> (24 \<le> n \<and> n < 32)" by auto
  then show "bit (push_bit 24 (ucast (ucast (drop_bit 24 w) :: u8) :: u32) OR
    push_bit 16 (ucast (ucast (drop_bit 16 w) :: u8)) OR push_bit 8 (ucast (ucast (drop_bit 8 w) :: u8)) OR
    ucast (ucast w :: u8)) n = bit w n"
    by (elim disjE) (auto simp: bit_simps)
qed

lemma serialize_eq:
  "length (as_record ser) = 13 \<Longrightarrow> serialize ntop6 encode ser evt =
    (case encode (event_fields ntop6 evt) of
       Inl what \<Rightarrow> Inl (''Avro serialization failed: '' @ what)
     | Inr payload \<Rightarrow> Inr (0 # be32_bytes (as_schema_id ser) @ payload))"
  by (simp add: serialize_def fill_record_fields field_index_defs split: sum.split)

lemma read_header_message: "read_header (0 # be32_bytes sid @ payload) = Some (sid, payload)"
  by (simp add: be32_bytes_def be32_bits)

text \<open>
  C12.  With the record of the shipped schema (thirteen fields) the message is the zero byte, the
  schema identifier in big-endian order and the payload the Avro encoder gives for exactly the
  fields of the event, in schema order; a consumer reads the identifier and the payload
  back.  If the encoder throws, or the schema has too few fields, the result is an error that
  names the cause, and no message.
\<close>

theorem serialize_wire_format:
  "(length (as_record ser) = 13 \<longrightarrow>
      (case encode (event_fields ntop6 evt) of
         Inl what \<Rightarrow> serialize ntop6 encode ser evt = Inl (''Avro serialization failed: '' @ what)
       | Inr payload \<Rightarrow> (\<exists>msg. serialize ntop6 encode ser evt = Inr msg \<and>
           length msg = 5 + length payload \<and> read_header msg = Some (as_schema_id ser, payload)))) \<and>
   (length (as_record ser) < 13 \<longrightarrow> serialize ntop6 encode ser evt =
      Inl (''Avro serialization failed: '' @ ''Avro schema field layout mismatch for FlowEvent''))"
proof (intro conjI impI)
  assume "length (as_record ser) = 13"
  from serialize_eq [OF this, of ntop6 encode evt] show "case encode (event_fields ntop6 evt) of
         Inl what \<Rightarrow> serialize ntop6 encode ser evt = Inl (''Avro serialization failed: '' @ what)
       | Inr payload \<Rightarrow> (\<exists>msg. serialize ntop6 encode ser evt = Inr msg \<and>
           length msg = 5 + length payload \<and> read_header msg = Some (as_schema_id ser, payload))"
    using read_header_message [of "as_schema_id ser"]
    by (cases "encode (event_fields ntop6 evt)") (simp_all add: be32_bytes_def)
next
  assume "length (as_record ser) < 13"
  then show "serialize ntop6 encode ser evt =
      Inl (''Avro serialization failed: '' @ ''Avro schema field layout mismatch for FlowEvent'')"
    by (simp add: serialize_def field_index_defs)
qed

theorem serialize_wire_format_witness:
  "serialize full_hex (\<lambda>_. Inr [7, 8]) \<lparr>as_record = replicate 13 ANull, as_schema_id = 0x01020304\<rparr>
    default_flow_event = Inr [0, 1, 2, 3, 4, 7, 8] \<and>
   (\<exists>msg. serialize full_hex (\<lambda>_. Inr [7, 8]) \<lparr>as_record = replicate 13 ANull, as_schema_id = 0x01020304\<rparr>
     default_flow_event = Inr msg \<and> read_header msg = Some (0x01020304, [7, 8]))"
proof
  show "serialize full_hex (\<lambda>_. Inr [7, 8]) \<lparr>as_record = replicate 13 ANull, as_schema_id = 0x01020304\<rparr>
    default_flow_event = Inr [0, 1, 2, 3, 4, 7, 8]"
    by (simp add: serialize_eq be32_bytes_def)
  show "\<exists>msg. serialize full_hex (\<lambda>_. Inr [7, 8]) \<lparr>as_record = replicate 13 ANull, as_schema_id = 0x01020304\<rparr>
     default_flow_event = Inr msg \<and> read_header msg = Some (0x01020304, [7, 8])"
    using serialize_wire_format [of "\<lparr>as_record = replicate 13 ANull, as_schema_id = 0x01020304\<rparr>"
        full_hex "\<lambda>_. Inr [7, 8]" default_flow_event]
    by auto
qed

text \<open>
  C37.  Two events serialized to the same message by an encoder whose payloads can be decoded
  agree in all that is published: type, key, start and event time, packet and byte count, and, for
  an \<open>End\<close> event, the reason.
\<close>

theorem serialize_faithful:
  assumes "ntop6_ok ntop6" and "\<And>r p. encode r = Inr p \<Longrightarrow> decode_record p = r"
    and "length (as_record ser) = 13" and "wf_key (ev_key e)" and "wf_key (ev_key e')"
    and "serialize ntop6 encode ser e = Inr msg" and "serialize ntop6 encode ser e' = Inr msg"
  shows "ev_type e = ev_type e' \<and> ev_key e = ev_key e' \<and> ev_timestamp_us e = ev_timestamp_us e' \<and>
    fs_start_us (ev_state e) = fs_start_us (ev_state e') \<and>
    fs_packet_count (ev_state e) = fs_packet_count (ev_state e') \<and>
    fs_byte_count (ev_state e) = fs_byte_count (ev_state e') \<and>
    (ev_type e = End \<longrightarrow> ev_reason e = ev_reason e')"
proof -
  from assms(3,6,7) obtain p where
    "encode (event_fields ntop6 e) = Inr p" "encode (event_fields ntop6 e') = Inr p"
    by (auto simp: serialize_eq split: sum.splits)
  from assms(2) [OF this(1)] assms(2) [OF this(2)]
  have eq: "event_fields ntop6 e = event_fields ntop6 e'" by simp
  then have "flow_id ntop6 (ev_key e) = flow_id ntop6 (ev_key e')"
    by (simp add: event_fields_def Let_def)
  with assms have key: "ev_key e = ev_key e'" by (intro flow_id_inj)
  have type: "ev_type e = ev_type e'"
    using eq by (cases "ev_type e"; cases "ev_type e'") (simp_all add: event_fields_def Let_def)
  have "ev_reason e = ev_reason e'" if "ev_type e = End"
    using eq type that
    by (cases "ev_reason e"; cases "ev_reason e'") (simp_all add: event_fields_def Let_def)
  with eq key type show ?thesis by (simp add: event_fields_def Let_def)
qed

theorem serialize_faithful_witness:
  "let e = default_flow_event;
       e' = e\<lparr>ev_reason := TcpTeardown, ev_state := (ev_state e)\<lparr>fs_last_seen_us := 5\<rparr>\<rparr>;
       ser = \<lparr>as_record = replicate 13 ANull, as_schema_id = 1\<rparr>;
       encode = (\<lambda>r. if r = event_fields full_hex e then Inr [9] else Inl ''no'')
   in serialize full_hex encode ser e = serialize full_hex encode ser e' \<and>
      ev_type e = ev_type e' \<and> ev_key e = ev_key e'"
proof -
  let ?e = default_flow_event
  let ?e' = "?e\<lparr>ev_reason := TcpTeardown, ev_state := (ev_state ?e)\<lparr>fs_last_seen_us := 5\<rparr>\<rparr>"
  let ?ser = "\<lparr>as_record = replicate 13 ANull, as_schema_id = 1\<rparr>"
  let ?encode = "\<lambda>r. if r = event_fields full_hex ?e then Inr [9] else Inl ''no''"
  have same: "event_fields full_hex ?e' = event_fields full_hex ?e"
    by (simp add: event_fields_def default_flow_event_def Let_def)
  have m: "serialize full_hex ?encode ?ser ?e = Inr (0 # be32_bytes 1 @ [9])"
    "serialize full_hex ?encode ?ser ?e' = Inr (0 # be32_bytes 1 @ [9])"
    by (simp_all add: serialize_eq same)
  have dec: "event_fields full_hex ?e = r" if "?encode r = Inr p" for r p
    using that by (simp split: if_splits)
  have wf: "wf_key (ev_key ?e)" "wf_key (ev_key ?e')"
    by (simp_all add: wf_key_def default_flow_event_def default_flow_state_def default_flow_key_def)
  from serialize_faithful [where decode_record = "\<lambda>_. event_fields full_hex ?e", OF ntop6_ok_full_hex dec _ wf m]
  show ?thesis using m by (simp add: Let_def)
qed

end
