(* ===== verification/Schema_Registry.thy ===== *)
theory Schema_Registry
  imports Std_String Prelude
begin

section \<open>The schema registry client (avro/schema\_registry\_client.cpp)\<close>

text \<open>
  The look-up of the schema identifier at start-up.  The HTTP client and the JSON library
  are parameters: the answer to a GET request on a host, port and path, the parser, and the
  access to a member and to a 32-bit integer.  The exceptions of \<open>std::stoi\<close> and of the JSON
  library are kept apart from the client's own \<open>SchemaRegistryUnavailableError\<close>.
\<close>

datatype registry_error =
    Unavailable string
  | Bad_Port stoi_error
  | Json_Error

definition parse_url :: "string \<Rightarrow> registry_error + string \<times> int" where
  "parse_url url =
     (case str_find ''://'' url of
        None \<Rightarrow> Inl (Unavailable (''Invalid Schema Registry URL: '' @ url))
      | Some scheme_end \<Rightarrow>
          (let host_port = drop (scheme_end + 3) url in
           case str_rfind (CHR '':'') host_port of
             None \<Rightarrow> Inr (host_port, 80)
           | Some colon \<Rightarrow>
               (case stoi (drop (colon + 1) host_port) of
                  Inl e \<Rightarrow> Inl (Bad_Port e)
                | Inr port \<Rightarrow> Inr (take colon host_port, port))))"

datatype http_result = Http_Failed string | Http_Response int string

text \<open>\<open>std::to_string\<close> of an \<open>int\<close>.\<close>

definition int_to_string :: "int \<Rightarrow> string" where
  "int_to_string i = (if i < 0 then CHR ''-'' # dec_string (nat (- i)) else dec_string (nat i))"

definition SchemaRegistryClient ::
  "(string \<Rightarrow> int \<Rightarrow> string \<Rightarrow> http_result) \<Rightarrow> (string \<Rightarrow> 'j option) \<Rightarrow>
   ('j \<Rightarrow> string \<Rightarrow> 'j option) \<Rightarrow> ('j \<Rightarrow> i32 option) \<Rightarrow> string \<Rightarrow> string \<Rightarrow>
   registry_error + i32" where
  "SchemaRegistryClient http_get json_parse json_member json_int32 url subject =
     (case parse_url url of
        Inl e \<Rightarrow> Inl e
      | Inr (host, port) \<Rightarrow>
          (let path = ''/subjects/'' @ subject @ ''/versions/latest'' in
           case http_get host port path of
             Http_Failed err \<Rightarrow>
               Inl (Unavailable (''Cannot reach Schema Registry at '' @ url @ '': '' @ err))
           | Http_Response status body \<Rightarrow>
               if status \<noteq> 200 then
                 Inl (Unavailable (''Schema Registry returned HTTP '' @ int_to_string status @
                   '' for subject '' @ [CHR 0x27] @ subject @ [CHR 0x27] @
                   ''. Register the schema first.''))
               else
                 (case json_parse body of
                    None \<Rightarrow> Inl Json_Error
                  | Some j \<Rightarrow>
                      (case json_member j ''id'' of
                         None \<Rightarrow> Inl (Unavailable (''Schema Registry response missing '' @
                           [CHR 0x27] @ ''id'' @ [CHR 0x27] @ '' field: '' @ body))
                       | Some v \<Rightarrow>
                           (case json_int32 v of
                              None \<Rightarrow> Inl Json_Error
                            | Some sid \<Rightarrow> Inr sid)))))"

subsection \<open>Searching\<close>

lemma str_rfind_None_iff: "str_rfind c s = None \<longleftrightarrow> c \<notin> set s"
  by (induction s) (auto split: option.splits)

lemma str_rfind_last: "c \<notin> set s \<Longrightarrow> str_rfind c (p @ c # s) = Some (length p)"
  by (induction p) (auto simp: str_rfind_None_iff [symmetric])

lemma str_find_scheme:
  "CHR '':'' \<notin> set scheme \<Longrightarrow> str_find ''://'' (scheme @ ''://'' @ rest) = Some (length scheme)"
  by (induction scheme) auto

lemma dec_string_no_colon: "CHR '':'' \<notin> set (dec_string n)"
  by (rule not_digit_dec_string) (simp add: is_digit_def)

subsection \<open>Properties\<close>

text \<open>
  C38.  A URL made of a scheme, \<open>://\<close>, a host and a port is read back as that host and port, for
  every host, also one with colons, and every port that fits an \<open>int\<close>; with a host without
  a colon and no port it is port 80; without \<open>://\<close> it is refused.
\<close>

theorem parse_url_roundtrip:
  "(CHR '':'' \<notin> set scheme \<and> int port \<le> INT_MAX \<longrightarrow>
      parse_url (scheme @ ''://'' @ host @ '':'' @ dec_string port) = Inr (host, int port)) \<and>
   (CHR '':'' \<notin> set scheme \<and> CHR '':'' \<notin> set host \<longrightarrow>
      parse_url (scheme @ ''://'' @ host) = Inr (host, 80)) \<and>
   (CHR '':'' \<notin> set url \<longrightarrow> (\<exists>msg. parse_url url = Inl (Unavailable msg)))"
proof (intro conjI impI)
  assume a: "CHR '':'' \<notin> set scheme \<and> int port \<le> INT_MAX"
  have "str_rfind (CHR '':'') (host @ CHR '':'' # dec_string port) = Some (length host)"
    by (rule str_rfind_last) (rule dec_string_no_colon)
  with a show "parse_url (scheme @ ''://'' @ host @ '':'' @ dec_string port) = Inr (host, int port)"
    using str_find_scheme [of scheme "host @ CHR '':'' # dec_string port"]
    by (simp add: parse_url_def stoi_dec_string)
next
  assume a: "CHR '':'' \<notin> set scheme \<and> CHR '':'' \<notin> set host"
  then have "str_rfind (CHR '':'') host = None" by (simp add: str_rfind_None_iff)
  with a show "parse_url (scheme @ ''://'' @ host) = Inr (host, 80)"
    using str_find_scheme [of scheme host] by (simp add: parse_url_def)
next
  assume "CHR '':'' \<notin> set url"
  then have "str_find ''://'' url = None" by (induction url) auto
  then show "\<exists>msg. parse_url url = Inl (Unavailable msg)" by (simp add: parse_url_def)
qed

theorem parse_url_roundtrip_witness:
  "parse_url (''http'' @ ''://'' @ ''localhost'' @ '':'' @ dec_string 8081) = Inr (''localhost'', int 8081) \<and>
   parse_url (''http'' @ ''://'' @ ''registry'') = Inr (''registry'', 80)"
proof
  show "parse_url (''http'' @ ''://'' @ ''localhost'' @ '':'' @ dec_string 8081) = Inr (''localhost'', int 8081)"
    by (rule mp [OF conjunct1 [OF parse_url_roundtrip]]) (simp add: INT_MAX_def)
  show "parse_url (''http'' @ ''://'' @ ''registry'') = Inr (''registry'', 80)"
    by (rule mp [OF conjunct1 [OF conjunct2 [OF parse_url_roundtrip]]]) simp
qed

text \<open>
  The client succeeds with an identifier exactly if the URL is well formed, the registry
  answers the request for the latest version of the subject on that host and port with status 200,
  and the body is JSON with an integer member \<open>id\<close>, which is the identifier.
\<close>

theorem registry_lookup:
  "SchemaRegistryClient http_get json_parse json_member json_int32 url subject = Inr sid \<longleftrightarrow>
    (\<exists>host port body j v. parse_url url = Inr (host, port) \<and>
       http_get host port (''/subjects/'' @ subject @ ''/versions/latest'') = Http_Response 200 body \<and>
       json_parse body = Some j \<and> json_member j ''id'' = Some v \<and> json_int32 v = Some sid)"
  by (auto simp: SchemaRegistryClient_def Let_def split: sum.splits http_result.splits option.splits)

end
