(* ===== verification/Kafka_Producer.thy ===== *)
theory Kafka_Producer
  imports Config Metrics
begin

section \<open>The Kafka producer (kafka/kafka\_producer.cpp)\<close>

text \<open>
  The wrapper around librdkafka.  The library is a parameter: what \<open>Conf::set\<close> and
  \<open>Producer::create\<close> answer for the settings made so far, and, for a producer, the
  error code of \<open>produce\<close> and \<open>flush\<close>, the delivery reports that \<open>poll\<close> and \<open>flush\<close> serve, and
  the length of the queue, each a function of the calls made before.  The calls are recorded; error
  code 0 is \<open>ERR_NO_ERROR\<close>.
\<close>

type_synonym settings = "(string \<times> string) list"

datatype rk_call =
    Rk_Produce string string "u8 list" int
  | Rk_Poll int
  | Rk_Flush int int

record rk_lib =
  rk_produce :: "rk_call list \<Rightarrow> string \<Rightarrow> string \<Rightarrow> u8 list \<Rightarrow> int"
  rk_flush :: "rk_call list \<Rightarrow> int"
  rk_reports :: "rk_call list \<Rightarrow> int list"
  rk_outq_len :: "rk_call list \<Rightarrow> int"

datatype kafka_log = Produce_Error int | Flush_Timeout int | Delivery_Error int

record kafka_producer =
  kp_conf :: settings
  kp_topic_name :: string
  kp_metrics :: metrics
  kp_calls :: "rk_call list"
  kp_log :: "kafka_log list"

subsection \<open>Configuration\<close>

text \<open>The lambda \<open>set\<close>; an error is the text of the \<open>KafkaInitError\<close>.\<close>

definition conf_set ::
  "(settings \<Rightarrow> string \<Rightarrow> string \<Rightarrow> string option) \<Rightarrow> string \<Rightarrow> string \<Rightarrow> settings \<Rightarrow> string + settings" where
  "conf_set rk_set key val conf =
     (case rk_set conf key val of
        Some errstr \<Rightarrow> Inl (''rdkafka conf set '' @ key @ '': '' @ errstr)
      | None \<Rightarrow> Inr (conf @ [(key, val)]))"

fun conf_set_all ::
  "(settings \<Rightarrow> string \<Rightarrow> string \<Rightarrow> string option) \<Rightarrow> settings \<Rightarrow> settings \<Rightarrow> string + settings" where
  "conf_set_all rk_set [] conf = Inr conf"
| "conf_set_all rk_set ((key, val) # kvs) conf =
     bind_result (conf_set rk_set key val conf) (conf_set_all rk_set kvs)"

definition kafka_defaults :: settings where
  "kafka_defaults =
     [(''compression.codec'', ''snappy''),
      (''batch.num.messages'', ''1000''),
      (''linger.ms'', ''5''),
      (''enable.idempotence'', ''false''),
      (''message.send.max.retries'', ''3'')]"

text \<open>The lines \<open>std::getline\<close> gives: a last line without a newline counts, an empty rest does not.\<close>

fun getlines :: "string \<Rightarrow> string \<Rightarrow> string list" where
  "getlines acc [] = (if acc = [] then [] else [acc])"
| "getlines acc (c # cs) = (if c = newline then acc # getlines [] cs else getlines (acc @ [c]) cs)"

text \<open>One line of the file: nothing, or a key and a value.\<close>

definition conf_line :: "string \<Rightarrow> (string \<times> string) option" where
  "conf_line line =
     (if line = [] \<or> line ! 0 = CHR 0x23 then None
      else (case str_find ''='' line of
              None \<Rightarrow> None
            | Some eq \<Rightarrow> Some (take eq line, drop (eq + 1) line)))"

fun load_conf_lines ::
  "(settings \<Rightarrow> string \<Rightarrow> string \<Rightarrow> string option) \<Rightarrow> string list \<Rightarrow> settings \<Rightarrow> string + settings" where
  "load_conf_lines rk_set [] conf = Inr conf"
| "load_conf_lines rk_set (line # ls) conf =
     (case conf_line line of
        None \<Rightarrow> load_conf_lines rk_set ls conf
      | Some (key, val) \<Rightarrow> bind_result (conf_set rk_set key val conf) (load_conf_lines rk_set ls))"

definition load_conf_file ::
  "(settings \<Rightarrow> string \<Rightarrow> string \<Rightarrow> string option) \<Rightarrow> (string \<Rightarrow> string option) \<Rightarrow> string \<Rightarrow>
   settings \<Rightarrow> string + settings" where
  "load_conf_file rk_set read_file path conf =
     (if path = [] then Inr conf
      else (case read_file path of
              None \<Rightarrow> Inl (''Cannot open kafka conf file: '' @ path)
            | Some contents \<Rightarrow> load_conf_lines rk_set (getlines [] contents) conf))"

definition KafkaProducer ::
  "(settings \<Rightarrow> string \<Rightarrow> string \<Rightarrow> string option) \<Rightarrow> (settings \<Rightarrow> string option) \<Rightarrow>
   (settings \<Rightarrow> string option) \<Rightarrow> (string \<Rightarrow> string option) \<Rightarrow> app_config \<Rightarrow> metrics \<Rightarrow>
   string + kafka_producer" where
  "KafkaProducer rk_set rk_set_dr_cb rk_create read_file cfg metrics =
     bind_result (conf_set_all rk_set kafka_defaults []) (\<lambda>conf.
     bind_result (load_conf_file rk_set read_file (cfg_kafka_conf_file cfg) conf) (\<lambda>conf.
     bind_result (conf_set rk_set ''bootstrap.servers'' (cfg_kafka_brokers cfg) conf) (\<lambda>conf.
       case rk_set_dr_cb conf of
         Some errstr \<Rightarrow> Inl (''rdkafka set dr_cb: '' @ errstr)
       | None \<Rightarrow>
           (case rk_create conf of
              Some errstr \<Rightarrow> Inl (''Failed to create Kafka producer: '' @ errstr)
            | None \<Rightarrow>
                Inr \<lparr>kp_conf = conf, kp_topic_name = cfg_kafka_topic cfg, kp_metrics = metrics,
                     kp_calls = [], kp_log = []\<rparr>))))"

subsection \<open>Operations\<close>

definition kp_on_metrics :: "(metrics \<Rightarrow> metrics) \<Rightarrow> kafka_producer \<Rightarrow> kafka_producer" where
  "kp_on_metrics f kp = kp\<lparr>kp_metrics := f (kp_metrics kp)\<rparr>"

definition produce :: "rk_lib \<Rightarrow> string \<Rightarrow> u8 list \<Rightarrow> kafka_producer \<Rightarrow> bool \<times> kafka_producer" where
  "produce rk key payload kp =
     (let err = rk_produce rk (kp_calls kp) (kp_topic_name kp) key payload;
          kp = kp\<lparr>kp_calls := kp_calls kp @ [Rk_Produce (kp_topic_name kp) key payload err]\<rparr>
      in if err \<noteq> 0 then
           (let kp = kp\<lparr>kp_log := kp_log kp @ [Produce_Error err]\<rparr>
            in (False, kp_on_metrics (Increment KafkaDeliveryErrors) kp))
         else (True, kp_on_metrics (Increment KafkaMessagesProduced) kp))"

text \<open>The delivery callback, given the error of a report.\<close>

definition dr_cb :: "int \<Rightarrow> kafka_producer \<Rightarrow> kafka_producer" where
  "dr_cb err kp =
     (if err \<noteq> 0 then
        (let kp = kp_on_metrics (Increment KafkaDeliveryErrors) kp
         in kp\<lparr>kp_log := kp_log kp @ [Delivery_Error err]\<rparr>)
      else kp)"

definition poll :: "rk_lib \<Rightarrow> int \<Rightarrow> kafka_producer \<Rightarrow> kafka_producer" where
  "poll rk timeout_ms kp =
     (let reports = rk_reports rk (kp_calls kp);
          kp = kp\<lparr>kp_calls := kp_calls kp @ [Rk_Poll timeout_ms]\<rparr>
      in fold dr_cb reports kp)"

definition flush :: "rk_lib \<Rightarrow> int \<Rightarrow> kafka_producer \<Rightarrow> kafka_producer" where
  "flush rk timeout_ms kp =
     (let reports = rk_reports rk (kp_calls kp);
          err = rk_flush rk (kp_calls kp);
          kp = kp\<lparr>kp_calls := kp_calls kp @ [Rk_Flush timeout_ms err]\<rparr>;
          kp = fold dr_cb reports kp
      in if err \<noteq> 0 then kp\<lparr>kp_log := kp_log kp @ [Flush_Timeout (rk_outq_len rk (kp_calls kp))]\<rparr>
         else kp)"

subsection \<open>Which settings are in force\<close>

text \<open>
  A later setting of a key replaces an earlier one.  Keys are compared as written: that librdkafka has second names for some
  properties (\<open>metadata.broker.list\<close> for \<open>bootstrap.servers\<close>) is not modelled.
\<close>

definition effective :: "settings \<Rightarrow> string \<Rightarrow> string option" where
  "effective conf key = map_of (rev conf) key"

definition file_settings :: "(string \<Rightarrow> string option) \<Rightarrow> string \<Rightarrow> settings" where
  "file_settings read_file path =
     (if path = [] then []
      else (case read_file path of None \<Rightarrow> [] | Some contents \<Rightarrow> List.map_filter conf_line (getlines [] contents)))"

lemma conf_set_Inr: "conf_set rk_set k v conf = Inr conf' \<Longrightarrow> conf' = conf @ [(k, v)]"
  by (auto simp: conf_set_def split: option.splits)

lemma conf_set_all_Inr: "conf_set_all rk_set kvs conf = Inr conf' \<Longrightarrow> conf' = conf @ kvs"
proof (induction kvs arbitrary: conf)
  case (Cons e kvs)
  obtain k v where e: "e = (k, v)" by fastforce
  with Cons.prems have "conf_set_all rk_set kvs (conf @ [(k, v)]) = Inr conf'"
    by (auto simp: bind_result_Inr_iff dest!: conf_set_Inr)
  from Cons.IH [OF this] e show ?case by simp
qed simp

lemma load_conf_lines_Inr:
  "load_conf_lines rk_set ls conf = Inr conf' \<Longrightarrow> conf' = conf @ List.map_filter conf_line ls"
proof (induction ls arbitrary: conf)
  case (Cons l ls)
  show ?case
  proof (cases "conf_line l")
    case (Some e)
    obtain k v where e: "e = (k, v)" by fastforce
    with Some Cons.prems have "load_conf_lines rk_set ls (conf @ [(k, v)]) = Inr conf'"
      by (auto simp: bind_result_Inr_iff dest!: conf_set_Inr)
    from Cons.IH [OF this] Some e show ?thesis by (simp add: map_filter_simps)
  qed (use Cons in \<open>simp add: map_filter_simps\<close>)
qed (simp add: map_filter_simps)

lemma load_conf_file_Inr:
  "load_conf_file rk_set read_file path conf = Inr conf' \<Longrightarrow> conf' = conf @ file_settings read_file path"
  by (auto simp: load_conf_file_def file_settings_def dest: load_conf_lines_Inr split: if_splits option.splits)

lemma KafkaProducer_Inr:
  assumes "KafkaProducer rk_set cb create read_file cfg m = Inr kp"
  shows "kp_conf kp = kafka_defaults @ file_settings read_file (cfg_kafka_conf_file cfg) @
      [(''bootstrap.servers'', cfg_kafka_brokers cfg)] \<and>
    kp_topic_name kp = cfg_kafka_topic cfg \<and> kp_metrics kp = m \<and> kp_calls kp = [] \<and> kp_log kp = [] \<and>
    create (kp_conf kp) = None"
  using assms
  by (auto simp: KafkaProducer_def bind_result_Inr_iff split: option.splits
      dest!: conf_set_Inr conf_set_all_Inr load_conf_file_Inr)

text \<open>
  C39.  A producer is created with three layers of settings: the brokers of the command line
  are always in force, whatever the file says; for any other key the last line of the
  configuration file that sets it, and otherwise the built-in default.
\<close>

theorem kafka_config_layers:
  assumes "KafkaProducer rk_set cb create read_file cfg m = Inr kp"
  shows "effective (kp_conf kp) ''bootstrap.servers'' = Some (cfg_kafka_brokers cfg) \<and>
    (key \<noteq> ''bootstrap.servers'' \<longrightarrow> effective (kp_conf kp) key =
      (case effective (file_settings read_file (cfg_kafka_conf_file cfg)) key of
         Some v \<Rightarrow> Some v
       | None \<Rightarrow> effective kafka_defaults key)) \<and>
    kp_topic_name kp = cfg_kafka_topic cfg"
  using KafkaProducer_Inr [OF assms]
  by (auto simp: effective_def map_add_def split: option.split)

theorem kafka_config_layers_witness:
  "\<exists>kp. KafkaProducer (\<lambda>_ _ _. None) (\<lambda>_. None) (\<lambda>_. None)
      (\<lambda>_. Some (''linger.ms=50'' @ [newline] @ ''bootstrap.servers=evil:1''))
      (default_config\<lparr>cfg_kafka_conf_file := ''k.conf''\<rparr>) metrics_zero = Inr kp \<and>
    effective (kp_conf kp) ''bootstrap.servers'' = Some ''localhost:9092''"
proof -
  let ?cfg = "default_config\<lparr>cfg_kafka_conf_file := ''k.conf''\<rparr>"
  let ?read = "\<lambda>_. Some (''linger.ms=50'' @ [newline] @ ''bootstrap.servers=evil:1'')"
  obtain kp where kp: "KafkaProducer (\<lambda>_ _ _. None) (\<lambda>_. None) (\<lambda>_. None) ?read ?cfg metrics_zero = Inr kp"
    by (cases "KafkaProducer (\<lambda>_ _ _. None) (\<lambda>_. None) (\<lambda>_. None) ?read ?cfg metrics_zero")
      (simp_all add: KafkaProducer_def bind_result_def conf_set_def kafka_defaults_def
        load_conf_file_def newline_def conf_line_def default_config_def)
  from kafka_config_layers [OF kp] kp show ?thesis by (auto simp: default_config_def)
qed

end
