(* ===== verification/Avro_Kafka_Sink.thy ===== *)
theory Avro_Kafka_Sink
  imports Kafka_Producer Event_Queue "HOL-Library.Multiset"
begin

section \<open>The Avro-Kafka sink (kafka/avro\_kafka\_sink.cpp)\<close>

text \<open>
  The sink thread: it drains the retry buffer, takes one event from the queue, serializes and
  produces it, and serves delivery reports.  The serializer and the flow identifier are
  arguments (\<open>ser\<close>, \<open>fid\<close>), as the class holds the serializer by reference.  The events the
  flow table pushes meanwhile, and the moment stop is requested, are the environment; the list
  of the events the queue has accepted is kept beside the sink as a history.
\<close>

datatype sink_log = Serialization_Error string | Retry_Buffer_Full

record avro_kafka_sink =
  sk_producer :: kafka_producer
  sk_queue :: "flow_event event_queue"
  sk_sr_buffer_size :: int
  sk_retry_buf :: "flow_event list"
  sk_log :: "sink_log list"

definition AvroKafkaSink :: "kafka_producer \<Rightarrow> flow_event event_queue \<Rightarrow> app_config \<Rightarrow> avro_kafka_sink" where
  "AvroKafkaSink producer queue cfg =
     \<lparr>sk_producer = producer, sk_queue = queue, sk_sr_buffer_size = cfg_sr_buffer_size cfg,
      sk_retry_buf = [], sk_log = []\<rparr>"

definition sink_push :: "size_t \<Rightarrow> flow_event \<Rightarrow> avro_kafka_sink \<Rightarrow> bool \<times> avro_kafka_sink" where
  "sink_push n evt sk = (let (ok, q) = eq_push n evt (sk_queue sk) in (ok, sk\<lparr>sk_queue := q\<rparr>))"

definition sink_flush :: "rk_lib \<Rightarrow> int \<Rightarrow> avro_kafka_sink \<Rightarrow> avro_kafka_sink" where
  "sink_flush rk timeout_ms sk = sk\<lparr>sk_producer := flush rk timeout_ms (sk_producer sk)\<rparr>"

definition sk_metric :: "(metrics \<Rightarrow> metrics) \<Rightarrow> avro_kafka_sink \<Rightarrow> avro_kafka_sink" where
  "sk_metric f sk = sk\<lparr>sk_producer := kp_on_metrics f (sk_producer sk)\<rparr>"

definition attempt_produce ::
  "(flow_event \<Rightarrow> string + u8 list) \<Rightarrow> (flow_key \<Rightarrow> string) \<Rightarrow> rk_lib \<Rightarrow> flow_event \<Rightarrow>
   avro_kafka_sink \<Rightarrow> bool \<times> avro_kafka_sink" where
  "attempt_produce ser fid rk evt sk =
     (case ser evt of
        Inl ex \<Rightarrow>
          (let sk = sk_metric (Increment AvroSerializationErrors) sk;
               sk = sk\<lparr>sk_log := sk_log sk @ [Serialization_Error ex]\<rparr>
           in (True, sk))
      | Inr payload \<Rightarrow>
          (let key = fid (ev_key evt);
               (ok, kp) = produce rk key payload (sk_producer sk)
           in (ok, sk\<lparr>sk_producer := kp\<rparr>)))"

text \<open>
  The body of the inner loop, for the front \<open>evt\<close> of the retry buffer and the events \<open>rest\<close> behind it; the result
  says whether the loop goes on.
\<close>

definition retry_step ::
  "(flow_event \<Rightarrow> string + u8 list) \<Rightarrow> (flow_key \<Rightarrow> string) \<Rightarrow> rk_lib \<Rightarrow> flow_event \<Rightarrow> flow_event list \<Rightarrow>
   avro_kafka_sink \<Rightarrow> bool \<times> avro_kafka_sink" where
  "retry_step ser fid rk evt rest sk =
     (case ser evt of
        Inl ex \<Rightarrow>
          (let sk = sk_metric (Increment AvroSerializationErrors) sk
           in (True, sk\<lparr>sk_retry_buf := rest\<rparr>))
      | Inr payload \<Rightarrow>
          (let key = fid (ev_key evt);
               (ok, kp) = produce rk key payload (sk_producer sk);
               sk = sk\<lparr>sk_producer := kp\<rparr>
           in if \<not> ok then (False, sk)
              else
                (let sk = sk_metric (Increment SchemaRegistryRetries) sk
                 in (True, sk\<lparr>sk_retry_buf := rest\<rparr>))))"

text \<open>The inner loop; its list argument is the retry buffer.\<close>

fun drain_retry ::
  "(flow_event \<Rightarrow> string + u8 list) \<Rightarrow> (flow_key \<Rightarrow> string) \<Rightarrow> rk_lib \<Rightarrow> flow_event list \<Rightarrow>
   avro_kafka_sink \<Rightarrow> avro_kafka_sink" where
  "drain_retry ser fid rk [] sk = sk"
| "drain_retry ser fid rk (evt # rest) sk =
     (let (again, sk) = retry_step ser fid rk evt rest sk
      in if again then drain_retry ser fid rk rest sk else sk)"

text \<open>What happens to an event taken from the queue.\<close>

definition consume ::
  "(flow_event \<Rightarrow> string + u8 list) \<Rightarrow> (flow_key \<Rightarrow> string) \<Rightarrow> rk_lib \<Rightarrow> flow_event \<Rightarrow>
   avro_kafka_sink \<Rightarrow> avro_kafka_sink" where
  "consume ser fid rk evt sk =
     (let (done, sk) = attempt_produce ser fid rk evt sk
      in if \<not> done then
           (if size_as_int (sk_retry_buf sk) < sk_sr_buffer_size sk then
              sk\<lparr>sk_retry_buf := sk_retry_buf sk @ [evt]\<rparr>
            else
              (let sk = sk_metric (Increment KafkaDeliveryErrors) sk
               in sk\<lparr>sk_log := sk_log sk @ [Retry_Buffer_Full]\<rparr>))
         else sk)"

text \<open>
  Pushes by the producer: the accepted events are added to the history.
\<close>

fun push_all ::
  "size_t \<Rightarrow> flow_event list \<Rightarrow> flow_event list \<times> flow_event event_queue \<Rightarrow>
   flow_event list \<times> flow_event event_queue" where
  "push_all n [] (acc, q) = (acc, q)"
| "push_all n (e # es) (acc, q) =
     (let (ok, q) = eq_push n e q in push_all n es (if ok then acc @ [e] else acc, q))"

text \<open>
  One iteration.  The events in \<open>ds\<close> are pushed while \<open>pop_wait\<close> waits, if it has to wait.
\<close>

definition sink_iteration ::
  "size_t \<Rightarrow> (flow_event \<Rightarrow> string + u8 list) \<Rightarrow> (flow_key \<Rightarrow> string) \<Rightarrow> rk_lib \<Rightarrow>
   flow_event list \<Rightarrow> flow_event list \<times> avro_kafka_sink \<Rightarrow> flow_event list \<times> avro_kafka_sink" where
  "sink_iteration n ser fid rk ds st =
     (let (acc, sk) = st;
          sk = drain_retry ser fid rk (sk_retry_buf sk) sk;
          acc' = (if fst (eq_pop n (sk_queue sk)) = None then fst (push_all n ds (acc, sk_queue sk)) else acc);
          (maybe_evt, q) = eq_pop_wait n (\<lambda>q. snd (push_all n ds (acc, q))) (sk_queue sk);
          sk = sk\<lparr>sk_queue := q\<rparr>;
          sk = (case maybe_evt of None \<Rightarrow> sk | Some evt \<Rightarrow> consume ser fid rk evt sk);
          sk = sk\<lparr>sk_producer := poll rk 0 (sk_producer sk)\<rparr>
      in (acc', sk))"

text \<open>
  The loop, with fuel for its iterations.  Before iteration \<open>i\<close> the events \<open>before i\<close> are pushed,
  during its wait the events \<open>during i\<close>; \<open>stop i\<close> says whether stop has been requested.
\<close>

fun sink_loop ::
  "size_t \<Rightarrow> (flow_event \<Rightarrow> string + u8 list) \<Rightarrow> (flow_key \<Rightarrow> string) \<Rightarrow> rk_lib \<Rightarrow>
   (nat \<Rightarrow> bool) \<Rightarrow> (nat \<Rightarrow> flow_event list) \<Rightarrow> (nat \<Rightarrow> flow_event list) \<Rightarrow> nat \<Rightarrow> nat \<Rightarrow>
   flow_event list \<times> avro_kafka_sink \<Rightarrow> (flow_event list \<times> avro_kafka_sink) option" where
  "sink_loop n ser fid rk stop before during 0 i st = None"
| "sink_loop n ser fid rk stop before during (Suc fuel) i st =
     (let (acc, sk) = st;
          (acc, q) = push_all n (before i) (acc, sk_queue sk);
          sk = sk\<lparr>sk_queue := q\<rparr>
      in if \<not> stop i \<or> \<not> eq_empty (sk_queue sk) then
           sink_loop n ser fid rk stop before during fuel (i + 1)
             (sink_iteration n ser fid rk (during i) (acc, sk))
         else Some (acc, sk))"

definition sink_thread_func ::
  "size_t \<Rightarrow> (flow_event \<Rightarrow> string + u8 list) \<Rightarrow> (flow_key \<Rightarrow> string) \<Rightarrow> rk_lib \<Rightarrow>
   (nat \<Rightarrow> bool) \<Rightarrow> (nat \<Rightarrow> flow_event list) \<Rightarrow> (nat \<Rightarrow> flow_event list) \<Rightarrow> nat \<Rightarrow>
   flow_event list \<times> avro_kafka_sink \<Rightarrow> (flow_event list \<times> avro_kafka_sink) option" where
  "sink_thread_func n ser fid rk stop before during fuel st =
     (case sink_loop n ser fid rk stop before during fuel 0 st of
        None \<Rightarrow> None
      | Some (acc, sk) \<Rightarrow> Some (acc, sk\<lparr>sk_producer := flush rk 9000 (sk_producer sk)\<rparr>))"

end
