(* ===== verification/Sink_Accounting.thy ===== *)
theory Sink_Accounting
  imports Avro_Kafka_Sink
begin

section \<open>What becomes of every event\<close>

text \<open>
  The ledger of the sink: each event taken from the queue has been produced, was not
  serializable, was dropped because the retry buffer was full, or is in the retry buffer.
  The ledger is kept by every step; the queue is used through its contract \<open>bounded_fifo\<close>.
\<close>

definition sent :: "rk_call list \<Rightarrow> (string \<times> u8 list) list" where
  "sent calls = List.map_filter (\<lambda>c. case c of
     Rk_Produce t key payload err \<Rightarrow> if err = 0 then Some (key, payload) else None
   | _ \<Rightarrow> None) calls"

definition message :: "(flow_event \<Rightarrow> string + u8 list) \<Rightarrow> (flow_key \<Rightarrow> string) \<Rightarrow> flow_event \<Rightarrow> string \<times> u8 list" where
  "message ser fid e = (fid (ev_key e), projr (ser e))"

lemma sent_simps [simp]:
  "sent [] = []" "sent (cs @ ds) = sent cs @ sent ds"
  "sent (Rk_Produce t k p err # cs) = (if err = 0 then [(k, p)] else []) @ sent cs"
  "sent (Rk_Poll i # cs) = sent cs" "sent (Rk_Flush i j # cs) = sent cs"
  by (simp_all add: sent_def map_filter_def)

lemma kp_on_metrics_simps [simp]:
  "kp_metrics (kp_on_metrics f kp) = f (kp_metrics kp)" "kp_calls (kp_on_metrics f kp) = kp_calls kp"
  by (simp_all add: kp_on_metrics_def)

text \<open>The counters only the sink's own steps change.\<close>

definition sink_counter :: "metric_id \<Rightarrow> bool" where
  "sink_counter x \<longleftrightarrow> x = KafkaMessagesProduced \<or> x = AvroSerializationErrors"

lemma dr_cb_frame [simp]:
  "kp_calls (dr_cb err kp) = kp_calls kp"
  "sink_counter x \<Longrightarrow> kp_metrics (dr_cb err kp) x = kp_metrics kp x"
  by (auto simp: dr_cb_def sink_counter_def kp_on_metrics_def Let_def)

lemma fold_dr_cb_frame [simp]:
  "kp_calls (fold dr_cb es kp) = kp_calls kp"
  "sink_counter x \<Longrightarrow> kp_metrics (fold dr_cb es kp) x = kp_metrics kp x"
  by (induction es arbitrary: kp) simp_all

lemma poll_frame:
  "sent (kp_calls (poll rk t kp)) = sent (kp_calls kp)"
  "sink_counter x \<Longrightarrow> kp_metrics (poll rk t kp) x = kp_metrics kp x"
  by (simp_all add: poll_def Let_def)

lemma flush_frame:
  "sent (kp_calls (flush rk t kp)) = sent (kp_calls kp)"
  "sink_counter x \<Longrightarrow> kp_metrics (flush rk t kp) x = kp_metrics kp x"
  by (simp_all add: flush_def Let_def)

lemma produce_effect:
  assumes "produce rk key payload kp = (ok, kp')"
  shows "sent (kp_calls kp') = sent (kp_calls kp) @ (if ok then [(key, payload)] else [])"
    "kp_metrics kp' KafkaMessagesProduced = kp_metrics kp KafkaMessagesProduced + (if ok then 1 else 0)"
    "kp_metrics kp' AvroSerializationErrors = kp_metrics kp AvroSerializationErrors"
  using assms by (auto simp: produce_def kp_on_metrics_def Let_def split: if_splits)

subsection \<open>The ledger\<close>

definition accounted ::
  "(flow_event \<Rightarrow> string + u8 list) \<Rightarrow> (flow_key \<Rightarrow> string) \<Rightarrow> metrics \<Rightarrow> flow_event list \<Rightarrow>
   flow_event list \<Rightarrow> flow_event list \<Rightarrow> flow_event list \<Rightarrow> avro_kafka_sink \<Rightarrow> bool" where
  "accounted ser fid m P S U D sk \<longleftrightarrow>
     mset P = mset S + mset U + mset D + mset (sk_retry_buf sk) \<and>
     sent (kp_calls (sk_producer sk)) = map (message ser fid) S \<and>
     (\<forall>e \<in> set S \<union> set D \<union> set (sk_retry_buf sk). \<not> isl (ser e)) \<and> (\<forall>e \<in> set U. isl (ser e)) \<and>
     kp_metrics (sk_producer sk) KafkaMessagesProduced = m KafkaMessagesProduced + int (length S) \<and>
     kp_metrics (sk_producer sk) AvroSerializationErrors = m AvroSerializationErrors + int (length U) \<and>
     count_list (sk_log sk) Retry_Buffer_Full = length D \<and>
     0 \<le> sk_sr_buffer_size sk \<and> sk_sr_buffer_size sk \<le> INT_MAX \<and>
     int (length (sk_retry_buf sk)) \<le> sk_sr_buffer_size sk"

lemma count_list_snoc [simp]: "count_list (xs @ [x]) y = count_list xs y + (if x = y then 1 else 0)"
  by (induction xs) auto

lemma retry_step_accounted:
  assumes "accounted ser fid m P S U D sk" and retry: "sk_retry_buf sk = e # es"
  shows "\<exists>S'. accounted ser fid m P S' U D (snd (retry_step ser fid rk e es sk))"
proof -
  from assms have "\<not> isl (ser e)" by (simp add: accounted_def)
  then obtain payload where payload: "ser e = Inr payload" by (cases "ser e") auto
  obtain ok kp where p: "produce rk (fid (ev_key e)) payload (sk_producer sk) = (ok, kp)" by fastforce
  have "accounted ser fid m P (S @ (if ok then [e] else [])) U D (snd (retry_step ser fid rk e es sk))"
    using assms produce_effect [OF p] payload p
    by (auto simp: accounted_def retry_step_def sk_metric_def message_def)
  then show ?thesis ..
qed

lemma retry_step_retry_buf:
  assumes "retry_step ser fid rk e es sk = (again, sk')"
  shows "sk_retry_buf sk' = (if again then es else sk_retry_buf sk)"
  using assms by (auto simp: retry_step_def sk_metric_def Let_def split: sum.splits prod.splits if_splits)

lemma drain_retry_accounted:
  assumes "accounted ser fid m P S U D sk" and "es = sk_retry_buf sk"
  shows "\<exists>S'. accounted ser fid m P S' U D (drain_retry ser fid rk es sk)"
  using assms
proof (induction es arbitrary: sk S)
  case (Cons e es)
  obtain again sk' where step: "retry_step ser fid rk e es sk = (again, sk')" by fastforce
  with Cons.prems obtain S' where "accounted ser fid m P S' U D sk'"
    using retry_step_accounted [of ser fid m P S U D sk e es rk] by auto
  with Cons.IH [of S' sk'] retry_step_retry_buf [OF step] show ?case
    by (auto simp: step)
qed auto

lemma consume_accounted:
  assumes "accounted ser fid m P S U D sk"
  shows "\<exists>S' U' D'. accounted ser fid m (P @ [e]) S' U' D' (consume ser fid rk e sk)"
proof (cases "ser e")
  case (Inl ex)
  then have "accounted ser fid m (P @ [e]) S (U @ [e]) D (consume ser fid rk e sk)"
    using assms by (auto simp: accounted_def consume_def attempt_produce_def sk_metric_def Let_def)
  then show ?thesis by blast
next
  case (Inr payload)
  obtain ok kp where p: "produce rk (fid (ev_key e)) payload (sk_producer sk) = (ok, kp)" by fastforce
  note eff = produce_effect [OF p]
  have size: "size_as_int (sk_retry_buf sk) = int (length (sk_retry_buf sk))"
    using assms by (intro size_as_int_eq) (simp add: accounted_def)
  consider "ok" | "\<not> ok" "int (length (sk_retry_buf sk)) < sk_sr_buffer_size sk"
    | "\<not> ok" "\<not> int (length (sk_retry_buf sk)) < sk_sr_buffer_size sk" by blast
  then show ?thesis
  proof cases
    case 1
    then have "accounted ser fid m (P @ [e]) (S @ [e]) U D (consume ser fid rk e sk)"
      using assms Inr p eff by (auto simp: accounted_def consume_def attempt_produce_def message_def)
    then show ?thesis by blast
  next
    case 2
    then have "accounted ser fid m (P @ [e]) S U D (consume ser fid rk e sk)"
      using assms Inr p eff size by (auto simp: accounted_def consume_def attempt_produce_def)
    then show ?thesis by blast
  next
    case 3
    then have "accounted ser fid m (P @ [e]) S U (D @ [e]) (consume ser fid rk e sk)"
      using assms Inr p eff size
      by (auto simp: accounted_def consume_def attempt_produce_def sk_metric_def Let_def)
    then show ?thesis by blast
  qed
qed

lemma accounted_queue: "accounted ser fid m P S U D (sk\<lparr>sk_queue := q\<rparr>) = accounted ser fid m P S U D sk"
  by (simp add: accounted_def)

lemma accounted_poll:
  "accounted ser fid m P S U D sk \<Longrightarrow>
    accounted ser fid m P S U D (sk\<lparr>sk_producer := poll rk t (sk_producer sk)\<rparr>)"
  by (simp add: accounted_def poll_frame sink_counter_def)

lemma accounted_flush:
  "accounted ser fid m P S U D sk \<Longrightarrow>
    accounted ser fid m P S U D (sk\<lparr>sk_producer := flush rk t (sk_producer sk)\<rparr>)"
  by (simp add: accounted_def flush_frame sink_counter_def)

subsection \<open>The queue between flow table and sink\<close>

definition ring_ok :: "size_t \<Rightarrow> flow_event event_queue \<Rightarrow> bool" where
  "ring_ok n q \<longleftrightarrow> valid_capacity n \<and> eq_valid n q"

lemma push_all_contents:
  assumes "ring_ok n q" and "push_all n es (acc, q) = (acc', q')"
  shows "ring_ok n q' \<and> (\<exists>X. acc' = acc @ X \<and> eq_contents n q' = eq_contents n q @ X)"
  using assms
proof (induction es arbitrary: acc q)
  case (Cons e es)
  have v: "valid_capacity n \<and> eq_valid n q" using Cons.prems(1) by (simp add: ring_ok_def)
  show ?case
  proof (rule ring.push_cases [OF v, of e])
    assume "eq_push n e q = (False, q)"
    then show ?thesis using Cons by simp
  next
    fix q1 assume push: "eq_push n e q = (True, q1)" and v1: "valid_capacity n \<and> eq_valid n q1"
      and c: "eq_contents n q1 = eq_contents n q @ [e]"
    have "ring_ok n q1" using v1 by (simp add: ring_ok_def)
    moreover have "push_all n es (acc @ [e], q1) = (acc', q')" using Cons.prems(2) push by simp
    ultimately have "ring_ok n q' \<and> (\<exists>X. acc' = (acc @ [e]) @ X \<and> eq_contents n q' = eq_contents n q1 @ X)"
      by (rule Cons.IH)
    then show ?thesis using c by auto
  qed
qed simp

text \<open>Taking an event, with the pushes of the wait.\<close>

lemma pop_wait_contents:
  assumes ok: "ring_ok n q"
    and acc': "acc' = (if fst (eq_pop n q) = None then fst (push_all n ds (acc, q)) else acc)"
    and pop: "eq_pop_wait n (\<lambda>q. snd (push_all n ds (acc, q))) q = (r, q')"
    and history: "acc = P @ eq_contents n q"
  shows "ring_ok n q' \<and> acc' = (P @ (case r of None \<Rightarrow> [] | Some e \<Rightarrow> [e])) @ eq_contents n q'"
proof -
  have v: "valid_capacity n \<and> eq_valid n q" using ok by (simp add: ring_ok_def)
  show ?thesis
  proof (rule ring.pop_cases [OF v])
    fix x xs q1 assume "eq_contents n q = x # xs" "eq_pop n q = (Some x, q1)"
      "valid_capacity n \<and> eq_valid n q1" "eq_contents n q1 = xs"
    then show ?thesis using pop acc' history by (auto simp: eq_pop_wait_def ring_ok_def)
  next
    assume nil: "eq_contents n q = []" and empty: "eq_pop n q = (None, q)"
    obtain acc1 q1 where push: "push_all n ds (acc, q) = (acc1, q1)" by fastforce
    from push_all_contents [OF ok push] nil obtain X where
      ok1: "ring_ok n q1" and X: "acc1 = acc @ X" "eq_contents n q1 = X" by auto
    have pop1: "eq_pop n q1 = (r, q')" using pop empty push by (simp add: eq_pop_wait_def)
    have acc1: "acc' = P @ X" using acc' empty push X history nil by simp
    have v1: "valid_capacity n \<and> eq_valid n q1" using ok1 by (simp add: ring_ok_def)
    show ?thesis
      by (rule ring.pop_cases [OF v1]) (use pop1 acc1 X ok1 in \<open>auto simp: ring_ok_def\<close>)
  qed
qed

subsection \<open>The loop keeps the ledger\<close>

definition sink_inv ::
  "size_t \<Rightarrow> (flow_event \<Rightarrow> string + u8 list) \<Rightarrow> (flow_key \<Rightarrow> string) \<Rightarrow> metrics \<Rightarrow>
   flow_event list \<times> avro_kafka_sink \<Rightarrow> bool" where
  "sink_inv n ser fid m st \<longleftrightarrow>
     ring_ok n (sk_queue (snd st)) \<and>
     (\<exists>P S U D. fst st = P @ eq_contents n (sk_queue (snd st)) \<and> accounted ser fid m P S U D (snd st))"

lemma retry_step_frames:
  "sk_queue (snd (retry_step ser fid rk e es sk)) = sk_queue sk"
  "sk_sr_buffer_size (snd (retry_step ser fid rk e es sk)) = sk_sr_buffer_size sk"
  by (auto simp: retry_step_def sk_metric_def Let_def split: sum.split prod.split)

lemma drain_retry_frames:
  "sk_queue (drain_retry ser fid rk es sk) = sk_queue sk"
  "sk_sr_buffer_size (drain_retry ser fid rk es sk) = sk_sr_buffer_size sk"
proof -
  have "sk_queue (drain_retry ser fid rk es sk) = sk_queue sk \<and>
      sk_sr_buffer_size (drain_retry ser fid rk es sk) = sk_sr_buffer_size sk"
  proof (induction es arbitrary: sk)
    case (Cons e es)
    then show ?case
      using retry_step_frames [of ser fid rk e es sk] by (auto split: prod.split)
  qed simp
  then show "sk_queue (drain_retry ser fid rk es sk) = sk_queue sk"
    "sk_sr_buffer_size (drain_retry ser fid rk es sk) = sk_sr_buffer_size sk" by simp_all
qed

lemma queue_frames [simp]:
  "sk_queue (drain_retry ser fid rk es sk) = sk_queue sk"
  "sk_queue (consume ser fid rk e sk) = sk_queue sk"
proof -
  show "sk_queue (drain_retry ser fid rk es sk) = sk_queue sk" by (rule drain_retry_frames)
  show "sk_queue (consume ser fid rk e sk) = sk_queue sk"
    by (auto simp: consume_def attempt_produce_def sk_metric_def Let_def split: sum.split prod.split)
qed

lemma sink_iteration_inv:
  assumes "sink_inv n ser fid m (acc, sk)"
  shows "sink_inv n ser fid m (sink_iteration n ser fid rk ds (acc, sk))"
proof -
  from assms obtain P S U D where ok: "ring_ok n (sk_queue sk)"
    and history: "acc = P @ eq_contents n (sk_queue sk)" and led: "accounted ser fid m P S U D sk"
    by (auto simp: sink_inv_def)
  from drain_retry_accounted [OF led refl] obtain S1 where
    led1: "accounted ser fid m P S1 U D (drain_retry ser fid rk (sk_retry_buf sk) sk)" by blast
  let ?sk1 = "drain_retry ser fid rk (sk_retry_buf sk) sk"
  obtain r q where pop: "eq_pop_wait n (\<lambda>q. snd (push_all n ds (acc, q))) (sk_queue sk) = (r, q)"
    by fastforce
  define acc' where "acc' = (if fst (eq_pop n (sk_queue sk)) = None
    then fst (push_all n ds (acc, sk_queue sk)) else acc)"
  from pop_wait_contents [OF ok acc'_def pop history]
  have ok': "ring_ok n q" and acc': "acc' = (P @ (case r of None \<Rightarrow> [] | Some e \<Rightarrow> [e])) @ eq_contents n q"
    by auto
  let ?sk2 = "case r of None \<Rightarrow> ?sk1\<lparr>sk_queue := q\<rparr> | Some e \<Rightarrow> consume ser fid rk e (?sk1\<lparr>sk_queue := q\<rparr>)"
  have "\<exists>S U D. accounted ser fid m (P @ (case r of None \<Rightarrow> [] | Some e \<Rightarrow> [e])) S U D ?sk2"
  proof (cases r)
    case None
    have "accounted ser fid m P S1 U D (?sk1\<lparr>sk_queue := q\<rparr>)" using led1 by (simp add: accounted_queue)
    with None show ?thesis by auto
  next
    case (Some e)
    have "accounted ser fid m P S1 U D (?sk1\<lparr>sk_queue := q\<rparr>)" using led1 by (simp add: accounted_queue)
    from consume_accounted [OF this] Some show ?thesis by simp
  qed
  then have "\<exists>S U D. accounted ser fid m (P @ (case r of None \<Rightarrow> [] | Some e \<Rightarrow> [e])) S U D
      (?sk2\<lparr>sk_producer := poll rk 0 (sk_producer ?sk2)\<rparr>)"
    using accounted_poll by blast
  moreover have "sink_iteration n ser fid rk ds (acc, sk) =
      (acc', ?sk2\<lparr>sk_producer := poll rk 0 (sk_producer ?sk2)\<rparr>)"
    by (simp add: sink_iteration_def pop acc'_def Let_def)
  moreover have "sk_queue ?sk2 = q" by (simp split: option.split)
  ultimately show ?thesis using ok' acc' by (simp add: sink_inv_def)
qed

lemma sink_loop_inv:
  assumes "sink_inv n ser fid m st" and "sink_loop n ser fid rk stop before during fuel i st = Some st'"
  shows "sink_inv n ser fid m st' \<and> eq_empty (sk_queue (snd st'))"
  using assms
proof (induction fuel arbitrary: i st)
  case (Suc fuel)
  obtain acc sk where st: "st = (acc, sk)" by fastforce
  obtain acc1 q where push: "push_all n (before i) (acc, sk_queue sk) = (acc1, q)" by fastforce
  from Suc.prems(1) obtain P S U D where ok: "ring_ok n (sk_queue sk)"
    and "acc = P @ eq_contents n (sk_queue sk)" and "accounted ser fid m P S U D sk"
    by (auto simp: sink_inv_def st)
  with push_all_contents [OF ok push] have inv: "sink_inv n ser fid m (acc1, sk\<lparr>sk_queue := q\<rparr>)"
    by (auto simp: sink_inv_def accounted_queue) blast
  show ?case
  proof (cases "\<not> stop i \<or> \<not> eq_empty q")
    case True
    with Suc.prems(2) st push have
      "sink_loop n ser fid rk stop before during fuel (i + 1)
        (sink_iteration n ser fid rk (during i) (acc1, sk\<lparr>sk_queue := q\<rparr>)) = Some st'"
      by (simp add: Let_def)
    with sink_iteration_inv [OF inv] show ?thesis by (rule Suc.IH)
  next
    case False
    with Suc.prems(2) st push have "st' = (acc1, sk\<lparr>sk_queue := q\<rparr>)" by (auto simp: Let_def)
    with inv False show ?thesis by simp
  qed
qed simp

subsection \<open>Stopping\<close>

lemma pop_shrinks:
  assumes "ring_ok n q" and "eq_contents n q \<noteq> []" and "eq_pop_wait n d q = (r, q')"
  shows "ring_ok n q' \<and> length (eq_contents n q) = Suc (length (eq_contents n q'))"
proof -
  have v: "valid_capacity n \<and> eq_valid n q" using assms(1) by (simp add: ring_ok_def)
  show ?thesis
    by (rule ring.pop_cases [OF v]) (use assms in \<open>auto simp: eq_pop_wait_def ring_ok_def\<close>)
qed

lemma queue_iteration:
  "sk_queue (snd (sink_iteration n ser fid rk ds (acc, sk))) =
    snd (eq_pop_wait n (\<lambda>q. snd (push_all n ds (acc, q))) (sk_queue sk))"
  by (simp add: sink_iteration_def Let_def split: prod.split option.split)

lemma sink_loop_ends:
  assumes "ring_ok n (sk_queue (snd st))" and "length (eq_contents n (sk_queue (snd st))) \<le> fuel"
    and "\<And>j. i \<le> j \<Longrightarrow> stop j \<and> before j = []"
  shows "sink_loop n ser fid rk stop before during (Suc fuel) i st \<noteq> None"
  using assms
proof (induction fuel arbitrary: i st)
  case 0
  obtain acc sk where st: "st = (acc, sk)" by fastforce
  have "eq_empty (sk_queue sk)"
    using 0 eq_empty_iff [of n "sk_queue sk"] by (simp add: st ring_ok_def flip: length_0_conv)
  then show ?case using "0.prems"(3) [of i] by (simp add: st Let_def)
next
  case (Suc fuel)
  obtain acc sk where st: "st = (acc, sk)" by fastforce
  let ?st = "sink_iteration n ser fid rk (during i) (acc, sk)"
  have env: "stop i" "before i = []" using Suc.prems(3) [of i] by auto
  have sk: "sk\<lparr>sk_queue := sk_queue sk\<rparr> = sk" by simp
  show ?case
  proof (cases "eq_empty (sk_queue sk)")
    case True
    then show ?thesis using env by (simp add: st Let_def)
  next
    case False
    then have "eq_contents n (sk_queue sk) \<noteq> []"
      using Suc.prems(1) eq_empty_iff [of n "sk_queue sk"] by (simp add: st ring_ok_def)
    moreover obtain r q where
      pop: "eq_pop_wait n (\<lambda>q. snd (push_all n (during i) (acc, q))) (sk_queue sk) = (r, q)" by fastforce
    ultimately have "ring_ok n (sk_queue (snd ?st)) \<and>
        length (eq_contents n (sk_queue sk)) = Suc (length (eq_contents n (sk_queue (snd ?st))))"
      using pop_shrinks [OF _ _ pop] Suc.prems(1) by (simp add: queue_iteration st del: length_contents)
    then have "sink_loop n ser fid rk stop before during (Suc fuel) (i + 1) ?st \<noteq> None"
      using Suc.prems by (intro Suc.IH) (auto simp: st simp del: length_contents)
    with env False show ?thesis
      by (subst sink_loop.simps(2)) (simp add: st sk Let_def del: sink_loop.simps)
  qed
qed

lemma sink_loop_returns:
  assumes "sink_inv n ser fid m st" and "\<And>j. k \<le> j \<Longrightarrow> stop j \<and> before j = []"
  shows "i \<le> k \<Longrightarrow> sink_loop n ser fid rk stop before during (k - i + unat n) i st \<noteq> None"
  using assms(1)
proof (induction "k - i" arbitrary: i st)
  case 0
  have ok: "ring_ok n (sk_queue (snd st))" using 0 by (simp add: sink_inv_def)
  then have v: "valid_capacity n" "eq_valid n (sk_queue (snd st))" by (simp_all add: ring_ok_def)
  obtain f where f: "unat n = Suc f" using valid_capacityD(1) [OF v(1)] by (cases "unat n") auto
  have "length (eq_contents n (sk_queue (snd st))) \<le> f"
    using eq_validD(4) [OF v(2)] f by simp
  then show ?case
    using sink_loop_ends [OF ok, of f i stop before] assms(2) 0 by (simp add: f del: sink_loop.simps)
next
  case (Suc d)
  obtain acc sk where st: "st = (acc, sk)" by fastforce
  obtain acc1 q where push: "push_all n (before i) (acc, sk_queue sk) = (acc1, q)" by fastforce
  from Suc.prems(2) obtain P S U D where ok: "ring_ok n (sk_queue sk)"
    and "acc = P @ eq_contents n (sk_queue sk)" and "accounted ser fid m P S U D sk"
    by (auto simp: sink_inv_def st)
  with push_all_contents [OF ok push] have inv: "sink_inv n ser fid m (acc1, sk\<lparr>sk_queue := q\<rparr>)"
    by (auto simp: sink_inv_def accounted_queue) blast
  let ?st = "sink_iteration n ser fid rk (during i) (acc1, sk\<lparr>sk_queue := q\<rparr>)"
  have "sink_loop n ser fid rk stop before during (k - (i + 1) + unat n) (i + 1) ?st \<noteq> None"
    using Suc.hyps(2) by (intro Suc.hyps(1) sink_iteration_inv inv) auto
  moreover have "k - i + unat n = Suc (k - (i + 1) + unat n)" using Suc.hyps(2) by simp
  ultimately show ?case by (simp add: st push Let_def)
qed

subsection \<open>Without refusals\<close>

text \<open>When librdkafka takes every message, the messages follow the order of the queue.\<close>

definition in_order ::
  "(flow_event \<Rightarrow> string + u8 list) \<Rightarrow> (flow_key \<Rightarrow> string) \<Rightarrow> flow_event list \<Rightarrow> avro_kafka_sink \<Rightarrow> bool" where
  "in_order ser fid P sk \<longleftrightarrow> sk_retry_buf sk = [] \<and>
     sent (kp_calls (sk_producer sk)) = map (message ser fid) (filter (\<lambda>e. \<not> isl (ser e)) P)"

definition never_refuses :: "rk_lib \<Rightarrow> bool" where
  "never_refuses rk \<longleftrightarrow> (\<forall>calls topic key payload. rk_produce rk calls topic key payload = 0)"

lemma produce_accepted:
  "never_refuses rk \<Longrightarrow> produce rk key payload kp = (ok, kp') \<Longrightarrow> ok"
  by (auto simp: produce_def never_refuses_def Let_def)

lemma consume_in_order:
  assumes "never_refuses rk" and "in_order ser fid P sk"
  shows "in_order ser fid (P @ [e]) (consume ser fid rk e sk)"
proof (cases "ser e")
  case (Inl ex)
  then show ?thesis
    using assms(2) by (simp add: in_order_def consume_def attempt_produce_def sk_metric_def Let_def)
next
  case (Inr payload)
  obtain ok kp where p: "produce rk (fid (ev_key e)) payload (sk_producer sk) = (ok, kp)" by fastforce
  with produce_accepted [OF assms(1) p] produce_effect(1) [OF p] Inr assms(2) show ?thesis
    by (simp add: in_order_def consume_def attempt_produce_def message_def)
qed

lemma iteration_in_order:
  assumes "never_refuses rk" and "ring_ok n (sk_queue sk)" and "acc = P @ eq_contents n (sk_queue sk)"
    and "in_order ser fid P sk" and "sink_iteration n ser fid rk ds (acc, sk) = (acc', sk')"
  shows "\<exists>P'. ring_ok n (sk_queue sk') \<and> acc' = P' @ eq_contents n (sk_queue sk') \<and> in_order ser fid P' sk'"
proof -
  obtain r q where pop: "eq_pop_wait n (\<lambda>q. snd (push_all n ds (acc, q))) (sk_queue sk) = (r, q)"
    by fastforce
  have drain: "drain_retry ser fid rk (sk_retry_buf sk) sk = sk"
    using assms(4) by (simp add: in_order_def)
  define acc1 where "acc1 = (if fst (eq_pop n (sk_queue sk)) = None
    then fst (push_all n ds (acc, sk_queue sk)) else acc)"
  let ?P = "P @ (case r of None \<Rightarrow> [] | Some e \<Rightarrow> [e])"
  let ?sk = "case r of None \<Rightarrow> sk\<lparr>sk_queue := q\<rparr> | Some e \<Rightarrow> consume ser fid rk e (sk\<lparr>sk_queue := q\<rparr>)"
  from pop_wait_contents [OF assms(2) acc1_def pop assms(3)]
  have q: "ring_ok n q" "acc1 = ?P @ eq_contents n q" by auto
  have "in_order ser fid P (sk\<lparr>sk_queue := q\<rparr>)" using assms(4) by (simp add: in_order_def)
  then have "in_order ser fid ?P ?sk"
    using consume_in_order [OF assms(1)] by (auto split: option.split)
  then have "in_order ser fid ?P (?sk\<lparr>sk_producer := poll rk 0 (sk_producer ?sk)\<rparr>)"
    by (simp add: in_order_def poll_frame)
  moreover have "acc' = acc1 \<and> sk' = ?sk\<lparr>sk_producer := poll rk 0 (sk_producer ?sk)\<rparr>"
    using assms(5) pop by (cases r) (auto simp: sink_iteration_def drain acc1_def Let_def)
  moreover have "sk_queue ?sk = q" by (simp split: option.split)
  ultimately show ?thesis using q by auto
qed

lemma loop_in_order:
  assumes "never_refuses rk" and "ring_ok n (sk_queue sk)" and "acc = P @ eq_contents n (sk_queue sk)"
    and "in_order ser fid P sk" and "sink_loop n ser fid rk stop before during fuel i (acc, sk) = Some (acc', sk')"
  shows "\<exists>P'. ring_ok n (sk_queue sk') \<and> acc' = P' @ eq_contents n (sk_queue sk') \<and> in_order ser fid P' sk'"
  using assms
proof (induction fuel arbitrary: i acc sk P)
  case (Suc fuel)
  obtain acc1 q where push: "push_all n (before i) (acc, sk_queue sk) = (acc1, q)" by fastforce
  let ?sk = "sk\<lparr>sk_queue := q\<rparr>"
  from push_all_contents [OF Suc.prems(2) push] Suc.prems(3)
  have q: "ring_ok n q" "acc1 = P @ eq_contents n q" by auto
  have order: "in_order ser fid P ?sk" using Suc.prems(4) by (simp add: in_order_def)
  show ?case
  proof (cases "\<not> stop i \<or> \<not> eq_empty q")
    case True
    obtain acc2 sk2 where it: "sink_iteration n ser fid rk (during i) (acc1, ?sk) = (acc2, sk2)" by fastforce
    from iteration_in_order [OF Suc.prems(1) _ _ order it] q obtain P2 where
      "ring_ok n (sk_queue sk2)" "acc2 = P2 @ eq_contents n (sk_queue sk2)" "in_order ser fid P2 sk2"
      by auto
    moreover have "sink_loop n ser fid rk stop before during fuel (i + 1) (acc2, sk2) = Some (acc', sk')"
      using Suc.prems(5) push True it by (simp add: Let_def)
    ultimately show ?thesis using Suc.IH [OF Suc.prems(1)] by blast
  next
    case False
    then have "acc' = acc1" "sk' = ?sk" using Suc.prems(5) push by (auto simp: Let_def)
    with q order show ?thesis by auto
  qed
qed simp

lemma loop_ends_empty:
  "sink_loop n ser fid rk stop before during fuel i st = Some st' \<Longrightarrow> eq_empty (sk_queue (snd st'))"
  by (induction fuel arbitrary: i st) (auto simp: Let_def split: if_splits prod.splits)

subsection \<open>Properties\<close>

text \<open>A sink in front of a new queue.\<close>

definition new_sink :: "size_t \<Rightarrow> kafka_producer \<Rightarrow> app_config \<Rightarrow> avro_kafka_sink" where
  "new_sink n kp cfg = AvroKafkaSink kp (eq_new n default_flow_event) cfg"

lemma sink_inv_new:
  assumes "valid_capacity n" and "valid_config cfg" and "kp_calls kp = []" and "kp_metrics kp = m"
  shows "sink_inv n ser fid m ([], new_sink n kp cfg)"
proof -
  have "accounted ser fid m [] [] [] [] (new_sink n kp cfg)"
    using assms by (simp add: accounted_def new_sink_def AvroKafkaSink_def valid_config_def)
  moreover have "ring_ok n (sk_queue (new_sink n kp cfg))" "eq_contents n (sk_queue (new_sink n kp cfg)) = []"
    using assms(1) by (simp_all add: new_sink_def AvroKafkaSink_def ring_ok_def eq_valid_new eq_contents_new)
  ultimately show ?thesis by (auto simp: sink_inv_def)
qed

lemma sink_thread_inv:
  assumes "sink_inv n ser fid m st"
    and "sink_thread_func n ser fid rk stop before during fuel st = Some (acc, sk)"
  shows "eq_empty (sk_queue sk) \<and> ring_ok n (sk_queue sk) \<and> (\<exists>S U D. accounted ser fid m acc S U D sk)"
proof -
  from assms(2) obtain sk1 where loop: "sink_loop n ser fid rk stop before during fuel 0 st = Some (acc, sk1)"
    and sk: "sk = sk1\<lparr>sk_producer := flush rk 9000 (sk_producer sk1)\<rparr>"
    by (auto simp: sink_thread_func_def split: option.splits)
  from sink_loop_inv [OF assms(1) loop] obtain P S U D where
    ok: "ring_ok n (sk_queue sk1)" "eq_empty (sk_queue sk1)" and
    acc: "acc = P @ eq_contents n (sk_queue sk1)" and led: "accounted ser fid m P S U D sk1"
    by (auto simp: sink_inv_def)
  have "eq_contents n (sk_queue sk1) = []"
    using ok eq_empty_iff [of n "sk_queue sk1"] by (simp add: ring_ok_def)
  with acc led have "accounted ser fid m acc S U D sk1" by simp
  from accounted_flush [OF this] have "accounted ser fid m acc S U D sk" unfolding sk .
  with ok show ?thesis by (auto simp: sk)
qed

lemma buffer_size_frames:
  "sk_sr_buffer_size (drain_retry ser fid rk es sk) = sk_sr_buffer_size sk"
  "sk_sr_buffer_size (consume ser fid rk e sk) = sk_sr_buffer_size sk"
  "sk_sr_buffer_size (snd (sink_iteration n ser fid rk ds (acc, sk))) = sk_sr_buffer_size sk"
proof -
  show drain: "sk_sr_buffer_size (drain_retry ser fid rk es sk) = sk_sr_buffer_size sk" for es
    by (rule drain_retry_frames)
  show consume: "sk_sr_buffer_size (consume ser fid rk e sk) = sk_sr_buffer_size sk" for e sk
    by (auto simp: consume_def attempt_produce_def sk_metric_def Let_def split: sum.split prod.split)
  show "sk_sr_buffer_size (snd (sink_iteration n ser fid rk ds (acc, sk))) = sk_sr_buffer_size sk"
    by (simp add: sink_iteration_def drain consume Let_def split: prod.split option.split)
qed

lemma buffer_size_loop:
  "sink_loop n ser fid rk stop before during fuel i st = Some st' \<Longrightarrow>
    sk_sr_buffer_size (snd st') = sk_sr_buffer_size (snd st)"
proof (induction fuel arbitrary: i st)
  case (Suc fuel)
  obtain acc sk where st: "st = (acc, sk)" by fastforce
  obtain acc1 q where push: "push_all n (before i) (acc, sk_queue sk) = (acc1, q)" by fastforce
  let ?st = "sink_iteration n ser fid rk (during i) (acc1, sk\<lparr>sk_queue := q\<rparr>)"
  have "sk_sr_buffer_size (snd ?st) = sk_sr_buffer_size sk" by (simp add: buffer_size_frames)
  with Suc show ?case by (auto simp: st push Let_def split: if_splits)
qed simp

lemma buffer_size_thread:
  "sink_thread_func n ser fid rk stop before during fuel st = Some (acc, sk) \<Longrightarrow>
    sk_sr_buffer_size sk = sk_sr_buffer_size (snd st)"
  by (auto simp: sink_thread_func_def split: option.splits dest: buffer_size_loop)

text \<open>
  When the sink thread ends, every event the queue ever accepted has exactly one fate:
  it was produced (once, with its key and payload, and counted), could not be serialized (and was
  counted), was dropped because the retry buffer was full (and logged), or is still in the
  retry buffer, which never exceeds \<open>--sr-buffer\<close>; the queue is empty.
\<close>

theorem sink_accounts_for_events:
  assumes "valid_capacity n" and "valid_config cfg" and "kp_calls kp = []"
    and "sink_thread_func n ser fid rk stop before during fuel ([], new_sink n kp cfg) = Some (accepted, sk)"
  shows "eq_empty (sk_queue sk) \<and> int (length (sk_retry_buf sk)) \<le> cfg_sr_buffer_size cfg \<and>
    (\<exists>S U D. mset accepted = mset S + mset U + mset D + mset (sk_retry_buf sk) \<and>
      sent (kp_calls (sk_producer sk)) = map (message ser fid) S \<and>
      (\<forall>e \<in> set U. isl (ser e)) \<and> (\<forall>e \<in> set S \<union> set D \<union> set (sk_retry_buf sk). \<not> isl (ser e)) \<and>
      kp_metrics (sk_producer sk) KafkaMessagesProduced = kp_metrics kp KafkaMessagesProduced + int (length S) \<and>
      kp_metrics (sk_producer sk) AvroSerializationErrors =
        kp_metrics kp AvroSerializationErrors + int (length U) \<and>
      count_list (sk_log sk) Retry_Buffer_Full = length D)"
proof -
  from sink_thread_inv [OF sink_inv_new [OF assms(1-3) refl] assms(4)] obtain S U D where
    empty: "eq_empty (sk_queue sk)" and led: "accounted ser fid (kp_metrics kp) accepted S U D sk" by blast
  have "sk_sr_buffer_size sk = cfg_sr_buffer_size cfg"
    using buffer_size_thread [OF assms(4)] by (simp add: new_sink_def AvroKafkaSink_def)
  with empty led show ?thesis unfolding accounted_def by (simp add: exI [of _ S] exI [of _ U]) blast
qed

definition fails_first :: rk_lib where
  "fails_first =
     \<lparr>rk_produce = (\<lambda>calls _ _ _. if calls = [] then - 184 else 0), rk_flush = (\<lambda>_. 0),
      rk_reports = (\<lambda>_. []), rk_outq_len = (\<lambda>_. 0)\<rparr>"

definition idle_producer :: kafka_producer where
  "idle_producer = \<lparr>kp_conf = [], kp_topic_name = ''t'', kp_metrics = metrics_zero, kp_calls = [], kp_log = []\<rparr>"

text \<open>
  The sink thread ends: if stop is requested by iteration \<open>k\<close> and nothing is pushed
  afterwards, the loop leaves within \<open>k + N\<close> iterations, where \<open>N\<close> is the size of the ring, whatever
  librdkafka answers.
\<close>

theorem sink_thread_ends:
  assumes "valid_capacity n" and "valid_config cfg" and "kp_calls kp = []"
    and "\<And>j. k \<le> j \<Longrightarrow> stop j \<and> before j = []"
  shows "\<exists>accepted sk. sink_thread_func n ser fid rk stop before during (k + unat n) ([], new_sink n kp cfg) =
    Some (accepted, sk)"
  using sink_loop_returns [where stop = stop and before = before and k = k and i = 0 and ser = ser
      and fid = fid and rk = rk and during = during, OF sink_inv_new [OF assms(1-3) refl] assms(4)]
  by (auto simp: sink_thread_func_def)

theorem sink_thread_ends_witness:
  "\<exists>accepted sk. sink_thread_func 4 (\<lambda>e. Inr []) (\<lambda>k. []) fails_first (\<lambda>i. 1 \<le> i)
      (\<lambda>i. if i = 0 then [default_flow_event] else []) (\<lambda>i. [])
      (1 + unat (4 :: size_t)) ([], new_sink 4 idle_producer default_config) = Some (accepted, sk)"
  by (rule sink_thread_ends)
    (simp_all add: valid_capacity_def valid_default idle_producer_def)

theorem sink_accounts_for_events_witness:
  "\<exists>accepted sk. sink_thread_func 4 (\<lambda>e. Inr [1]) (\<lambda>k. ''k'') fails_first (\<lambda>i. 1 \<le> i)
      (\<lambda>i. if i = 0 then [default_flow_event] else []) (\<lambda>i. [])
      2 ([], new_sink 4 idle_producer default_config) = Some (accepted, sk) \<and>
    accepted = [default_flow_event] \<and> sk_retry_buf sk = [default_flow_event] \<and>
    eq_empty (sk_queue sk) \<and> int (length (sk_retry_buf sk)) \<le> 1000"
proof -
  let ?run = "sink_thread_func 4 (\<lambda>e. Inr [1]) (\<lambda>k. ''k'') fails_first (\<lambda>i. 1 \<le> i)
      (\<lambda>i. if i = 0 then [default_flow_event] else []) (\<lambda>i. [])
      2 ([], new_sink 4 idle_producer default_config)"
  have "\<exists>sk. ?run = Some ([default_flow_event], sk) \<and> sk_retry_buf sk = [default_flow_event]"
    by (simp add: sink_thread_func_def numeral_2_eq_2 new_sink_def AvroKafkaSink_def eq_new_4 eq_push_def
        sink_iteration_def eq_pop_def eq_pop_wait_def eq_empty_def consume_def attempt_produce_def
        produce_def fails_first_def idle_producer_def Let_def poll_def kp_on_metrics_def size_as_int_def
        default_config_def)
  then obtain sk where run: "?run = Some ([default_flow_event], sk)"
    and retry: "sk_retry_buf sk = [default_flow_event]" by blast
  have cfg: "cfg_sr_buffer_size default_config = 1000" by (simp add: default_config_def)
  from sink_accounts_for_events [OF _ valid_default _ run] run retry cfg show ?thesis
    by (auto simp: valid_capacity_def idle_producer_def)
qed

text \<open>
  If librdkafka accepts every message, the messages produced when the thread ends are those of
  the accepted events that can be serialized, in the order in which the queue accepted
  them, and none is held back.
\<close>

theorem sink_keeps_order:
  assumes "valid_capacity n" and "kp_calls kp = []" and "never_refuses rk"
    and "sink_thread_func n ser fid rk stop before during fuel ([], new_sink n kp cfg) = Some (accepted, sk)"
  shows "sent (kp_calls (sk_producer sk)) = map (message ser fid) (filter (\<lambda>e. \<not> isl (ser e)) accepted) \<and>
    sk_retry_buf sk = []"
proof -
  have q: "ring_ok n (sk_queue (new_sink n kp cfg))" "eq_contents n (sk_queue (new_sink n kp cfg)) = []"
    using assms(1) by (simp_all add: new_sink_def AvroKafkaSink_def ring_ok_def eq_valid_new eq_contents_new)
  from assms(4) obtain sk1 where
    loop: "sink_loop n ser fid rk stop before during fuel 0 ([], new_sink n kp cfg) = Some (accepted, sk1)"
    and sk: "sk = sk1\<lparr>sk_producer := flush rk 9000 (sk_producer sk1)\<rparr>"
    by (auto simp: sink_thread_func_def split: option.splits)
  have "in_order ser fid [] (new_sink n kp cfg)"
    using assms(2) by (simp add: in_order_def new_sink_def AvroKafkaSink_def)
  from loop_in_order [OF assms(3) q(1) _ this loop] q(2) obtain P where
    ok: "ring_ok n (sk_queue sk1)" "accepted = P @ eq_contents n (sk_queue sk1)" and
    order: "in_order ser fid P sk1" by auto
  have "eq_empty (sk_queue sk1)" using loop_ends_empty [OF loop] by simp
  then have "accepted = P" using ok eq_empty_iff [of n "sk_queue sk1"] by (simp add: ring_ok_def)
  with order sk show ?thesis by (simp add: in_order_def flush_frame)
qed

theorem sink_keeps_order_witness:
  "\<exists>accepted sk. sink_thread_func 4 (\<lambda>e. Inr [1]) (\<lambda>k. ''k'')
      (fails_first\<lparr>rk_produce := \<lambda>_ _ _ _. 0\<rparr>) (\<lambda>i. 1 \<le> i)
      (\<lambda>i. if i = 0 then [default_flow_event] else []) (\<lambda>i. [])
      2 ([], new_sink 4 idle_producer default_config) = Some (accepted, sk) \<and>
    sent (kp_calls (sk_producer sk)) = [(''k'', [1])]"
proof -
  let ?rk = "fails_first\<lparr>rk_produce := \<lambda>_ _ _ _. 0\<rparr>"
  let ?run = "sink_thread_func 4 (\<lambda>e. Inr [1]) (\<lambda>k. ''k'') ?rk (\<lambda>i. 1 \<le> i)
      (\<lambda>i. if i = 0 then [default_flow_event] else []) (\<lambda>i. [])
      2 ([], new_sink 4 idle_producer default_config)"
  have "\<exists>sk. ?run = Some ([default_flow_event], sk)"
    by (simp add: sink_thread_func_def numeral_2_eq_2 new_sink_def AvroKafkaSink_def eq_new_4 eq_push_def
        sink_iteration_def eq_pop_def eq_pop_wait_def eq_empty_def consume_def attempt_produce_def
        produce_def fails_first_def idle_producer_def Let_def poll_def kp_on_metrics_def)
  then obtain sk where run: "?run = Some ([default_flow_event], sk)" by blast
  have "kp_calls idle_producer = []" "never_refuses ?rk" "valid_capacity 4"
    by (simp_all add: idle_producer_def never_refuses_def valid_capacity_def)
  from sink_keeps_order [OF this(3,1,2) run] run show ?thesis by (simp add: message_def)
qed

end
