(* ===== verification/Sink_Steps.thy ===== *)
theory Sink_Steps
  imports Sink_Accounting "HOL-Library.While_Combinator"
begin

section \<open>The sink thread step by step\<close>

text \<open>
  The sink thread as a machine with a program counter: each access to the shared queue, each attempt to
  produce and each call of librdkafka is a step of its own, so that pushes of the flow table, and a
  flush by the main thread, may come between any two.  The machine, left to itself, computes what
  \<open>sink_thread_func\<close> computes; and what its steps keep is stated for every program counter.
\<close>

text \<open>
  \<open>At_Loop\<close>: the test of the outer loop.  \<open>At_Retry\<close>: the test and body of the inner loop.  \<open>At_Pop\<close>, \<open>At_Wait\<close>:
  the first attempt of \<open>pop_wait\<close>, and the second one, after its wait.  \<open>At_Got\<close>: an event has been taken.
\<close>

datatype sink_pc =
  At_Loop | At_Retry | At_Pop | At_Wait | At_Got flow_event | At_Poll | At_Flush | Thread_Ended

type_synonym sink_thread = "sink_pc \<times> avro_kafka_sink"

definition pop_step :: "size_t \<Rightarrow> sink_pc \<Rightarrow> avro_kafka_sink \<Rightarrow> sink_thread" where
  "pop_step n on_empty sk =
     (let (r, q) = eq_pop n (sk_queue sk); sk = sk\<lparr>sk_queue := q\<rparr>
      in case r of None \<Rightarrow> (on_empty, sk) | Some evt \<Rightarrow> (At_Got evt, sk))"

text \<open>One step; \<open>stop\<close> is the answer of \<open>stop_requested\<close>, which only \<open>At_Loop\<close> asks for.\<close>

fun sink_micro ::
  "size_t \<Rightarrow> (flow_event \<Rightarrow> string + u8 list) \<Rightarrow> (flow_key \<Rightarrow> string) \<Rightarrow> rk_lib \<Rightarrow> bool \<Rightarrow>
   sink_thread \<Rightarrow> sink_thread" where
  "sink_micro n ser fid rk stop (At_Loop, sk) =
     (if \<not> stop \<or> \<not> eq_empty (sk_queue sk) then (At_Retry, sk) else (At_Flush, sk))"
| "sink_micro n ser fid rk stop (At_Retry, sk) =
     (case sk_retry_buf sk of
        [] \<Rightarrow> (At_Pop, sk)
      | evt # rest \<Rightarrow>
          (let (again, sk) = retry_step ser fid rk evt rest sk
           in (if again then At_Retry else At_Pop, sk)))"
| "sink_micro n ser fid rk stop (At_Pop, sk) = pop_step n At_Wait sk"
| "sink_micro n ser fid rk stop (At_Wait, sk) = pop_step n At_Poll sk"
| "sink_micro n ser fid rk stop (At_Got evt, sk) = (At_Poll, consume ser fid rk evt sk)"
| "sink_micro n ser fid rk stop (At_Poll, sk) = (At_Loop, sk\<lparr>sk_producer := poll rk 0 (sk_producer sk)\<rparr>)"
| "sink_micro n ser fid rk stop (At_Flush, sk) = (Thread_Ended, sink_flush rk 9000 sk)"
| "sink_micro n ser fid rk stop (Thread_Ended, sk) = (Thread_Ended, sk)"

definition sink_steps ::
  "size_t \<Rightarrow> (flow_event \<Rightarrow> string + u8 list) \<Rightarrow> (flow_key \<Rightarrow> string) \<Rightarrow> rk_lib \<Rightarrow> bool \<Rightarrow> nat \<Rightarrow>
   sink_thread \<Rightarrow> sink_thread" where
  "sink_steps n ser fid rk stop k t = (sink_micro n ser fid rk stop ^^ k) t"

text \<open>The destructor: stop has been requested, and the thread is joined.\<close>

definition sink_join ::
  "size_t \<Rightarrow> (flow_event \<Rightarrow> string + u8 list) \<Rightarrow> (flow_key \<Rightarrow> string) \<Rightarrow> rk_lib \<Rightarrow>
   sink_thread \<Rightarrow> sink_thread option" where
  "sink_join n ser fid rk = while_option (\<lambda>t. fst t \<noteq> Thread_Ended) (sink_micro n ser fid rk True)"

subsection \<open>Runs of steps\<close>

lemma sink_steps_simps:
  "sink_steps n ser fid rk stop 0 t = t"
  "sink_steps n ser fid rk stop (Suc k) t = sink_steps n ser fid rk stop k (sink_micro n ser fid rk stop t)"
  "sink_steps n ser fid rk stop (j + k) t = sink_steps n ser fid rk stop k (sink_steps n ser fid rk stop j t)"
  by (simp_all add: sink_steps_def funpow_swap1 add.commute [of j k] funpow_add)

text \<open>\<open>reaches t t'\<close>: some number of steps leads from \<open>t\<close> to \<open>t'\<close>.\<close>

definition reaches ::
  "size_t \<Rightarrow> (flow_event \<Rightarrow> string + u8 list) \<Rightarrow> (flow_key \<Rightarrow> string) \<Rightarrow> rk_lib \<Rightarrow> bool \<Rightarrow>
   sink_thread \<Rightarrow> sink_thread \<Rightarrow> bool" where
  "reaches n ser fid rk stop t t' \<longleftrightarrow> (\<exists>k. sink_steps n ser fid rk stop k t = t')"

lemma reaches_refl: "reaches n ser fid rk stop t t"
  unfolding reaches_def by (rule exI [of _ 0]) (simp add: sink_steps_simps)

lemma reaches_step:
  "reaches n ser fid rk stop (sink_micro n ser fid rk stop t) t' \<Longrightarrow> reaches n ser fid rk stop t t'"
  unfolding reaches_def by (auto simp: sink_steps_simps intro: exI [of _ "Suc k" for k])

lemma reaches_trans:
  "reaches n ser fid rk stop t u \<Longrightarrow> reaches n ser fid rk stop u v \<Longrightarrow> reaches n ser fid rk stop t v"
  unfolding reaches_def by (metis sink_steps_simps(3))

lemma reaches_retry:
  "reaches n ser fid rk stop (At_Retry, sk) (At_Pop, drain_retry ser fid rk (sk_retry_buf sk) sk)"
proof (induction "sk_retry_buf sk" arbitrary: sk)
  case Nil
  then show ?case by - (rule reaches_step, simp add: Nil [symmetric] reaches_refl)
next
  case (Cons e es)
  obtain again sk' where step: "retry_step ser fid rk e es sk = (again, sk')" by fastforce
  note retry = Cons(2) [symmetric]
  show ?case
  proof (cases again)
    case True
    then have buf: "es = sk_retry_buf sk'" using retry_step_retry_buf [OF step] by simp
    from Cons.hyps(1) [OF buf] True show ?thesis
      by - (rule reaches_step, simp add: retry step buf [symmetric])
  next
    case False
    then show ?thesis by - (rule reaches_step, simp add: retry step reaches_refl)
  qed
qed

lemma reaches_poll:
  "reaches n ser fid rk stop (At_Poll, sk) (At_Loop, sk\<lparr>sk_producer := poll rk 0 (sk_producer sk)\<rparr>)"
  by (rule reaches_step) (simp add: reaches_refl)

lemma reaches_got:
  "reaches n ser fid rk stop (At_Got e, sk)
    (At_Loop, (consume ser fid rk e sk)\<lparr>sk_producer := poll rk 0 (sk_producer (consume ser fid rk e sk))\<rparr>)"
  by (rule reaches_step) (simp add: reaches_poll)

text \<open>An iteration of the loop, without pushes during its wait.\<close>

lemma reaches_iteration:
  assumes "\<not> stop \<or> \<not> eq_empty (sk_queue sk)"
  shows "reaches n ser fid rk stop (At_Loop, sk) (At_Loop, snd (sink_iteration n ser fid rk [] (acc, sk)))"
proof -
  let ?sk = "drain_retry ser fid rk (sk_retry_buf sk) sk"
  obtain r q where pop: "eq_pop n (sk_queue sk) = (r, q)" by fastforce
  obtain r' q' where pop': "eq_pop n q = (r', q')" by fastforce
  have "reaches n ser fid rk stop (At_Pop, ?sk) (At_Loop, snd (sink_iteration n ser fid rk [] (acc, sk)))"
  proof (cases r)
    case (Some e)
    then show ?thesis
      using reaches_got [of n ser fid rk stop e "?sk\<lparr>sk_queue := q\<rparr>"]
      by - (rule reaches_step, simp add: pop_step_def pop sink_iteration_def eq_pop_wait_def Let_def)
  next
    case None
    then show ?thesis
      using reaches_got [of n ser fid rk stop "the r'" "?sk\<lparr>sk_queue := q'\<rparr>"]
        reaches_poll [of n ser fid rk stop "?sk\<lparr>sk_queue := q'\<rparr>"]
      by - (rule reaches_step, simp add: pop_step_def pop, rule reaches_step,
        cases r', simp_all add: pop_step_def pop pop' sink_iteration_def eq_pop_wait_def Let_def)
  qed
  with reaches_retry have
    "reaches n ser fid rk stop (At_Retry, sk) (At_Loop, snd (sink_iteration n ser fid rk [] (acc, sk)))"
    by (rule reaches_trans)
  with assms show ?thesis by - (rule reaches_step, simp)
qed

lemma reaches_loop:
  "sink_loop n ser fid rk (\<lambda>_. True) (\<lambda>_. []) (\<lambda>_. []) fuel i (acc, sk) = Some (acc', sk') \<Longrightarrow>
    reaches n ser fid rk True (At_Loop, sk) (At_Flush, sk')"
proof (induction fuel arbitrary: i acc sk)
  case (Suc fuel)
  show ?case
  proof (cases "eq_empty (sk_queue sk)")
    case True
    with Suc.prems show ?thesis by - (rule reaches_step, simp add: Let_def reaches_refl)
  next
    case False
    obtain acc1 sk1 where it: "sink_iteration n ser fid rk [] (acc, sk) = (acc1, sk1)" by fastforce
    have "reaches n ser fid rk True (At_Loop, sk) (At_Loop, sk1)"
      using reaches_iteration [of True sk n ser fid rk acc] False by (simp add: it)
    moreover have "reaches n ser fid rk True (At_Loop, sk1) (At_Flush, sk')"
      using Suc.prems False by (intro Suc.IH [of "i + 1" acc1]) (simp add: it Let_def)
    ultimately show ?thesis by (rule reaches_trans)
  qed
qed simp

text \<open>From any point of its loop the thread comes back to the test.\<close>

lemma reaches_head:
  assumes "fst t \<notin> {At_Flush, Thread_Ended}"
  shows "\<exists>sk. reaches n ser fid rk stop t (At_Loop, sk)"
proof -
  obtain pc sk where t: "t = (pc, sk)" by fastforce
  have next_step: "\<exists>sk'. reaches n ser fid rk stop t (At_Loop, sk')"
    if "\<exists>sk'. reaches n ser fid rk stop (sink_micro n ser fid rk stop t) (At_Loop, sk')" for t
    using that by (blast intro: reaches_step)
  have got: "\<exists>sk'. reaches n ser fid rk stop (At_Got e, sk) (At_Loop, sk')" for e sk
    using reaches_got by blast
  have poll: "\<exists>sk'. reaches n ser fid rk stop (At_Poll, sk) (At_Loop, sk')" for sk
    using reaches_poll by blast
  have wait: "\<exists>sk'. reaches n ser fid rk stop (At_Wait, sk) (At_Loop, sk')" for sk
    by (rule next_step, cases "eq_pop n (sk_queue sk)") (simp add: pop_step_def Let_def got poll split: option.split)
  have pop: "\<exists>sk'. reaches n ser fid rk stop (At_Pop, sk) (At_Loop, sk')" for sk
    by (rule next_step, cases "eq_pop n (sk_queue sk)") (simp add: pop_step_def Let_def got wait split: option.split)
  show ?thesis
  proof (cases pc)
    case At_Loop
    then show ?thesis unfolding t by (blast intro: reaches_refl)
  next
    case At_Retry
    with pop [of "drain_retry ser fid rk (sk_retry_buf sk) sk"] reaches_retry [of n ser fid rk stop sk]
    show ?thesis by (auto simp: t intro: reaches_trans)
  qed (use assms wait pop got poll in \<open>auto simp: t\<close>)
qed

text \<open>The thread ends when some run of steps ends.\<close>

lemma sink_join_steps:
  "fst (sink_steps n ser fid rk True k t) = Thread_Ended \<Longrightarrow>
    sink_join n ser fid rk t = Some (sink_steps n ser fid rk True k t)"
proof (induction k arbitrary: t)
  case 0
  then show ?case by (simp add: sink_join_def sink_steps_simps while_option_unfold)
next
  case (Suc k)
  show ?case
  proof (cases "fst t = Thread_Ended")
    case True
    then have "sink_micro n ser fid rk True t = t" by (cases t) simp
    with Suc True show ?thesis by (simp add: sink_steps_simps)
  next
    case False
    with Suc show ?thesis
      by (simp add: sink_steps_simps) (simp add: sink_join_def while_option_unfold [of _ _ t])
  qed
qed

lemma sink_join_reaches:
  assumes "reaches n ser fid rk True t (At_Flush, sk)"
  shows "sink_join n ser fid rk t = Some (Thread_Ended, sink_flush rk 9000 sk)"
proof -
  from assms have "reaches n ser fid rk True t (Thread_Ended, sink_flush rk 9000 sk)"
    by (rule reaches_trans) (rule reaches_step, simp add: reaches_refl)
  then obtain k where "sink_steps n ser fid rk True k t = (Thread_Ended, sink_flush rk 9000 sk)"
    by (auto simp: reaches_def)
  with sink_join_steps [of n ser fid rk k t] show ?thesis by simp
qed

subsection \<open>What every step keeps\<close>

text \<open>The event a step has taken from the queue and not yet dealt with.\<close>

fun in_flight :: "sink_pc \<Rightarrow> flow_event list" where
  "in_flight (At_Got evt) = [evt]"
| "in_flight pc = []"

lemma pop_step_contents:
  assumes "ring_ok n (sk_queue sk)" and "pop_step n pc sk = (pc', sk')" and "in_flight pc = []"
  shows "ring_ok n (sk_queue sk') \<and> sk' = sk\<lparr>sk_queue := sk_queue sk'\<rparr> \<and>
    eq_contents n (sk_queue sk) = in_flight pc' @ eq_contents n (sk_queue sk')"
proof -
  have v: "valid_capacity n \<and> eq_valid n (sk_queue sk)" using assms(1) by (simp add: ring_ok_def)
  show ?thesis
    by (rule ring.pop_cases [OF v]) (use assms in \<open>auto simp: pop_step_def ring_ok_def\<close>)
qed

text \<open>
  A ledger \<open>J\<close> of the events dealt with so far, together with the event in flight and the contents of the queue,
  makes up the history \<open>acc\<close> of the events accepted.  It may depend on where the thread stands.
\<close>

definition on_ledger ::
  "(sink_pc \<Rightarrow> flow_event list \<Rightarrow> avro_kafka_sink \<Rightarrow> bool) \<Rightarrow> size_t \<Rightarrow> flow_event list \<Rightarrow> sink_thread \<Rightarrow> bool" where
  "on_ledger J n acc t \<longleftrightarrow> ring_ok n (sk_queue (snd t)) \<and>
     (\<exists>P. acc = P @ in_flight (fst t) @ eq_contents n (sk_queue (snd t)) \<and> J (fst t) P (snd t))"

text \<open>The steps that change neither the retry buffer nor the producer.\<close>

fun idle_move :: "sink_pc \<Rightarrow> sink_pc \<Rightarrow> bool" where
  "idle_move At_Loop pc \<longleftrightarrow> pc = At_Retry \<or> pc = At_Flush"
| "idle_move At_Pop pc \<longleftrightarrow> pc = At_Wait \<or> (\<exists>evt. pc = At_Got evt)"
| "idle_move At_Wait pc \<longleftrightarrow> pc = At_Poll \<or> (\<exists>evt. pc = At_Got evt)"
| "idle_move At_Flush pc \<longleftrightarrow> pc = Thread_Ended"
| "idle_move _ pc \<longleftrightarrow> False"

text \<open>
  What a ledger has to promise: it is kept when an event is retried or consumed, when librdkafka is polled or
  flushed and when the thread merely moves on, and does not depend on the queue.
\<close>

locale sink_ledger =
  fixes ser :: "flow_event \<Rightarrow> string + u8 list" and fid :: "flow_key \<Rightarrow> string" and rk :: rk_lib
    and J :: "sink_pc \<Rightarrow> flow_event list \<Rightarrow> avro_kafka_sink \<Rightarrow> bool"
  assumes moved: "J pc P sk \<Longrightarrow> idle_move pc pc' \<Longrightarrow> J pc' P sk"
    and retried: "J At_Retry P sk \<Longrightarrow> sk_retry_buf sk = e # es \<Longrightarrow>
      retry_step ser fid rk e es sk = (again, sk') \<Longrightarrow> J (if again then At_Retry else At_Pop) P sk'"
    and exhausted: "J At_Retry P sk \<Longrightarrow> sk_retry_buf sk = [] \<Longrightarrow> J At_Pop P sk"
    and consumed: "J (At_Got e) P sk \<Longrightarrow> J At_Poll (P @ [e]) (consume ser fid rk e sk)"
    and polled: "J At_Poll P sk \<Longrightarrow> J At_Loop P (sk\<lparr>sk_producer := poll rk 0 (sk_producer sk)\<rparr>)"
    and flushed: "J pc P sk \<Longrightarrow> J pc P (sink_flush rk t sk)"
    and any_queue: "J pc P sk \<Longrightarrow> J pc P (sk\<lparr>sk_queue := q\<rparr>)"
begin

lemma holds_same_queue:
  assumes "on_ledger J n acc (pc, sk)" and "\<And>P. J pc P sk \<Longrightarrow> J pc' P sk'" and "sk_queue sk' = sk_queue sk"
    and "in_flight pc' = in_flight pc"
  shows "on_ledger J n acc (pc', sk')"
  using assms by (auto simp: on_ledger_def)

lemma holds_move:
  assumes "on_ledger J n acc (pc, sk)" and "idle_move pc pc'" and "in_flight pc' = in_flight pc"
  shows "on_ledger J n acc (pc', sk)"
  using assms by (blast intro: holds_same_queue moved)

lemma holds_pop:
  assumes "on_ledger J n acc (pc, sk)" and "in_flight pc = []" and "in_flight pc' = []"
    and "idle_move pc pc'" and "\<And>evt. idle_move pc (At_Got evt)"
  shows "on_ledger J n acc (pop_step n pc' sk)"
proof -
  obtain pc1 sk1 where pop: "pop_step n pc' sk = (pc1, sk1)" by fastforce
  then have "pc1 = pc' \<or> (\<exists>evt. pc1 = At_Got evt)"
    by (auto simp: pop_step_def Let_def split: prod.splits option.splits)
  then have move: "idle_move pc pc1" using assms(4,5) by blast
  from assms obtain P where ok: "ring_ok n (sk_queue sk)" and acc: "acc = P @ eq_contents n (sk_queue sk)"
    and J: "J pc P sk" by (auto simp: on_ledger_def)
  from pop_step_contents [OF ok pop assms(3)] any_queue [OF moved [OF J move], of "sk_queue sk1"] acc
  show ?thesis by (auto simp: on_ledger_def pop)
qed

lemma holds_retry:
  assumes "on_ledger J n acc (At_Retry, sk)"
  shows "on_ledger J n acc (sink_micro n ser fid rk stop (At_Retry, sk))"
proof (cases "sk_retry_buf sk")
  case Nil
  with assms exhausted show ?thesis by (auto simp: on_ledger_def)
next
  case (Cons e es)
  obtain again sk' where step: "retry_step ser fid rk e es sk = (again, sk')" by fastforce
  have queue: "sk_queue sk' = sk_queue sk"
    using retry_step_frames(1) [of ser fid rk e es sk] by (simp add: step)
  have "on_ledger J n acc (if again then At_Retry else At_Pop, sk')"
    by (rule holds_same_queue [OF assms _ queue]) (use retried [OF _ Cons step] in auto)
  then show ?thesis by (simp add: Cons step)
qed

lemma holds_got:
  assumes "on_ledger J n acc (At_Got e, sk)"
  shows "on_ledger J n acc (At_Poll, consume ser fid rk e sk)"
proof -
  from assms obtain P where "ring_ok n (sk_queue sk)" "acc = (P @ [e]) @ eq_contents n (sk_queue sk)"
    "J (At_Got e) P sk" by (auto simp: on_ledger_def)
  with consumed [of e P sk] show ?thesis by (auto simp: on_ledger_def)
qed

lemma holds_flush: "on_ledger J n acc (pc, sk) \<Longrightarrow> on_ledger J n acc (pc, sink_flush rk t sk)"
  by (erule holds_same_queue) (auto intro: flushed simp: sink_flush_def [THEN arg_cong, of sk_queue])

lemma holds_micro:
  assumes "on_ledger J n acc t"
  shows "on_ledger J n acc (sink_micro n ser fid rk stop t)"
proof -
  obtain pc sk where t: "t = (pc, sk)" by fastforce
  note holds = assms [unfolded t]
  show ?thesis
  proof (cases pc)
    case At_Loop
    with holds show ?thesis by (auto simp: t intro: holds_move)
  next
    case At_Retry
    with holds_retry holds show ?thesis by (simp add: t del: sink_micro.simps)
  next
    case (At_Got e)
    with holds_got holds show ?thesis by (simp add: t)
  next
    case At_Poll
    with holds show ?thesis by (auto simp: t intro: holds_same_queue polled)
  next
    case At_Flush
    with holds have "on_ledger J n acc (Thread_Ended, sk)" by (auto intro: holds_move)
    then show ?thesis using At_Flush by (simp add: t holds_flush)
  qed (use holds in \<open>auto simp: t intro: holds_pop\<close>)
qed

lemma holds_steps: "on_ledger J n acc t \<Longrightarrow> on_ledger J n acc (sink_steps n ser fid rk stop k t)"
  by (induction k arbitrary: t) (simp_all add: sink_steps_simps holds_micro)

lemma holds_push:
  assumes "on_ledger J n acc (pc, sk)" and "sink_push n e sk = (ok, sk')"
  shows "on_ledger J n (if ok then acc @ [e] else acc) (pc, sk')"
proof -
  obtain q where push: "push_all n [e] (acc, sk_queue sk) = (if ok then acc @ [e] else acc, q)"
    and sk': "sk' = sk\<lparr>sk_queue := q\<rparr>"
    using assms(2) by (auto simp: sink_push_def split: prod.splits)
  from assms(1) obtain P where r: "ring_ok n (sk_queue sk)" and J: "J pc P sk"
    and acc: "acc = P @ in_flight pc @ eq_contents n (sk_queue sk)" by (auto simp: on_ledger_def)
  from push_all_contents [OF r push] acc any_queue [OF J, of q] show ?thesis
    by (auto simp: on_ledger_def sk')
qed

lemma holds_join:
  assumes "on_ledger J n acc t" and "sink_join n ser fid rk t = Some t'"
  shows "on_ledger J n acc t'"
  using while_option_rule [where P = "on_ledger J n acc", OF _ assms(2) [unfolded sink_join_def] assms(1)]
  by (blast intro: holds_micro)

lemma holds_reaches: "on_ledger J n acc t \<Longrightarrow> reaches n ser fid rk stop t t' \<Longrightarrow> on_ledger J n acc t'"
  by (auto simp: reaches_def intro: holds_steps)

text \<open>
  Once stop has been requested and nothing is pushed any more the thread ends: from its loop it completes its
  iteration and then needs at most one iteration for each event in the queue; once it has left the loop it
  leaves the queue alone.
\<close>

lemma joined:
  assumes "on_ledger J n acc t" and "fst t \<notin> {At_Flush, Thread_Ended}"
  shows "\<exists>sk. sink_join n ser fid rk t = Some (Thread_Ended, sk) \<and>
    on_ledger J n acc (Thread_Ended, sk) \<and> eq_empty (sk_queue sk)"
proof -
  from reaches_head [OF assms(2)] obtain sk where
    head: "reaches n ser fid rk True t (At_Loop, sk)" by blast
  have "ring_ok n (sk_queue sk)" using holds_reaches [OF assms(1) head] by (simp add: on_ledger_def)
  then have "sink_loop n ser fid rk (\<lambda>_. True) (\<lambda>_. []) (\<lambda>_. [])
      (Suc (length (eq_contents n (sk_queue sk)))) 0 (acc, sk) \<noteq> None"
    by (intro sink_loop_ends) simp_all
  then obtain acc' sk' where loop: "sink_loop n ser fid rk (\<lambda>_. True) (\<lambda>_. []) (\<lambda>_. [])
      (Suc (length (eq_contents n (sk_queue sk)))) 0 (acc, sk) = Some (acc', sk')" by auto
  have flush: "reaches n ser fid rk True t (At_Flush, sk')"
    using head reaches_loop [OF loop] by (rule reaches_trans)
  moreover have "on_ledger J n acc (Thread_Ended, sink_flush rk 9000 sk')"
    using holds_micro [OF holds_reaches [OF assms(1) flush], of True] by simp
  moreover have "eq_empty (sk_queue (sink_flush rk 9000 sk'))"
    using loop_ends_empty [OF loop] by (simp add: sink_flush_def)
  ultimately show ?thesis using sink_join_reaches by blast
qed

lemma joined_after_loop:
  assumes "on_ledger J n acc t" and "fst t \<in> {At_Flush, Thread_Ended}"
  shows "\<exists>sk. sink_join n ser fid rk t = Some (Thread_Ended, sk) \<and>
    on_ledger J n acc (Thread_Ended, sk) \<and> sk_queue sk = sk_queue (snd t)"
proof (cases "fst t = Thread_Ended")
  case True
  with assms show ?thesis
    by (cases t) (auto simp: sink_join_def while_option_unfold)
next
  case False
  then obtain sk where t: "t = (At_Flush, sk)" using assms(2) by (cases t) auto
  with sink_join_reaches [OF reaches_refl, of n ser fid rk sk] holds_micro [OF assms(1), of True]
  show ?thesis by (auto simp: sink_flush_def)
qed

end

subsection \<open>Reachable states\<close>

text \<open>
  The states of a sink that starts as \<open>sk0\<close>, with the history of the events its queue accepted: the thread
  steps, whatever \<open>stop_requested\<close> answers, and in between the flow table pushes and the main thread flushes.  An attempt
  to pop may also miss the events pushed last, when its load of the tail is not the latest
  value (\<open>c_empty\<close> in Event\_Queue\_Conc); a push that is refused for a stale head changes nothing.
\<close>

inductive sink_reach ::
  "size_t \<Rightarrow> (flow_event \<Rightarrow> string + u8 list) \<Rightarrow> (flow_key \<Rightarrow> string) \<Rightarrow> rk_lib \<Rightarrow>
   avro_kafka_sink \<Rightarrow> flow_event list \<Rightarrow> sink_thread \<Rightarrow> bool"
  for n ser fid rk sk0
where
  started: "sink_reach n ser fid rk sk0 [] (At_Loop, sk0)"
| steps: "sink_reach n ser fid rk sk0 acc t \<Longrightarrow> sink_reach n ser fid rk sk0 acc (sink_micro n ser fid rk stop t)"
| pushes: "sink_reach n ser fid rk sk0 acc (pc, sk) \<Longrightarrow> sink_push n e sk = (ok, sk') \<Longrightarrow>
    sink_reach n ser fid rk sk0 (if ok then acc @ [e] else acc) (pc, sk')"
| misses: "sink_reach n ser fid rk sk0 acc (At_Pop, sk) \<Longrightarrow> sink_reach n ser fid rk sk0 acc (At_Wait, sk)"
| misses_again: "sink_reach n ser fid rk sk0 acc (At_Wait, sk) \<Longrightarrow> sink_reach n ser fid rk sk0 acc (At_Poll, sk)"
| flushes: "sink_reach n ser fid rk sk0 acc (pc, sk) \<Longrightarrow>
    sink_reach n ser fid rk sk0 acc (pc, sink_flush rk ms sk)"

lemma sink_reach_steps:
  "sink_reach n ser fid rk sk0 acc t \<Longrightarrow> sink_reach n ser fid rk sk0 acc (sink_steps n ser fid rk stop k t)"
  by (induction k arbitrary: t) (simp_all add: sink_steps_simps sink_reach.steps)

context sink_ledger
begin

lemma holds_reachable:
  assumes "sink_reach n ser fid rk sk0 acc t" and "on_ledger J n [] (At_Loop, sk0)"
  shows "on_ledger J n acc t"
  using assms
proof (induction rule: sink_reach.induct)
  case (pushes acc pc sk e ok sk')
  then show ?case by (blast intro: holds_push)
next
  case (misses acc sk)
  then show ?case by (auto intro: holds_move)
next
  case (misses_again acc sk)
  then show ?case by (auto intro: holds_move)
qed (auto intro: holds_micro holds_flush)

end

text \<open>The ledger of the code, with the order of the messages where librdkafka refuses nothing.\<close>

definition ledger ::
  "(flow_event \<Rightarrow> string + u8 list) \<Rightarrow> (flow_key \<Rightarrow> string) \<Rightarrow> rk_lib \<Rightarrow> metrics \<Rightarrow> int \<Rightarrow>
   flow_event list \<Rightarrow> avro_kafka_sink \<Rightarrow> bool" where
  "ledger ser fid rk m b P sk \<longleftrightarrow> sk_sr_buffer_size sk = b \<and>
     (\<exists>S U D. accounted ser fid m P S U D sk) \<and> (never_refuses rk \<longrightarrow> in_order ser fid P sk)"

lemma in_order_frames:
  "in_order ser fid P (sk\<lparr>sk_queue := q\<rparr>) = in_order ser fid P sk"
  "in_order ser fid P sk \<Longrightarrow> in_order ser fid P (sk\<lparr>sk_producer := poll rk t (sk_producer sk)\<rparr>)"
  "in_order ser fid P sk \<Longrightarrow> in_order ser fid P (sink_flush rk t sk)"
  by (simp_all add: in_order_def poll_frame flush_frame sink_flush_def)

interpretation kept: sink_ledger ser fid rk "\<lambda>pc. ledger ser fid rk m b" for ser fid rk m b
proof
  fix P sk e es t q again sk'
  assume J: "ledger ser fid rk m b P sk"
  then obtain S U D where acc: "accounted ser fid m P S U D sk" by (auto simp: ledger_def)
  show "ledger ser fid rk m b P sk'"
    if "sk_retry_buf sk = e # es" "retry_step ser fid rk e es sk = (again, sk')"
  proof -
    have "ledger ser fid rk m b P (snd (retry_step ser fid rk e es sk))"
      using J retry_step_accounted [OF acc that(1), of rk] that(1)
      by (auto simp: ledger_def retry_step_frames in_order_def)
    with that(2) show ?thesis by simp
  qed
  from J show "ledger ser fid rk m b (P @ [e]) (consume ser fid rk e sk)"
    using consume_accounted [OF acc, of e rk]
    by (auto simp: ledger_def buffer_size_frames consume_in_order)
  from J show "ledger ser fid rk m b P (sk\<lparr>sk_producer := poll rk 0 (sk_producer sk)\<rparr>)"
    using accounted_poll [OF acc, of rk 0] by (auto simp: ledger_def in_order_frames)
  from J show "ledger ser fid rk m b P (sink_flush rk t sk)"
    using accounted_flush [OF acc, of rk t]
    by (auto simp: ledger_def in_order_frames) (auto simp: sink_flush_def)
  from J show "ledger ser fid rk m b P (sk\<lparr>sk_queue := q\<rparr>)"
    by (simp add: ledger_def in_order_frames accounted_queue)
qed

lemma ledger_new:
  assumes "valid_capacity n" and "valid_config cfg" and "kp_calls kp = []" and "kp_metrics kp = m"
  shows "on_ledger (\<lambda>pc. ledger ser fid rk m (cfg_sr_buffer_size cfg)) n [] (At_Loop, new_sink n kp cfg)"
proof -
  have "accounted ser fid m [] [] [] [] (new_sink n kp cfg)"
    using assms by (simp add: accounted_def new_sink_def AvroKafkaSink_def valid_config_def)
  then have "\<exists>S U D. accounted ser fid m [] S U D (new_sink n kp cfg)" by blast
  then show ?thesis
    using assms(1,3)
    by (simp add: on_ledger_def ledger_def in_order_def)
      (simp add: new_sink_def AvroKafkaSink_def ring_ok_def eq_valid_new eq_contents_new)
qed

subsection \<open>Properties\<close>

text \<open>
  Left to itself, the machine computes the thread function: from the test of the loop some number
  of steps makes exactly one iteration, and with stop requested the joined thread ends in the state that
  \<open>sink_thread_func\<close> returns, within as many iterations as the ring has places.
\<close>

lemma sink_steps_thread:
  assumes "valid_capacity n" and "eq_valid n (sk_queue sk)"
  shows "(\<not> stop \<or> \<not> eq_empty (sk_queue sk) \<longrightarrow>
      (\<exists>k. sink_steps n ser fid rk stop k (At_Loop, sk) =
        (At_Loop, snd (sink_iteration n ser fid rk [] (acc, sk))))) \<and>
    (\<exists>acc' sk'. sink_thread_func n ser fid rk (\<lambda>_. True) (\<lambda>_. []) (\<lambda>_. []) (unat n) (acc, sk) = Some (acc', sk') \<and>
      sink_join n ser fid rk (At_Loop, sk) = Some (Thread_Ended, sk'))"
proof -
  obtain f where f: "unat n = Suc f" using valid_capacityD(1) [OF assms(1)] by (cases "unat n") auto
  have "length (eq_contents n (sk_queue sk)) \<le> f" using eq_validD(4) [OF assms(2)] f by simp
  with assms have "sink_loop n ser fid rk (\<lambda>_. True) (\<lambda>_. []) (\<lambda>_. []) (unat n) 0 (acc, sk) \<noteq> None"
    unfolding f by (intro sink_loop_ends) (simp_all add: ring_ok_def)
  then obtain acc' sk' where loop:
    "sink_loop n ser fid rk (\<lambda>_. True) (\<lambda>_. []) (\<lambda>_. []) (unat n) 0 (acc, sk) = Some (acc', sk')" by auto
  have "sink_join n ser fid rk (At_Loop, sk) = Some (Thread_Ended, sink_flush rk 9000 sk')"
    using sink_join_reaches [OF reaches_loop [OF loop]] .
  with loop show ?thesis
    using reaches_iteration [of stop sk n ser fid rk acc]
    by (auto simp: reaches_def sink_thread_func_def sink_flush_def)
qed

text \<open>
  C4.  At every moment of the sink's life, wherever the thread stands, every event the queue ever accepted
  has exactly one place: produced (once, and counted), not serializable (and counted), dropped because the
  retry buffer was full (and logged), in the retry buffer, which holds at most \<open>--sr-buffer\<close> events,
  in the hands of the thread, or in the queue.  If librdkafka refuses nothing, the messages produced so far are those of the
  serializable events in the order of their acceptance, up to the event in hand.
\<close>

theorem sink_every_moment:
  assumes "valid_capacity n" and "valid_config cfg" and "kp_calls kp = []"
    and "sink_reach n ser fid rk (new_sink n kp cfg) acc (pc, sk)"
  shows "int (length (sk_retry_buf sk)) \<le> cfg_sr_buffer_size cfg \<and>
    (\<exists>S U D. mset acc = mset S + mset U + mset D + mset (sk_retry_buf sk) + mset (in_flight pc) +
        mset (eq_contents n (sk_queue sk)) \<and>
      sent (kp_calls (sk_producer sk)) = map (message ser fid) S \<and>
      (\<forall>e \<in> set U. isl (ser e)) \<and> (\<forall>e \<in> set S \<union> set D \<union> set (sk_retry_buf sk). \<not> isl (ser e)) \<and>
      kp_metrics (sk_producer sk) KafkaMessagesProduced = kp_metrics kp KafkaMessagesProduced + int (length S) \<and>
      kp_metrics (sk_producer sk) AvroSerializationErrors =
        kp_metrics kp AvroSerializationErrors + int (length U) \<and>
      count_list (sk_log sk) Retry_Buffer_Full = length D) \<and>
    (never_refuses rk \<longrightarrow> sk_retry_buf sk = [] \<and>
      (\<exists>P. acc = P @ in_flight pc @ eq_contents n (sk_queue sk) \<and>
        sent (kp_calls (sk_producer sk)) = map (message ser fid) (filter (\<lambda>e. \<not> isl (ser e)) P)))"
proof -
  from kept.holds_reachable [OF assms(4) ledger_new [OF assms(1-3) refl]] obtain P where
    acc: "acc = P @ in_flight pc @ eq_contents n (sk_queue sk)" and
    J: "ledger ser fid rk (kp_metrics kp) (cfg_sr_buffer_size cfg) P sk"
    by (auto simp: on_ledger_def)
  then obtain S U D where led: "accounted ser fid (kp_metrics kp) P S U D sk" by (auto simp: ledger_def)
  have size: "int (length (sk_retry_buf sk)) \<le> cfg_sr_buffer_size cfg"
    using J led by (auto simp: ledger_def accounted_def)
  have "mset acc = mset S + mset U + mset D + mset (sk_retry_buf sk) + mset (in_flight pc) +
      mset (eq_contents n (sk_queue sk))"
    using led by (simp add: acc accounted_def)
  moreover have "sk_retry_buf sk = []"
    "sent (kp_calls (sk_producer sk)) = map (message ser fid) (filter (\<lambda>e. \<not> isl (ser e)) P)"
    if "never_refuses rk"
    using J that by (simp_all add: ledger_def in_order_def)
  ultimately show ?thesis
    using led acc size unfolding accounted_def by blast
qed

theorem sink_every_moment_witness:
  "\<exists>sk. sink_reach 4 (\<lambda>e. Inr [1]) (\<lambda>k. ''k'') fails_first (new_sink 4 idle_producer default_config)
      [default_flow_event] (At_Got default_flow_event, sk) \<and>
    int (length (sk_retry_buf sk)) \<le> 1000"
proof -
  let ?sk = "new_sink 4 idle_producer default_config"
  let ?reach = "sink_reach 4 (\<lambda>e. Inr [1]) (\<lambda>k. ''k'') fails_first ?sk"
  obtain sk where push: "sink_push 4 default_flow_event ?sk = (True, sk)"
    by (simp add: sink_push_def new_sink_def AvroKafkaSink_def eq_new_4 eq_push_def)
  have "?reach [default_flow_event] (At_Loop, sk)"
    using sink_reach.pushes [OF sink_reach.started push] by simp
  then have "?reach [default_flow_event]
      (sink_steps 4 (\<lambda>e. Inr [1]) (\<lambda>k. ''k'') fails_first False 3 (At_Loop, sk))"
    by (rule sink_reach_steps)
  moreover have "fst (sink_steps 4 (\<lambda>e. Inr [1]) (\<lambda>k. ''k'') fails_first False 3 (At_Loop, sk)) =
      At_Got default_flow_event"
    using push
    by (auto simp: sink_push_def new_sink_def AvroKafkaSink_def eq_new_4 eq_push_def sink_steps_def
        numeral_3_eq_3 pop_step_def eq_pop_def)
  ultimately obtain sk' where reach: "?reach [default_flow_event] (At_Got default_flow_event, sk')"
    by (metis prod.collapse)
  have "int (length (sk_retry_buf sk')) \<le> cfg_sr_buffer_size default_config"
    using sink_every_moment [OF _ valid_default _ reach] by (simp add: valid_capacity_def idle_producer_def)
  with reach show ?thesis by (auto simp: default_config_def)
qed

text \<open>
  C7.  From every reachable state, wherever its thread stands, the sink can be joined once nothing is pushed
  any more: the thread ends, and every event ever accepted was produced, could not be serialized,
  was dropped at a full retry buffer, or is one of those left in the retry buffer or in the queue.  The queue is
  then empty if the thread was still in its loop.  Otherwise it had already found the queue empty for the
  last time, and the queue is left as it is: an event pushed between that test and the join is lost.
\<close>

theorem sink_join_ends:
  assumes "valid_capacity n" and "valid_config cfg" and "kp_calls kp = []"
    and "sink_reach n ser fid rk (new_sink n kp cfg) acc t"
  shows "\<exists>sk. sink_join n ser fid rk t = Some (Thread_Ended, sk) \<and>
    (if fst t \<in> {At_Flush, Thread_Ended} then sk_queue sk = sk_queue (snd t) else eq_empty (sk_queue sk)) \<and>
    int (length (sk_retry_buf sk)) \<le> cfg_sr_buffer_size cfg \<and>
    (\<exists>S U D. mset acc = mset S + mset U + mset D + mset (sk_retry_buf sk) + mset (eq_contents n (sk_queue sk)) \<and>
      sent (kp_calls (sk_producer sk)) = map (message ser fid) S \<and>
      (\<forall>e \<in> set U. isl (ser e)) \<and> (\<forall>e \<in> set S \<union> set D \<union> set (sk_retry_buf sk). \<not> isl (ser e)) \<and>
      count_list (sk_log sk) Retry_Buffer_Full = length D)"
proof -
  note led0 = kept.holds_reachable [OF assms(4) ledger_new [OF assms(1-3) refl]]
  obtain sk where join: "sink_join n ser fid rk t = Some (Thread_Ended, sk)"
    and queue: "if fst t \<in> {At_Flush, Thread_Ended} then sk_queue sk = sk_queue (snd t) else eq_empty (sk_queue sk)"
    and led: "on_ledger (\<lambda>pc. ledger ser fid rk (kp_metrics kp) (cfg_sr_buffer_size cfg)) n acc (Thread_Ended, sk)"
    using kept.joined [OF led0] kept.joined_after_loop [OF led0]
    by (cases "fst t \<in> {At_Flush, Thread_Ended}") auto
  from led obtain P S U D where P: "acc = P @ eq_contents n (sk_queue sk)"
    and "accounted ser fid (kp_metrics kp) P S U D sk"
    and size: "sk_sr_buffer_size sk = cfg_sr_buffer_size cfg"
    by (auto simp: on_ledger_def ledger_def)
  note acc = this(2) [unfolded accounted_def]
  have "int (length (sk_retry_buf sk)) \<le> cfg_sr_buffer_size cfg" using acc size by simp
  moreover have "mset acc = mset S + mset U + mset D + mset (sk_retry_buf sk) + mset (eq_contents n (sk_queue sk))"
    using acc by (simp add: P)
  ultimately show ?thesis using join queue acc by blast
qed

theorem sink_join_ends_witness:
  "\<exists>sk. sink_join 4 (\<lambda>e. Inr [1]) (\<lambda>k. ''k'') fails_first (At_Loop, new_sink 4 idle_producer default_config) =
    Some (Thread_Ended, sk) \<and> eq_empty (sk_queue sk)"
  using sink_join_ends [OF _ valid_default _ sink_reach.started,
      of 4 idle_producer "\<lambda>e. Inr [1]" "\<lambda>k. ''k''" fails_first]
  by (auto simp: valid_capacity_def idle_producer_def)

text \<open>A library that refuses the first two messages, and a payload that shows the type of the event.\<close>

definition refuses_twice :: rk_lib where
  "refuses_twice =
     fails_first\<lparr>rk_produce := \<lambda>calls _ _ _.
       if length (filter (\<lambda>c. case c of Rk_Produce _ _ _ _ \<Rightarrow> True | _ \<Rightarrow> False) calls) < 2 then - 184 else 0\<rparr>"

definition type_payload :: "flow_event \<Rightarrow> string + u8 list" where
  "type_payload e = Inr [if ev_type e = Start then 1 else 2]"

text \<open>
  C40.  After refusals the order within a flow can be lost: two events with one key, accepted in their order, and
  produced in the opposite one, because the event waiting in the retry buffer is refused once more
  before the next event is taken from the queue and produced.
\<close>

theorem sink_order_lost:
  "\<exists>sk. sink_reach 4 type_payload (\<lambda>k. ''k'') refuses_twice (new_sink 4 idle_producer default_config)
      [default_flow_event\<lparr>ev_type := Start\<rparr>, default_flow_event\<lparr>ev_type := Stats\<rparr>] (At_Retry, sk) \<and>
    sent (kp_calls (sk_producer sk)) = [(''k'', [2]), (''k'', [1])]"
proof -
  let ?sk = "new_sink 4 idle_producer default_config"
  let ?a = "default_flow_event\<lparr>ev_type := Start\<rparr>" and ?b = "default_flow_event\<lparr>ev_type := Stats\<rparr>"
  let ?reach = "sink_reach 4 type_payload (\<lambda>k. ''k'') refuses_twice ?sk"
  let ?step = "sink_micro 4 type_payload (\<lambda>k. ''k'') refuses_twice False"
  let ?q = "\<lambda>h. \<lparr>eq_buffer = [?a, ?b, default_flow_event, default_flow_event], eq_head = h, eq_tail = 2\<rparr>"
  obtain sk1 where push1: "sink_push 4 ?a ?sk = (True, sk1)"
    and sk1: "sk1 = ?sk\<lparr>sk_queue := (?q 0)\<lparr>eq_tail := 1, eq_buffer := (eq_buffer (?q 0))[1 := default_flow_event]\<rparr>\<rparr>"
    by (simp add: sink_push_def new_sink_def AvroKafkaSink_def eq_new_4 eq_push_def)
  have push2: "sink_push 4 ?b sk1 = (True, ?sk\<lparr>sk_queue := ?q 0\<rparr>)"
    by (simp add: sk1 sink_push_def new_sink_def AvroKafkaSink_def eq_push_def)
  have start: "?reach [?a, ?b] (At_Loop, ?sk\<lparr>sk_queue := ?q 0\<rparr>)"
    using sink_reach.pushes [OF sink_reach.pushes [OF sink_reach.started push1] push2] by simp
  then have "?reach [?a, ?b] (sink_steps 4 type_payload (\<lambda>k. ''k'') refuses_twice False 12
      (At_Loop, ?sk\<lparr>sk_queue := ?q 0\<rparr>))"
    by (rule sink_reach_steps)
  moreover have "fst (sink_steps 4 type_payload (\<lambda>k. ''k'') refuses_twice False 12 (At_Loop, ?sk\<lparr>sk_queue := ?q 0\<rparr>)) = At_Retry \<and>
    sent (kp_calls (sk_producer (snd (sink_steps 4 type_payload (\<lambda>k. ''k'') refuses_twice False 12
      (At_Loop, ?sk\<lparr>sk_queue := ?q 0\<rparr>))))) = [(''k'', [2]), (''k'', [1])]"
    by code_simp
  ultimately show ?thesis by (metis prod.collapse)
qed

end
