(* ===== verification/Sink_Counters.thy ===== *)
theory Sink_Counters
  imports Sink_Steps
begin

section \<open>The counters of the sink\<close>

text \<open>
  What the counters of the sink say is read off the calls of librdkafka alone, which the model records.  A
  replay of the calls tells a retry from a first attempt: whatever \<open>produce\<close> refuses is kept for a retry while the buffer has
  room, and dropped otherwise; after each \<open>poll\<close> the messages kept are tried again, oldest first, until one
  is refused; the next message is a new one.  That the sink's buffer and counters are those of the replay is a second ledger
  for the contract \<open>sink_ledger\<close>, one that depends on the program counter.
\<close>

subsection \<open>Reading the recorded calls\<close>

record replay =
  rp_waiting :: "(string \<times> u8 list) list"
  rp_turn :: bool        \<comment> \<open>it is the turn of the messages kept\<close>
  rp_retries :: nat
  rp_dropped :: nat

fun replay_call :: "int \<Rightarrow> rk_call \<Rightarrow> replay \<Rightarrow> replay" where
  "replay_call b (Rk_Produce topic key payload err) r =
     (if rp_turn r \<and> rp_waiting r \<noteq> [] then
        (if err = 0 then r\<lparr>rp_waiting := tl (rp_waiting r), rp_retries := Suc (rp_retries r)\<rparr>
         else r\<lparr>rp_turn := False\<rparr>)
      else if err = 0 then r\<lparr>rp_turn := False\<rparr>
      else if int (length (rp_waiting r)) < b then
        r\<lparr>rp_turn := False, rp_waiting := rp_waiting r @ [(key, payload)]\<rparr>
      else r\<lparr>rp_turn := False, rp_dropped := Suc (rp_dropped r)\<rparr>)"
| "replay_call b (Rk_Poll timeout) r = r\<lparr>rp_turn := True\<rparr>"
| "replay_call b (Rk_Flush timeout err) r = r"

definition replay :: "int \<Rightarrow> rk_call list \<Rightarrow> replay" where
  "replay b calls =
     fold (replay_call b) calls \<lparr>rp_waiting = [], rp_turn = True, rp_retries = 0, rp_dropped = 0\<rparr>"

text \<open>The messages librdkafka refused, and the failed deliveries it reported when polled or flushed.\<close>

definition refused :: "rk_call list \<Rightarrow> nat" where
  "refused calls =
     length (filter (\<lambda>c. case c of Rk_Produce t k p err \<Rightarrow> err \<noteq> 0 | _ \<Rightarrow> False) calls)"

fun failed_reports :: "rk_lib \<Rightarrow> rk_call list \<Rightarrow> rk_call list \<Rightarrow> nat" where
  "failed_reports rk before [] = 0"
| "failed_reports rk before (c # cs) =
     (case c of Rk_Produce t k p err \<Rightarrow> 0 | _ \<Rightarrow> length (filter (\<lambda>err. err \<noteq> 0) (rk_reports rk before))) +
     failed_reports rk (before @ [c]) cs"

lemma replay_simps [simp]:
  "replay b [] = \<lparr>rp_waiting = [], rp_turn = True, rp_retries = 0, rp_dropped = 0\<rparr>"
  "replay b (cs @ [c]) = replay_call b c (replay b cs)"
  by (simp_all add: replay_def)

lemma refused_simps [simp]:
  "refused [] = 0" "refused (cs @ ds) = refused cs + refused ds"
  "refused (Rk_Produce t k p err # cs) = (if err = 0 then 0 else 1) + refused cs"
  "refused (Rk_Poll i # cs) = refused cs" "refused (Rk_Flush i err # cs) = refused cs"
  by (simp_all add: refused_def)

lemma failed_reports_append [simp]:
  "failed_reports rk before (cs @ ds) = failed_reports rk before cs + failed_reports rk (before @ cs) ds"
  by (induction cs arbitrary: before) simp_all

subsection \<open>The counters agree with the replay\<close>

definition kafka_counter :: "metric_id \<Rightarrow> bool" where
  "kafka_counter x \<longleftrightarrow>
     x \<in> {KafkaMessagesProduced, KafkaDeliveryErrors, AvroSerializationErrors, SchemaRegistryRetries}"

text \<open>The counters of the producer, given the numbers of retries and of events dropped.\<close>

definition producer_counts :: "rk_lib \<Rightarrow> metrics \<Rightarrow> nat \<Rightarrow> nat \<Rightarrow> kafka_producer \<Rightarrow> bool" where
  "producer_counts rk m retries dropped kp \<longleftrightarrow>
     (\<forall>x. \<not> kafka_counter x \<longrightarrow> kp_metrics kp x = m x) \<and>
     kp_metrics kp KafkaDeliveryErrors = m KafkaDeliveryErrors +
       int (refused (kp_calls kp)) + int (failed_reports rk [] (kp_calls kp)) + int dropped \<and>
     kp_metrics kp SchemaRegistryRetries = m SchemaRegistryRetries + int retries"

text \<open>Whose turn it is, as far as the program counter tells.\<close>

fun in_turn :: "sink_pc \<Rightarrow> replay \<Rightarrow> bool" where
  "in_turn At_Loop r \<longleftrightarrow> rp_turn r"
| "in_turn At_Retry r \<longleftrightarrow> rp_turn r"
| "in_turn At_Pop r \<longleftrightarrow> \<not> rp_turn r \<or> rp_waiting r = []"
| "in_turn At_Wait r \<longleftrightarrow> \<not> rp_turn r \<or> rp_waiting r = []"
| "in_turn (At_Got evt) r \<longleftrightarrow> \<not> rp_turn r \<or> rp_waiting r = []"
| "in_turn _ r \<longleftrightarrow> True"

definition replayed ::
  "(flow_event \<Rightarrow> string + u8 list) \<Rightarrow> (flow_key \<Rightarrow> string) \<Rightarrow> rk_lib \<Rightarrow> metrics \<Rightarrow> int \<Rightarrow>
   sink_pc \<Rightarrow> avro_kafka_sink \<Rightarrow> bool" where
  "replayed ser fid rk m b pc sk \<longleftrightarrow>
     (let r = replay b (kp_calls (sk_producer sk)) in
      producer_counts rk m (rp_retries r) (rp_dropped r) (sk_producer sk) \<and>
      map (message ser fid) (sk_retry_buf sk) = rp_waiting r \<and>
      count_list (sk_log sk) Retry_Buffer_Full = rp_dropped r \<and>
      sk_sr_buffer_size sk = b \<and> b \<le> INT_MAX \<and> int (length (sk_retry_buf sk)) \<le> b \<and>
      (\<forall>e \<in> set (sk_retry_buf sk). \<not> isl (ser e)) \<and>
      in_turn pc r)"

lemmas counter_defs = producer_counts_def kafka_counter_def kp_on_metrics_def

lemma producer_counts_produce:
  assumes "producer_counts rk m k d kp" and "produce rk key payload kp = (ok, kp')"
  shows "producer_counts rk m k d kp' \<and>
    (ok \<longrightarrow> producer_counts rk m (Suc k) d (kp_on_metrics (Increment SchemaRegistryRetries) kp'))"
  using assms by (auto simp: produce_def counter_defs Increment_def Let_def split: if_splits)

lemma produce_calls:
  assumes "produce rk key payload kp = (ok, kp')"
  shows "\<exists>err. kp_calls kp' = kp_calls kp @ [Rk_Produce (kp_topic_name kp) key payload err] \<and> (ok \<longleftrightarrow> err = 0)"
  using assms by (auto simp: produce_def kp_on_metrics_def Let_def split: if_splits)

lemma fold_dr_cb_metrics:
  "kp_metrics (fold dr_cb es kp) x =
    kp_metrics kp x + (if x = KafkaDeliveryErrors then int (length (filter (\<lambda>err. err \<noteq> 0) es)) else 0)"
  by (induction es arbitrary: kp) (simp_all add: dr_cb_def kp_on_metrics_def Let_def)

lemma producer_counts_reports:
  assumes "producer_counts rk m k d kp" and "c = Rk_Poll i \<or> c = Rk_Flush i err"
  shows "producer_counts rk m k d (fold dr_cb (rk_reports rk (kp_calls kp)) (kp\<lparr>kp_calls := kp_calls kp @ [c]\<rparr>))"
  using assms by (auto simp: producer_counts_def kafka_counter_def fold_dr_cb_metrics)

lemma producer_counts_log [simp]:
  "producer_counts rk m k d (kp\<lparr>kp_log := l\<rparr>) = producer_counts rk m k d kp"
  by (simp add: producer_counts_def)

lemma producer_counts_poll: "producer_counts rk m k d kp \<Longrightarrow> producer_counts rk m k d (poll rk t kp)"
  by (simp add: poll_def Let_def producer_counts_reports)

lemma producer_counts_flush: "producer_counts rk m k d kp \<Longrightarrow> producer_counts rk m k d (flush rk t kp)"
  by (simp add: flush_def Let_def producer_counts_reports)

lemma poll_calls:
  "kp_calls (poll rk t kp) = kp_calls kp @ [Rk_Poll t]"
  "\<exists>err. kp_calls (flush rk t kp) = kp_calls kp @ [Rk_Flush t err]"
  by (simp_all add: poll_def flush_def Let_def)

lemma producer_counts_other:
  "producer_counts rk m k d (kp_on_metrics (Increment AvroSerializationErrors) kp) = producer_counts rk m k d kp"
  "producer_counts rk m k (Suc d) (kp_on_metrics (Increment KafkaDeliveryErrors) kp) = producer_counts rk m k d kp"
  by (auto simp: counter_defs Increment_def)

text \<open>A retry, and a new event.\<close>

lemma replayed_retry:
  assumes "replayed ser fid rk m b At_Retry sk" and "sk_retry_buf sk = e # es"
    and "retry_step ser fid rk e es sk = (again, sk')"
  shows "replayed ser fid rk m b (if again then At_Retry else At_Pop) sk'"
proof -
  note inv = assms(1) [unfolded replayed_def Let_def]
  from inv assms(2) obtain payload where payload: "ser e = Inr payload" by (cases "ser e") auto
  obtain ok kp where p: "produce rk (fid (ev_key e)) payload (sk_producer sk) = (ok, kp)" by fastforce
  from produce_calls [OF p] obtain err where calls: "kp_calls kp = kp_calls (sk_producer sk) @
      [Rk_Produce (kp_topic_name (sk_producer sk)) (fid (ev_key e)) payload err]" "ok \<longleftrightarrow> err = 0" by blast
  have waiting: "message ser fid e # map (message ser fid) es = rp_waiting (replay b (kp_calls (sk_producer sk)))"
    using inv assms(2) by simp
  show ?thesis
    using inv assms(2,3) payload p calls producer_counts_produce [OF _ p] waiting [symmetric]
    by (auto simp: replayed_def retry_step_def sk_metric_def Let_def split: if_splits)
qed

lemma replayed_consume:
  assumes "replayed ser fid rk m b (At_Got e) sk"
  shows "replayed ser fid rk m b At_Poll (consume ser fid rk e sk)"
proof (cases "ser e")
  case (Inl ex)
  with assms show ?thesis
    by (simp add: consume_def attempt_produce_def replayed_def sk_metric_def producer_counts_other Let_def)
next
  case (Inr payload)
  note inv = assms [unfolded replayed_def Let_def]
  obtain ok kp where p: "produce rk (fid (ev_key e)) payload (sk_producer sk) = (ok, kp)" by fastforce
  from produce_calls [OF p] obtain err where calls: "kp_calls kp = kp_calls (sk_producer sk) @
      [Rk_Produce (kp_topic_name (sk_producer sk)) (fid (ev_key e)) payload err]" "ok \<longleftrightarrow> err = 0" by blast
  have size: "size_as_int (sk_retry_buf sk) = int (length (sk_retry_buf sk))"
    using inv by (intro size_as_int_eq) linarith
  moreover have "length (rp_waiting (replay b (kp_calls (sk_producer sk)))) = length (sk_retry_buf sk)"
    using inv by (metis length_map)
  moreover have "message ser fid e = (fid (ev_key e), payload)" by (simp add: message_def Inr)
  ultimately show ?thesis
    using inv Inr p calls producer_counts_produce [OF _ p]
    by (auto simp: replayed_def consume_def attempt_produce_def sk_metric_def producer_counts_other Let_def)
qed

interpretation counted: sink_ledger ser fid rk "\<lambda>pc P. replayed ser fid rk m b pc" for ser fid rk m b
proof
  fix pc pc' sk e es t q again sk'
  assume inv: "replayed ser fid rk m b pc sk"
  show "replayed ser fid rk m b pc' sk" if "idle_move pc pc'"
    using inv that by (cases pc) (auto simp: replayed_def Let_def)
  show "replayed ser fid rk m b pc (sink_flush rk t sk)"
    using inv poll_calls(2) [of rk t "sk_producer sk"]
    by (auto simp: replayed_def sink_flush_def producer_counts_flush Let_def)
  show "replayed ser fid rk m b pc (sk\<lparr>sk_queue := q\<rparr>)"
    using inv by (simp add: replayed_def)
next
  fix sk e es again sk'
  assume "replayed ser fid rk m b At_Retry sk"
  then show "replayed ser fid rk m b At_Pop sk" if "sk_retry_buf sk = []"
    using that by (auto simp: replayed_def Let_def)
next
  fix sk
  assume "replayed ser fid rk m b At_Poll sk"
  then show "replayed ser fid rk m b At_Loop (sk\<lparr>sk_producer := poll rk 0 (sk_producer sk)\<rparr>)"
    by (simp add: replayed_def poll_calls producer_counts_poll Let_def)
qed (rule replayed_retry replayed_consume; assumption)+

lemma counters_new:
  assumes "valid_capacity n" and "valid_config cfg" and "kp_calls kp = []" and "kp_metrics kp = m"
  shows "on_ledger (\<lambda>pc P. replayed ser fid rk m (cfg_sr_buffer_size cfg) pc) n [] (At_Loop, new_sink n kp cfg)"
  using assms
  by (simp add: on_ledger_def replayed_def new_sink_def AvroKafkaSink_def ring_ok_def eq_valid_new
      eq_contents_new producer_counts_def valid_config_def)

end
