(* ===== verification/Pipeline.thy ===== *)
theory Pipeline
  imports Flow_Table_Spec Packet_Source Avro_Serializer Schema_Registry Sink_Counters
begin

section \<open>The program (main.cpp)\<close>

text \<open>
  Start-up, the capture with its timer and sink threads, and the shutdown sequence.  The
  libraries are the parameters of the components, gathered in two records, one for the
  start-up and one for the run.  The timer thread takes the flow table's mutex for each sweep, so
  a run of the capture is a sequence of packets with sweeps in between; the sweeps that
  precede each packet are the environment's choice.  The sink thread makes single steps (\<open>sink_micro\<close>)
  in between: how many before each push, before the flush, and before stop is requested is the
  environment's choice as well.
\<close>

subsection \<open>Helpers\<close>

definition schema_path :: "string \<Rightarrow> string" where
  "schema_path PACKETPIPE_SCHEMA_DIR = PACKETPIPE_SCHEMA_DIR @ ''/FlowEvent.avsc''"

datatype spdlog_level = Level_err | Level_warn | Level_debug | Level_info

definition setup_logger :: "string \<Rightarrow> spdlog_level" where
  "setup_logger level =
     (if level = ''error'' then Level_err
      else if level = ''warn'' then Level_warn
      else if level = ''debug'' then Level_debug
      else Level_info)"

text \<open>The globals the signal handler uses; the source is null before it has been created.\<close>

record globals =
  g_shutdown :: bool
  g_source_ptr :: "source option"

definition signal_handler :: "globals \<Rightarrow> 's world \<Rightarrow> globals \<times> 's world" where
  "signal_handler g w =
     (let g = g\<lparr>g_shutdown := True\<rparr>
      in (g, case g_source_ptr g of None \<Rightarrow> w | Some src \<Rightarrow> stop_source src w))"

record timespec =
  ts_sec :: i64
  ts_nsec :: i64

definition now_us :: "timespec \<Rightarrow> i64" where
  "now_us ts = ts_sec ts * 1000000 + word_of_int (sint (ts_nsec ts) sdiv 1000)"

text \<open>
  The interval of the timer thread in milliseconds; the product is an \<open>int\<close>, and \<open>None\<close> is its
  overflow, which is undefined.
\<close>

definition timer_interval_ms :: "app_config \<Rightarrow> int option" where
  "timer_interval_ms cfg =
     (let v = max 1 (min (cfg_stats_interval_sec cfg) (cfg_flow_timeout_sec cfg)) * 500
      in if v \<le> INT_MAX then Some v else None)"

text \<open>
  The loop of the timer thread.  Each element gives, for one iteration, whether stop has been
  requested before and after the sleep, and the time.
\<close>

fun timer_loop ::
  "(flow_event \<Rightarrow> 'q \<Rightarrow> bool \<times> 'q) \<Rightarrow> (bool \<times> bool \<times> timespec) list \<Rightarrow> 'q flow_table \<Rightarrow> 'q flow_table" where
  "timer_loop on_event [] ft = ft"
| "timer_loop on_event ((stop, stop_after_sleep, ts) # its) ft =
     (if stop then ft
      else (let ft = (if \<not> stop_after_sleep then timer_sweep on_event (now_us ts) ft else ft)
            in timer_loop on_event its ft))"

subsection \<open>Flow table, queue and sink\<close>

text \<open>
  What lies behind the callback of the flow table: the sink, with its queue and its thread, the history of
  the events the queue has accepted, and, for each push to come, how many steps the thread makes before it.
\<close>

record pipe =
  pipe_accepted :: "flow_event list"
  pipe_thread :: sink_thread
  pipe_schedule :: "nat list"

definition pipe_push ::
  "size_t \<Rightarrow> (flow_event \<Rightarrow> string + u8 list) \<Rightarrow> (flow_key \<Rightarrow> string) \<Rightarrow> rk_lib \<Rightarrow> flow_event \<Rightarrow>
   pipe \<Rightarrow> bool \<times> pipe" where
  "pipe_push n ser fid rk evt p =
     (let (k, rest) = (case pipe_schedule p of [] \<Rightarrow> (0, []) | k # ks \<Rightarrow> (k, ks));
          (pc, sk) = sink_steps n ser fid rk False k (pipe_thread p);
          (ok, sk) = sink_push n evt sk
      in (ok, p\<lparr>pipe_accepted := (if ok then pipe_accepted p @ [evt] else pipe_accepted p),
                pipe_thread := (pc, sk), pipe_schedule := rest\<rparr>))"

text \<open>
  The callback of the packet source; before each packet the timer thread sweeps at the times
  the environment gives.
\<close>

type_synonym 'q capture = "'q flow_table \<times> timespec list list"

abbreviation timer_runs ::
  "(flow_event \<Rightarrow> 'q \<Rightarrow> bool \<times> 'q) \<Rightarrow> timespec list \<Rightarrow> 'q flow_table \<Rightarrow> 'q flow_table" where
  "timer_runs f tss ft \<equiv> timer_loop f (map (\<lambda>ts. (False, False, ts)) tss) ft"

fun capture_packet ::
  "(flow_key \<Rightarrow> flow_map \<Rightarrow> nat) \<Rightarrow> (flow_event \<Rightarrow> 'q \<Rightarrow> bool \<times> 'q) \<Rightarrow> parsed_packet \<Rightarrow>
   'q capture \<Rightarrow> 'q capture" where
  "capture_packet place f pkt (ft, []) = (process place f pkt ft, [])"
| "capture_packet place f pkt (ft, tss # rest) = (process place f pkt (timer_runs f tss ft), rest)"

definition count_dropped :: "'q capture \<Rightarrow> 'q capture" where
  "count_dropped c = (on_metrics (Increment PacketsDropped) (fst c), snd c)"

subsection \<open>Start-up\<close>

text \<open>The libraries.\<close>

record ('j, 'c) libraries =
  l_exposer :: "string \<Rightarrow> string option"
  l_http_get :: "string \<Rightarrow> int \<Rightarrow> string \<Rightarrow> http_result"
  l_json_parse :: "string \<Rightarrow> 'j option"
  l_json_member :: "'j \<Rightarrow> string \<Rightarrow> 'j option"
  l_json_int32 :: "'j \<Rightarrow> i32 option"
  l_json_what :: string
  l_stoi_what :: "stoi_error \<Rightarrow> string"
  l_read_file :: "string \<Rightarrow> string option"
  l_compile_schema :: "string \<Rightarrow> string + avro_value list"
  l_schema_dir :: string
  l_rk_set :: "settings \<Rightarrow> string \<Rightarrow> string \<Rightarrow> string option"
  l_rk_set_dr_cb :: "settings \<Rightarrow> string option"
  l_rk_create :: "settings \<Rightarrow> string option"
  l_cap_get_proc :: "'c option"
  l_cap_get_flag :: "'c \<Rightarrow> bool option"

text \<open>
  \<open>what()\<close> of an exception of the registry client; the texts of the exceptions that \<open>std::stoi\<close> and the JSON library
  throw are theirs.  A run constructs one client.
\<close>

fun registry_what :: "('j, 'c) libraries \<Rightarrow> registry_error \<Rightarrow> string" where
  "registry_what lib (Unavailable msg) = msg"
| "registry_what lib (Bad_Port e) = l_stoi_what lib e"
| "registry_what lib Json_Error = l_json_what lib"

text \<open>Everything up to the Kafka producer, and the packet source, between which the sink is created.\<close>

record services =
  sv_metrics :: metrics_registry
  sv_serializer :: avro_serializer
  sv_producer :: kafka_producer

definition start_services :: "('j, 'c) libraries \<Rightarrow> app_config \<Rightarrow> string + services" where
  "start_services lib cfg =
     (let metrics = MetricsRegistry (cfg_version cfg) (cfg_metrics_port cfg) in
      case l_exposer lib (mr_exposer_address metrics) of
        Some err \<Rightarrow> Inl err
      | None \<Rightarrow>
      (case SchemaRegistryClient (l_http_get lib) (l_json_parse lib) (l_json_member lib)
              (l_json_int32 lib) (cfg_schema_registry_url cfg) ''packetpipe-FlowEvent-value'' of
        Inl e \<Rightarrow> Inl (registry_what lib e)
      | Inr schema_id \<Rightarrow>
      bind_result (AvroSerializer (l_read_file lib) (l_compile_schema lib)
        (schema_path (l_schema_dir lib)) schema_id) (\<lambda>avro_ser.
      bind_result (KafkaProducer (l_rk_set lib) (l_rk_set_dr_cb lib) (l_rk_create lib)
        (l_read_file lib) cfg metrics_zero) (\<lambda>kafka.
      Inr \<lparr>sv_metrics = metrics, sv_serializer = avro_ser, sv_producer = kafka\<rparr>))))"

definition create_source :: "('j, 'c) libraries \<Rightarrow> app_config \<Rightarrow> string + source" where
  "create_source lib cfg =
     (if cfg_pcap_file cfg \<noteq> [] then
        Inr (PcapFileSource (cfg_pcap_file cfg) (cfg_bpf_filter cfg) True)
      else LiveCaptureSource (has_cap_net_raw (l_cap_get_proc lib) (l_cap_get_flag lib))
        (cfg_iface cfg) (cfg_bpf_filter cfg) True)"

record started = services +
  st_source :: source

definition startup :: "('j, 'c) libraries \<Rightarrow> app_config \<Rightarrow> string + started" where
  "startup lib cfg =
     bind_result (start_services lib cfg) (\<lambda>sv.
     bind_result (create_source lib cfg) (\<lambda>source.
       Inr \<lparr>sv_metrics = sv_metrics sv, sv_serializer = sv_serializer sv, sv_producer = sv_producer sv,
            st_source = source\<rparr>))"

subsection \<open>The run of the pipeline\<close>

text \<open>
  What the environment decides during the run: libpcap, librdkafka and the Avro encoder, the place of
  new entries in the hash map, the signals (and, for a live capture, the fuel of the dispatch
  loop), the schedule of the threads (the sweeps before each packet and between the last one and the drain; the steps of the sink before each push, before
  the flush, and before stop is requested), and the clock at the drain.  After the drain the timer thread may
  run until it is joined.
\<close>

record env =
  env_pcap :: pcap_lib
  env_rk :: rk_lib
  env_ntop6 :: "u8 list \<Rightarrow> string"
  env_encode :: "avro_value list \<Rightarrow> string + u8 list"
  env_place :: "flow_key \<Rightarrow> flow_map \<Rightarrow> nat"
  env_sig :: "pcap_event list \<Rightarrow> bool"
  env_fuel :: nat
  env_sweeps :: "timespec list list"
  env_steps :: "nat list"
  env_last_sweeps :: "timespec list"
  env_now :: timespec
  env_late :: "(bool \<times> bool \<times> timespec) list"
  env_flush_steps :: nat
  env_stop_steps :: nat

text \<open>
  \<open>Still_Running\<close>: the fuel of the live capture did not suffice.  \<open>Undefined_Read\<close>: the decoder read
  outside a packet.
\<close>

datatype 'a result = Still_Running | Undefined_Read | Ended 'a

definition env_ser :: "env \<Rightarrow> avro_serializer \<Rightarrow> flow_event \<Rightarrow> string + u8 list" where
  "env_ser env avro_ser = serialize (env_ntop6 env) (env_encode env) avro_ser"

text \<open>The callback of the table, which also records the events (\<open>logging\<close>).\<close>

definition on_event ::
  "env \<Rightarrow> avro_serializer \<Rightarrow> flow_event \<Rightarrow> pipe \<times> (flow_event \<times> bool) list \<Rightarrow>
   bool \<times> pipe \<times> (flow_event \<times> bool) list" where
  "on_event env avro_ser =
     logging (pipe_push kDefaultEventQueueCapacity (env_ser env avro_ser)
       (flow_id (env_ntop6 env)) (env_rk env))"

text \<open>\<open>source->run\<close>: a file source cannot be kept running.\<close>

definition source_run ::
  "env \<Rightarrow> app_config \<Rightarrow> (parsed_packet \<Rightarrow> 's \<Rightarrow> 's) \<Rightarrow> ('s \<Rightarrow> 's) \<Rightarrow> source \<Rightarrow> 's world \<Rightarrow>
   (outcome \<times> source \<times> 's world) option" where
  "source_run env cfg callback dropped src w =
     (if cfg_pcap_file cfg \<noteq> [] then Some (file_run (env_pcap env) (env_sig env) callback dropped src w)
      else live_run (env_pcap env) (env_sig env) callback dropped (env_fuel env) src w)"

text \<open>
  After \<open>run\<close> has returned the table is drained and the producer flushed; an exception skips both.  In
  either case the timer thread is joined next.
\<close>

definition env_steps_of :: "env \<Rightarrow> avro_serializer \<Rightarrow> nat \<Rightarrow> sink_thread \<Rightarrow> sink_thread" where
  "env_steps_of env avro_ser =
     sink_steps kDefaultEventQueueCapacity (env_ser env avro_ser) (flow_id (env_ntop6 env)) (env_rk env) False"

definition flush_sink :: "env \<Rightarrow> avro_serializer \<Rightarrow> pipe \<Rightarrow> pipe" where
  "flush_sink env avro_ser p =
     (let (pc, sk) = env_steps_of env avro_ser (env_flush_steps env) (pipe_thread p)
      in p\<lparr>pipe_thread := (pc, sink_flush (env_rk env) 9000 sk)\<rparr>)"

definition shutdown ::
  "env \<Rightarrow> avro_serializer \<Rightarrow> outcome \<Rightarrow> (pipe \<times> (flow_event \<times> bool) list) flow_table \<Rightarrow>
   (pipe \<times> (flow_event \<times> bool) list) flow_table" where
  "shutdown env avro_ser out ft =
     (case out of
        Runtime_Error msg \<Rightarrow> timer_loop (on_event env avro_ser) (env_late env) ft
      | Returned \<Rightarrow>
          (let ft = timer_runs (on_event env avro_ser) (env_last_sweeps env) ft;
               ft = drain_all (on_event env avro_ser) (now_us (env_now env)) ft;
               ft = timer_loop (on_event env avro_ser) (env_late env) ft
           in ft\<lparr>ft_sink := map_prod (flush_sink env avro_ser) id (ft_sink ft)\<rparr>))"

text \<open>The destructor of the sink: stop is requested, wherever its thread stands, and the thread is joined.\<close>

definition destroy_sink :: "env \<Rightarrow> avro_serializer \<Rightarrow> pipe \<Rightarrow> pipe option" where
  "destroy_sink env avro_ser p =
     (case sink_join kDefaultEventQueueCapacity (env_ser env avro_ser) (flow_id (env_ntop6 env)) (env_rk env)
             (env_steps_of env avro_ser (env_stop_steps env) (pipe_thread p)) of
        None \<Rightarrow> None
      | Some t \<Rightarrow> Some (p\<lparr>pipe_thread := t\<rparr>))"

record finished =
  fin_table :: "(pipe \<times> (flow_event \<times> bool) list) flow_table"
  fin_calls :: "pcap_event list"

text \<open>The queue and the sink, whose constructor starts the thread, and the table in front of them.\<close>

definition new_pipe :: "env \<Rightarrow> app_config \<Rightarrow> kafka_producer \<Rightarrow> pipe" where
  "new_pipe env cfg kafka =
     \<lparr>pipe_accepted = [],
      pipe_thread = (At_Loop, AvroKafkaSink kafka (eq_new kDefaultEventQueueCapacity default_flow_event) cfg),
      pipe_schedule = env_steps env\<rparr>"

definition new_table :: "env \<Rightarrow> app_config \<Rightarrow> kafka_producer \<Rightarrow>
    (pipe \<times> (flow_event \<times> bool) list) flow_table" where
  "new_table env cfg kafka = FlowTable cfg metrics_zero (new_pipe env cfg kafka, [])"

definition run_pipeline :: "env \<Rightarrow> app_config \<Rightarrow> started \<Rightarrow> (outcome \<times> finished) result" where
  "run_pipeline env cfg st =
     (case source_run env cfg (capture_packet (env_place env) (on_event env (sv_serializer st)))
             count_dropped (st_source st)
             \<lparr>w_calls = [], w_app = Decoded (new_table env cfg (sv_producer st), env_sweeps env)\<rparr> of
        None \<Rightarrow> Still_Running
      | Some (out, src, w) \<Rightarrow>
          (case w_app w of
             Decoded (ft, sweeps) \<Rightarrow>
               (let ft = shutdown env (sv_serializer st) out ft;
                    (src, w) = destroy_source (env_sig env) src w
                in case destroy_sink env (sv_serializer st) (fst (ft_sink ft)) of
                     None \<Rightarrow> Still_Running
                   | Some p \<Rightarrow>
                       Ended (out, \<lparr>fin_table = ft\<lparr>ft_sink := (p, snd (ft_sink ft))\<rparr>,
                                    fin_calls = w_calls w\<rparr>))
           | _ \<Rightarrow> Undefined_Read))"

text \<open>
  \<open>main\<close>: the exit status, what is printed or logged on failure, and how the pipeline ended.  If the source cannot be
  created the sink is destroyed before the exception is caught.
\<close>

datatype exit_message = Stderr string | Log_Error string | No_Message

definition main ::
  "('j, 'c) libraries \<Rightarrow> env \<Rightarrow> string list \<Rightarrow> (int \<times> exit_message \<times> finished option) result" where
  "main lib env argv =
     (case parse argv of
        Inl e \<Rightarrow> Ended (1, Stderr (''[error] '' @ what e @ [newline]), None)
      | Inr cfg \<Rightarrow>
          (case start_services lib cfg of
             Inl msg \<Rightarrow> Ended (1, Log_Error msg, None)
           | Inr sv \<Rightarrow>
          (case create_source lib cfg of
             Inl msg \<Rightarrow>
               (case destroy_sink env (sv_serializer sv) (new_pipe env cfg (sv_producer sv)) of
                  None \<Rightarrow> Still_Running
                | Some p \<Rightarrow> Ended (1, Log_Error msg, None))
           | Inr source \<Rightarrow>
               (case run_pipeline env cfg
                       \<lparr>sv_metrics = sv_metrics sv, sv_serializer = sv_serializer sv,
                        sv_producer = sv_producer sv, st_source = source\<rparr> of
                  Still_Running \<Rightarrow> Still_Running
                | Undefined_Read \<Rightarrow> Undefined_Read
                | Ended (Runtime_Error msg, fin) \<Rightarrow> Ended (1, Log_Error msg, Some fin)
                | Ended (Returned, fin) \<Rightarrow> Ended (0, No_Message, Some fin)))))"

end
