(* ===== verification/Pipeline_Runs.thy ===== *)
theory Pipeline_Runs
  imports Pipeline Flow_Table_Counts
begin

section \<open>The capture as a run of the flow table\<close>

text \<open>
  A capture is a run of the flow table, to which the packets that do not decode only add a
  drop each; so everything proved of all runs holds of it.  The callback of the table keeps
  the ledger of the sink, whatever the schedule of the sink thread.
\<close>

subsection \<open>The capture as a run\<close>

definition decoded :: "captured \<Rightarrow> parsed_packet option" where
  "decoded p =
     (case decode (Some (snd p)) (ph_caplen (fst p)) (ph_ts (fst p)) of
        Decoded pkt \<Rightarrow> Some pkt | _ \<Rightarrow> None)"

text \<open>The packets the decoder accepts, in order, and the number of those it does not.\<close>

definition decodable :: "captured list \<Rightarrow> parsed_packet list" where
  "decodable ps = List.map_filter decoded ps"

definition undecodable :: "captured list \<Rightarrow> nat" where
  "undecodable ps = length (filter (\<lambda>p. decoded p = None) ps)"

text \<open>The calls on the table: those of the timer thread, and each packet after the sweeps before it.\<close>

fun timer_calls :: "(bool \<times> bool \<times> timespec) list \<Rightarrow> ft_call list" where
  "timer_calls [] = []"
| "timer_calls ((stop, stop_after_sleep, ts) # its) =
     (if stop then []
      else (if stop_after_sleep then [] else [Sweep (now_us ts)]) @ timer_calls its)"

lemma timer_loop_run: "timer_loop f its ft = run place f (timer_calls its) ft"
  by (induction its arbitrary: ft rule: timer_calls.induct) simp_all

fun capture_calls :: "parsed_packet list \<Rightarrow> timespec list list \<Rightarrow> ft_call list" where
  "capture_calls [] sweeps = []"
| "capture_calls (pkt # pkts) [] = Process pkt # capture_calls pkts []"
| "capture_calls (pkt # pkts) (tss # sweeps) =
     timer_calls (map (\<lambda>ts. (False, False, ts)) tss) @ Process pkt # capture_calls pkts sweeps"

lemma decodable_simps [simp]:
  "decodable [] = []" "undecodable [] = 0"
  "decoded p = None \<Longrightarrow> decodable (p # ps) = decodable ps"
  "decoded p = None \<Longrightarrow> undecodable (p # ps) = Suc (undecodable ps)"
  "decoded p = Some pkt \<Longrightarrow> decodable (p # ps) = pkt # decodable ps"
  "decoded p = Some pkt \<Longrightarrow> undecodable (p # ps) = undecodable ps"
  by (simp_all add: decodable_def undecodable_def map_filter_simps)

lemma length_decodable: "length ps = length (decodable ps) + undecodable ps"
proof (induction ps)
  case (Cons p ps)
  then show ?case by (cases "decoded p") simp_all
qed simp

lemma deliver_decoded:
  "deliver f g True p s = (case decoded p of None \<Rightarrow> g s | Some pkt \<Rightarrow> f pkt s)"
  by (simp add: deliver_def decoded_def split: decoding.split)

lemma capture_is_run:
  "fst (fold (deliver (capture_packet place f) count_dropped True) ps (drops d ft, sweeps)) =
    drops (d + undecodable ps) (run place f (capture_calls (decodable ps) sweeps) ft)"
proof (induction ps arbitrary: d ft sweeps)
  case (Cons p ps)
  show ?case
  proof (cases "decoded p")
    case None
    then show ?thesis
      using Cons.IH [of "Suc d" ft sweeps]
      by (simp add: deliver_decoded count_dropped_def Increment_drops)
  next
    case (Some pkt)
    show ?thesis
    proof (cases sweeps)
      case Nil
      then show ?thesis using Some Cons.IH [of d _ "[]"] by (simp add: deliver_decoded drops_process)
    next
      case (Cons tss rest)
      have "process place f pkt (timer_runs f tss (drops d ft)) =
          drops d (process place f pkt (run place f (timer_calls (map (\<lambda>ts. (False, False, ts)) tss)) ft))"
        by (simp add: timer_loop_run [of _ _ _ place] drops_run drops_process)
      then show ?thesis using Some Cons Cons.IH [of d _ rest] by (simp add: deliver_decoded)
    qed
  qed
qed simp

subsection \<open>The received packets\<close>

definition processed :: "ft_call list \<Rightarrow> nat" where
  "processed cs = length (filter (\<lambda>c. case c of Process _ \<Rightarrow> True | _ \<Rightarrow> False) cs)"

lemma processed_simps [simp]:
  "processed [] = 0" "processed (cs @ ds) = processed cs + processed ds"
  "processed (Process pkt # cs) = Suc (processed cs)" "processed (Sweep t # cs) = processed cs"
  "processed (Drain t # cs) = processed cs"
  by (simp_all add: processed_def)

lemma processed_timer [simp]: "processed (timer_calls its) = 0"
  by (induction its rule: timer_calls.induct) simp_all

lemma processed_capture [simp]: "processed (capture_calls pkts sweeps) = length pkts"
  by (induction pkts sweeps rule: capture_calls.induct) simp_all

lemma received_stats_all:
  "ft_metrics (fold (\<lambda>e. emit f (stats_event now (snd e))) es ft) PacketsReceived = ft_metrics ft PacketsReceived"
  by (induction es arbitrary: ft) (simp_all add: ft_metrics_emit)

lemma received_expire_flow: "ft_metrics (expire_flow f e now r ft) PacketsReceived = ft_metrics ft PacketsReceived"
  by (cases e) (simp add: expire_flow_eq ft_metrics_emit)

lemma received_expire_all:
  "ft_metrics (expire_all f now es ft) PacketsReceived = ft_metrics ft PacketsReceived"
  unfolding expire_all_def by (induction es arbitrary: ft) (simp_all add: received_expire_flow)

lemma received_expire_loop:
  "ft_metrics (expire_loop f now ks ft) PacketsReceived = ft_metrics ft PacketsReceived"
  by (induction ks arbitrary: ft) (simp_all add: received_expire_flow split: option.split)

lemma received_process:
  "ft_metrics (process place f pkt ft) PacketsReceived = ft_metrics ft PacketsReceived + 1"
  by (simp add: process_eq admit_def ft_metrics_emit ft_metrics_refuse received_expire_flow Let_def
      split: option.split)

lemma received_run:
  "ft_metrics (run place f cs ft) PacketsReceived = ft_metrics ft PacketsReceived + int (processed cs)"
proof (induction cs arbitrary: ft)
  case (Cons c cs)
  then show ?case
    by (cases c) (simp_all add: received_process timer_sweep_def sweep_loop_eq received_stats_all
        received_expire_loop drain_all_eq received_expire_all Let_def)
qed simp

subsection \<open>What the callback keeps\<close>

text \<open>
  A statement about the sink that every call of the callback keeps holds after every run: a
  contract of the callback gives an invariant of the table.
\<close>

locale sink_contract =
  fixes place :: "flow_key \<Rightarrow> flow_map \<Rightarrow> nat"
    and f :: "flow_event \<Rightarrow> 'q \<Rightarrow> bool \<times> 'q"
    and J :: "'q \<Rightarrow> bool"
  assumes kept: "J q \<Longrightarrow> J (snd (f e q))"

sublocale sink_contract \<subseteq> table_invariant place f "\<lambda>ft. fm_ok (ft_flows ft) \<and> J (ft_sink ft)"
  by unfold_locales
    (auto simp: kept expire_flow_eq admit_def refuse_def on_metrics_def warn_def store_def Let_def
      fm.ok_erase fm_ok_emplace fm.ok_assign)

text \<open>
  What is behind the callback is a reachable state of the sink, whose thread is in its loop, with the accepted events,
  in the order of their emission, as its history.
\<close>

definition accepted :: "(flow_event \<times> bool) list \<Rightarrow> flow_event list" where
  "accepted log = map fst (filter snd log)"

definition in_loop :: "sink_thread \<Rightarrow> bool" where
  "in_loop t \<longleftrightarrow> fst t \<notin> {At_Flush, Thread_Ended}"

definition pipe_ok ::
  "size_t \<Rightarrow> (flow_event \<Rightarrow> string + u8 list) \<Rightarrow> (flow_key \<Rightarrow> string) \<Rightarrow> rk_lib \<Rightarrow> avro_kafka_sink \<Rightarrow>
   pipe \<times> (flow_event \<times> bool) list \<Rightarrow> bool" where
  "pipe_ok n ser fid rk sk0 s \<longleftrightarrow>
     sink_reach n ser fid rk sk0 (pipe_accepted (fst s)) (pipe_thread (fst s)) \<and>
     in_loop (pipe_thread (fst s)) \<and> pipe_accepted (fst s) = accepted (snd s)"

lemma in_loop_micro: "in_loop t \<Longrightarrow> in_loop (sink_micro n ser fid rk False t)"
  by (cases "(n, ser, fid, rk, False, t)" rule: sink_micro.cases)
    (auto simp: in_loop_def pop_step_def Let_def split: list.split prod.split option.split)

lemma in_loop_steps: "in_loop t \<Longrightarrow> in_loop (sink_steps n ser fid rk False k t)"
  by (induction k arbitrary: t) (simp_all add: sink_steps_simps in_loop_micro)

lemma pipe_push_ok:
  assumes "pipe_ok n ser fid rk sk0 s"
  shows "pipe_ok n ser fid rk sk0 (snd (logging (pipe_push n ser fid rk) e s))"
proof -
  obtain p log where s: "s = (p, log)" by fastforce
  obtain k rest where k: "(case pipe_schedule p of [] \<Rightarrow> (0, []) | k # ks \<Rightarrow> (k, ks)) = (k, rest)"
    by fastforce
  obtain pc sk where steps: "sink_steps n ser fid rk False k (pipe_thread p) = (pc, sk)" by fastforce
  obtain ok sk' where push: "sink_push n e sk = (ok, sk')" by fastforce
  have "sink_reach n ser fid rk sk0 (pipe_accepted p) (pc, sk)" "in_loop (pc, sk)"
    using assms sink_reach_steps [of n ser fid rk sk0 "pipe_accepted p" "pipe_thread p" False k]
      in_loop_steps [of "pipe_thread p" n ser fid rk k]
    by (auto simp: s pipe_ok_def steps)
  then have "sink_reach n ser fid rk sk0 (if ok then pipe_accepted p @ [e] else pipe_accepted p) (pc, sk')"
    and "in_loop (pc, sk')"
    using sink_reach.pushes [OF _ push] by (auto simp: in_loop_def)
  moreover have "snd (logging (pipe_push n ser fid rk) e s) =
      (p\<lparr>pipe_accepted := (if ok then pipe_accepted p @ [e] else pipe_accepted p),
         pipe_thread := (pc, sk'), pipe_schedule := rest\<rparr>, log @ [(e, ok)])"
    by (simp add: s logging_def pipe_push_def k steps push)
  ultimately show ?thesis using assms by (simp add: pipe_ok_def accepted_def s)
qed

interpretation behind: sink_contract place "logging (pipe_push n ser fid rk)" "pipe_ok n ser fid rk sk0"
  for place n ser fid rk sk0
  by unfold_locales (rule pipe_push_ok)

end
