(* ===== verification/Whole_Program.thy ===== *)
theory Whole_Program
  imports Pipeline_Runs
begin

section \<open>The program from its arguments to its exit status\<close>

text \<open>
  The start-up, and the whole run: \<open>main\<close> ends, every packet libpcap handed over is
  counted in an event or by \<open>packets_dropped\<close>, and every event has its place in the ledger of the
  sink.  Everything is put together from the contracts of the components.
\<close>

subsection \<open>Start-up\<close>

text \<open>The start-up succeeds when every step does, in the order of \<open>main\<close>.\<close>

lemma startup_Inr_iff:
  "startup lib cfg = Inr st \<longleftrightarrow>
    l_exposer lib (mr_exposer_address (sv_metrics st)) = None \<and>
    sv_metrics st = MetricsRegistry (cfg_version cfg) (cfg_metrics_port cfg) \<and>
    (\<exists>schema_id.
      SchemaRegistryClient (l_http_get lib) (l_json_parse lib) (l_json_member lib) (l_json_int32 lib)
        (cfg_schema_registry_url cfg) ''packetpipe-FlowEvent-value'' = Inr schema_id \<and>
      AvroSerializer (l_read_file lib) (l_compile_schema lib) (schema_path (l_schema_dir lib)) schema_id =
        Inr (sv_serializer st)) \<and>
    KafkaProducer (l_rk_set lib) (l_rk_set_dr_cb lib) (l_rk_create lib) (l_read_file lib) cfg metrics_zero =
      Inr (sv_producer st) \<and>
    (if cfg_pcap_file cfg \<noteq> [] then
       st_source st = PcapFileSource (cfg_pcap_file cfg) (cfg_bpf_filter cfg) True
     else LiveCaptureSource (has_cap_net_raw (l_cap_get_proc lib) (l_cap_get_flag lib))
       (cfg_iface cfg) (cfg_bpf_filter cfg) True = Inr (st_source st))"
  by (cases st) (auto simp: startup_def start_services_def create_source_def bind_result_Inr_iff Let_def
      split: option.splits sum.splits)

text \<open>\<open>main\<close> in terms of the whole start-up.\<close>

lemma main_started:
  assumes "parse argv = Inr cfg" and "startup lib cfg = Inr st"
  shows "main lib env argv =
    (case run_pipeline env cfg st of
       Still_Running \<Rightarrow> Still_Running
     | Undefined_Read \<Rightarrow> Undefined_Read
     | Ended (Runtime_Error msg, fin) \<Rightarrow> Ended (1, Log_Error msg, Some fin)
     | Ended (Returned, fin) \<Rightarrow> Ended (0, No_Message, Some fin))"
  using assms by (auto simp: main_def startup_def bind_result_Inr_iff)

lemma main_not_started:
  assumes "parse argv = Inr cfg" and "startup lib cfg = Inl msg"
  shows "main lib env argv =
    (case start_services lib cfg of
       Inl e \<Rightarrow> Ended (1, Log_Error msg, None)
     | Inr sv \<Rightarrow>
         (case destroy_sink env (sv_serializer sv) (new_pipe env cfg (sv_producer sv)) of
            None \<Rightarrow> Still_Running
          | Some p \<Rightarrow> Ended (1, Log_Error msg, None)))"
  using assms by (cases "start_services lib cfg"; cases "create_source lib cfg")
    (auto simp: main_def startup_def bind_result_def)

lemma startup_source_fails:
  "start_services lib cfg = Inr sv \<Longrightarrow> create_source lib cfg = Inl msg \<Longrightarrow> startup lib cfg = Inl msg"
  by (simp add: startup_def bind_result_def)

lemma services_started:
  assumes "start_services lib cfg = Inr sv"
  shows "kp_calls (sv_producer sv) = []" "kp_metrics (sv_producer sv) = metrics_zero"
  using assms
  by (auto simp: start_services_def bind_result_Inr_iff Let_def KafkaProducer_Inr split: option.splits sum.splits
      dest: KafkaProducer_Inr)

lemma created_live_source:
  "LiveCaptureSource has_cap iface bpf_filter m = Inr src \<Longrightarrow>
    has_cap \<and> src = \<lparr>src_name = iface, src_bpf_filter = bpf_filter, src_metrics = m, src_handle = None\<rparr>"
  by (auto simp: LiveCaptureSource_def split: if_splits)

lemma created_serializer:
  "AvroSerializer read_file compile_schema path schema_id = Inr ser \<Longrightarrow> as_schema_id ser = schema_id"
  by (auto simp: AvroSerializer_def split: option.splits sum.splits)

lemma started_source:
  assumes "one_source cfg" and "startup lib cfg = Inr st"
  shows "src_bpf_filter (st_source st) = cfg_bpf_filter cfg \<and>
    (if cfg_pcap_file cfg \<noteq> []
     then cfg_iface cfg = [] \<and> src_name (st_source st) = cfg_pcap_file cfg
     else cfg_iface cfg \<noteq> [] \<and> src_name (st_source st) = cfg_iface cfg \<and>
       has_cap_net_raw (l_cap_get_proc lib) (l_cap_get_flag lib))"
  using assms unfolding startup_Inr_iff
  by (auto simp: one_source_def PcapFileSource_def dest: created_live_source split: if_splits)

lemma started_state:
  assumes "startup lib cfg = Inr st"
  shows "src_metrics (st_source st)" "kp_calls (sv_producer st) = []"
    "kp_metrics (sv_producer st) = metrics_zero" "src_handle (st_source st) = None"
  using assms unfolding startup_Inr_iff
  by (auto simp: PcapFileSource_def dest: created_live_source KafkaProducer_Inr split: if_splits)

lemma started_metrics:
  "mr_exposer_address (MetricsRegistry v p) = ''0.0.0.0:'' @ dec_string (unat p)"
  by (simp add: metrics_registry_defs)

subsection \<open>The source\<close>

text \<open>
  A live capture ends if \<open>pcap_breakloop\<close> does what libpcap documents and the signal handler runs once while the
  handle is open, by the point before a dispatch for which the fuel suffices.
\<close>

definition capture_ends :: "env \<Rightarrow> app_config \<Rightarrow> bool" where
  "capture_ends env cfg \<longleftrightarrow> cfg_pcap_file cfg \<noteq> [] \<or>
     breaks (env_pcap env) \<and> (\<exists>n < env_fuel env. stopped_by (env_sig env) n)"

lemma source_run_ends:
  assumes "capture_ends env cfg" and "w_calls w = []" and "src_handle src = None"
  shows "\<exists>out src' w'. source_run env cfg f g src w = Some (out, src', w')"
proof (cases "cfg_pcap_file cfg = []")
  case True
  with assms(1) obtain n where "breaks (env_pcap env)" "n < env_fuel env" "stopped_by (env_sig env) n"
    by (auto simp: capture_ends_def)
  with live_run_returns [OF this(1,3) assms(2,3), of f g] True show ?thesis
    by (auto simp: source_run_def Suc_le_eq)
next
  case False
  then show ?thesis
    by (cases "file_run (env_pcap env) (env_sig env) f g src w") (simp add: source_run_def)
qed

lemma source_run_delivers:
  assumes "whole_packets (env_pcap env)" and "w_calls w = []" and "w_app w = Decoded s" and "src_metrics src"
    and "source_run env cfg f g src w = Some (out, src', w')"
  shows "w_app w' = Decoded (fold (deliver f g True) (delivered (env_pcap env) (w_calls w')) s)"
proof -
  have start: "delivered_ok (env_pcap env) f g (src_metrics src) s w"
    using assms(2,3) by (simp add: delivered_ok_def)
  have "delivered_ok (env_pcap env) f g (src_metrics src) s w'"
    using assms(5) delivered_ok_file [OF assms(1) start] delivered_ok_live [OF assms(1) start]
    by (auto simp: source_run_def split: if_splits)
  with assms(4) show ?thesis by (simp add: delivered_ok_def)
qed

lemma delivered_interrupt [simp]: "delivered lib (w_calls (interrupt sig src w)) = delivered lib (w_calls w)"
  by (simp add: interrupt_def stop_source_def split: option.split)

lemma delivered_destroy: "delivered lib (w_calls (snd (destroy_source sig src w))) = delivered lib (w_calls w)"
  by (simp add: destroy_source_def close_handle_def pcap_call_def split: option.split)

subsection \<open>The run as a run of the flow table\<close>

text \<open>The calls between the last packet and the end of the drain, if there is one.\<close>

fun end_calls :: "env \<Rightarrow> outcome \<Rightarrow> ft_call list" where
  "end_calls env Returned =
     timer_calls (map (\<lambda>ts. (False, False, ts)) (env_last_sweeps env)) @ [Drain (now_us (env_now env))]"
| "end_calls env (Runtime_Error msg) = []"

lemma processed_end [simp]: "processed (end_calls env out) = 0"
  by (cases out) simp_all

definition run_calls :: "env \<Rightarrow> outcome \<Rightarrow> captured list \<Rightarrow> ft_call list" where
  "run_calls env out ps =
     capture_calls (decodable ps) (env_sweeps env) @
     end_calls env out @
     timer_calls (env_late env)"

definition run_table :: "env \<Rightarrow> app_config \<Rightarrow> started \<Rightarrow> outcome \<Rightarrow> captured list \<Rightarrow>
    (pipe \<times> (flow_event \<times> bool) list) flow_table" where
  "run_table env cfg st out ps =
     run (env_place env) (on_event env (sv_serializer st)) (run_calls env out ps)
       (new_table env cfg (sv_producer st))"

text \<open>The parameters of \<open>pipe_ok\<close> for the program, and what is left once the thread has been joined.\<close>

definition env_ok ::
  "env \<Rightarrow> 'a services_scheme \<Rightarrow> app_config \<Rightarrow> pipe \<times> (flow_event \<times> bool) list \<Rightarrow> bool" where
  "env_ok env sv cfg =
     pipe_ok kDefaultEventQueueCapacity (env_ser env (sv_serializer sv)) (flow_id (env_ntop6 env)) (env_rk env)
       (new_sink kDefaultEventQueueCapacity (sv_producer sv) cfg)"

definition sink_done ::
  "env \<Rightarrow> 'a services_scheme \<Rightarrow> app_config \<Rightarrow> pipe \<times> (flow_event \<times> bool) list \<Rightarrow> bool" where
  "sink_done env sv cfg s \<longleftrightarrow>
     on_ledger (\<lambda>pc. ledger (env_ser env (sv_serializer sv)) (flow_id (env_ntop6 env)) (env_rk env) metrics_zero
         (cfg_sr_buffer_size cfg))
       kDefaultEventQueueCapacity (accepted (snd s)) (pipe_thread (fst s)) \<and>
     replayed (env_ser env (sv_serializer sv)) (flow_id (env_ntop6 env)) (env_rk env) metrics_zero
       (cfg_sr_buffer_size cfg) Thread_Ended (snd (pipe_thread (fst s))) \<and>
     fst (pipe_thread (fst s)) = Thread_Ended \<and> eq_empty (sk_queue (snd (pipe_thread (fst s))))"

lemma capacity_ok: "valid_capacity kDefaultEventQueueCapacity"
  by (simp add: valid_capacity_def kDefaultEventQueueCapacity_def)

lemma new_table_fresh: "new_table env cfg kafka = fresh cfg (new_pipe env cfg kafka)"
  by (simp add: new_table_def fresh_def)

lemma sink_fresh [simp]: "ft_sink (fresh cfg q) = (q, [])"
  by (simp add: fresh_def FlowTable_def)

lemma received_fresh [simp]: "ft_metrics (fresh cfg q) PacketsReceived = 0"
  by (simp add: fresh_def FlowTable_def metrics_zero_def)

lemma env_ok_new: "env_ok env sv cfg (new_pipe env cfg (sv_producer sv), [])"
  by (simp add: env_ok_def pipe_ok_def new_pipe_def accepted_def in_loop_def)
    (simp add: sink_reach.started flip: new_sink_def)

lemma run_table_ok: "env_ok env st cfg (ft_sink (run_table env cfg st out ps))"
proof -
  have "fm_ok (ft_flows (run_table env cfg st out ps)) \<and>
      env_ok env st cfg (ft_sink (run_table env cfg st out ps))"
    unfolding run_table_def on_event_def env_ok_def
    by (rule behind.runs)
      (use env_ok_new [of env st cfg] in \<open>simp add: env_ok_def new_table_fresh fm_ok_def\<close>)
  then show ?thesis ..
qed

text \<open>Shutting down: the drain and the late sweeps are calls of the table, the flush is the sink's.\<close>

lemma env_steps_ok:
  assumes "env_ok env sv cfg (p, log)"
  shows "env_ok env sv cfg (p\<lparr>pipe_thread := env_steps_of env (sv_serializer sv) k (pipe_thread p)\<rparr>, log)"
  using assms by (auto simp: env_ok_def pipe_ok_def env_steps_of_def in_loop_steps intro: sink_reach_steps)

lemma flush_sink_ok:
  assumes "env_ok env sv cfg (p, log)"
  shows "env_ok env sv cfg (flush_sink env (sv_serializer sv) p, log)"
  using env_steps_ok [OF assms, of "env_flush_steps env"]
  by (auto simp: env_ok_def pipe_ok_def flush_sink_def in_loop_def intro: sink_reach.flushes split: prod.split)

lemma shutdown_run:
  assumes "env_ok env sv cfg (ft_sink ft')"
    and "ft' = run place (on_event env (sv_serializer sv))
      (end_calls env out @
       timer_calls (env_late env)) ft"
  shows "\<exists>p. shutdown env (sv_serializer sv) out (drops d ft) = (drops d ft')\<lparr>ft_sink := (p, snd (ft_sink ft'))\<rparr> \<and>
    env_ok env sv cfg (p, snd (ft_sink ft'))"
proof (cases out)
  case Returned
  then have "shutdown env (sv_serializer sv) out (drops d ft) =
      (drops d ft')\<lparr>ft_sink := map_prod (flush_sink env (sv_serializer sv)) id (ft_sink ft')\<rparr>"
    by (simp add: shutdown_def Returned assms(2) timer_loop_run [of _ _ _ place] drops_run drops_drain_all Let_def)
  with flush_sink_ok [of env sv cfg "fst (ft_sink ft')" "snd (ft_sink ft')"] assms(1) show ?thesis
    by (cases "ft_sink ft'") auto
next
  case (Runtime_Error msg)
  then have "shutdown env (sv_serializer sv) out (drops d ft) = drops d ft'"
    by (simp add: shutdown_def assms(2) timer_loop_run [of _ _ _ place] drops_run)
  then have "shutdown env (sv_serializer sv) out (drops d ft) =
      (drops d ft')\<lparr>ft_sink := (fst (ft_sink ft'), snd (ft_sink ft'))\<rparr>"
    by simp
  with assms(1) show ?thesis by (intro exI [of _ "fst (ft_sink ft')"]) simp
qed

text \<open>The sink is joined: its thread leaves, with an empty queue.\<close>

lemma destroy_sink_ends:
  assumes "env_ok env sv cfg (p, log)" and "valid_config cfg" and "kp_calls (sv_producer sv) = []"
    and "kp_metrics (sv_producer sv) = metrics_zero"
  shows "\<exists>p'. destroy_sink env (sv_serializer sv) p = Some p' \<and> sink_done env sv cfg (p', log)"
proof -
  let ?p = "p\<lparr>pipe_thread := env_steps_of env (sv_serializer sv) (env_stop_steps env) (pipe_thread p)\<rparr>"
  have ok: "env_ok env sv cfg (?p, log)" using assms(1) by (rule env_steps_ok)
  then have "sink_reach kDefaultEventQueueCapacity (env_ser env (sv_serializer sv)) (flow_id (env_ntop6 env))
      (env_rk env) (new_sink kDefaultEventQueueCapacity (sv_producer sv) cfg) (accepted log) (pipe_thread ?p)"
    by (auto simp: env_ok_def pipe_ok_def)
  note led = kept.holds_reachable [OF this ledger_new [OF capacity_ok assms(2-4)]]
    and counts = counted.holds_reachable [OF this counters_new [OF capacity_ok assms(2-4)]]
  have "in_loop (pipe_thread ?p)" using ok by (simp add: env_ok_def pipe_ok_def)
  with kept.joined [OF led] obtain sk where
    join: "sink_join kDefaultEventQueueCapacity (env_ser env (sv_serializer sv)) (flow_id (env_ntop6 env))
      (env_rk env) (pipe_thread ?p) = Some (Thread_Ended, sk)" and
    end_state: "on_ledger (\<lambda>pc. ledger (env_ser env (sv_serializer sv)) (flow_id (env_ntop6 env)) (env_rk env)
      metrics_zero (cfg_sr_buffer_size cfg)) kDefaultEventQueueCapacity (accepted log) (Thread_Ended, sk)"
      "eq_empty (sk_queue sk)"
    by (auto simp: in_loop_def)
  from counted.holds_join [OF counts join]
  have "replayed (env_ser env (sv_serializer sv)) (flow_id (env_ntop6 env)) (env_rk env) metrics_zero
      (cfg_sr_buffer_size cfg) Thread_Ended sk" by (simp add: on_ledger_def)
  with join end_state show ?thesis by (simp add: destroy_sink_def sink_done_def)
qed

lemma pipeline_ends:
  assumes "whole_packets (env_pcap env)" and "capture_ends env cfg" and "valid_config cfg"
    and "startup lib cfg = Inr st"
  obtains out fin ft ps p where
    "run_pipeline env cfg st = Ended (out, fin)" "ps = delivered (env_pcap env) (fin_calls fin)"
    "ft = run_table env cfg st out ps"
    "fin_table fin = (drops (undecodable ps) ft)\<lparr>ft_sink := (p, snd (ft_sink ft))\<rparr>"
    "sink_done env st cfg (p, snd (ft_sink ft))"
proof -
  let ?f = "on_event env (sv_serializer st)" and ?ft = "new_table env cfg (sv_producer st)"
  let ?w = "\<lparr>w_calls = [], w_app = Decoded (?ft, env_sweeps env)\<rparr>"
  note state = started_state [OF assms(4)]
  obtain out src w where run:
    "source_run env cfg (capture_packet (env_place env) ?f) count_dropped (st_source st) ?w = Some (out, src, w)"
    using source_run_ends [OF assms(2) _ state(4), of ?w "capture_packet (env_place env) ?f" count_dropped]
    by auto
  define ps where "ps = delivered (env_pcap env) (w_calls w)"
  define ft where "ft = run_table env cfg st out ps"
  have app: "w_app w = Decoded (fold (deliver (capture_packet (env_place env) ?f) count_dropped True) ps
      (?ft, env_sweeps env))"
    using source_run_delivers [OF assms(1) _ _ state(1) run] by (simp add: ps_def)
  obtain ft1 rest where cap: "fold (deliver (capture_packet (env_place env) ?f) count_dropped True) ps
      (?ft, env_sweeps env) = (ft1, rest)" by fastforce
  then have ft1: "ft1 = drops (undecodable ps)
      (run (env_place env) ?f (capture_calls (decodable ps) (env_sweeps env)) ?ft)"
    using capture_is_run [of "env_place env" ?f ps 0 ?ft "env_sweeps env"] by simp
  have ok: "env_ok env st cfg (ft_sink ft)" unfolding ft_def by (rule run_table_ok)
  have "ft = run (env_place env) ?f
      (end_calls env out @
       timer_calls (env_late env))
      (run (env_place env) ?f (capture_calls (decodable ps) (env_sweeps env)) ?ft)"
    by (simp add: ft_def run_table_def run_calls_def)
  from shutdown_run [OF ok this, of "undecodable ps"] obtain p1 where
    shut: "shutdown env (sv_serializer st) out ft1 = (drops (undecodable ps) ft)\<lparr>ft_sink := (p1, snd (ft_sink ft))\<rparr>"
    and ok1: "env_ok env st cfg (p1, snd (ft_sink ft))"
    unfolding ft1 by blast
  from destroy_sink_ends [OF ok1 assms(3) state(2,3)] obtain p where
    p: "destroy_sink env (sv_serializer st) p1 = Some p"
      "sink_done env st cfg (p, snd (ft_sink ft))"
    by blast
  let ?fin = "\<lparr>fin_table = (drops (undecodable ps) ft)\<lparr>ft_sink := (p, snd (ft_sink ft))\<rparr>,
    fin_calls = w_calls (snd (destroy_source (env_sig env) src w))\<rparr>"
  have "run_pipeline env cfg st = Ended (out, ?fin)"
    by (simp add: run_pipeline_def run app cap shut p Let_def split: prod.split)
  moreover have "ps = delivered (env_pcap env) (fin_calls ?fin)"
    by (simp add: delivered_destroy ps_def)
  ultimately show thesis by (rule that [where ft = ft and p = p]) (use p in \<open>simp_all add: ft_def\<close>)
qed

subsection \<open>What a run leaves\<close>

lemma sweep_empty: "ft_flows ft = [] \<Longrightarrow> ft_flows (run place f (timer_calls its) ft) = []"
  by (induction its arbitrary: ft rule: timer_calls.induct) (simp_all add: timer_sweep_def Let_def)

lemma run_table_drained: "ft_flows (run_table env cfg st Returned ps) = []"
  by (simp add: run_table_def run_calls_def sweep_empty drain_all_flows)

lemma run_table_received: "ft_metrics (run_table env cfg st out ps) PacketsReceived = int (length (decodable ps))"
  by (simp add: run_table_def received_run run_calls_def new_table_fresh)

lemma run_table_life: "inv_life (run_table env cfg st out ps)"
  unfolding run_table_def new_table_fresh on_event_def by (rule life.runs) (rule inv_life_fresh)

lemma run_table_conserve: "inv_conserve (run_table env cfg st out ps)"
  unfolding run_table_def new_table_fresh on_event_def by (rule conserve.runs) (rule inv_conserve_fresh)

lemma run_table_metric: "inv_metrics (run_table env cfg st out ps)"
  unfolding run_table_def new_table_fresh on_event_def by (rule metric.runs) (rule inv_metrics_fresh)

text \<open>What becomes of the packets of a run that has ended.\<close>

definition packets_accounted :: "captured list \<Rightarrow> finished \<Rightarrow> bool" where
  "packets_accounted ps fin \<longleftrightarrow>
     (let ft = fin_table fin; dropped = ft_metrics ft PacketsDropped - int (rejected ft) in
      ft_metrics ft PacketsReceived = int (length (decodable ps)) \<and>
      int (undecodable ps) \<le> dropped \<and>
      word_of_nat (length ps) =
        total_of fs_packet_count (ft_flows ft) + ended_packets (emitted ft) + word_of_int dropped)"

text \<open>
  What becomes of the events: \<open>S\<close> were produced, \<open>U\<close> could not be serialized, \<open>D\<close> found
  the retry buffer full, and the rest is left in the retry buffer.  If librdkafka refuses nothing, the
  messages are those of the serializable events in the order in which the queue accepted them.
\<close>

definition events_accounted :: "env \<Rightarrow> avro_serializer \<Rightarrow> app_config \<Rightarrow> finished \<Rightarrow> bool" where
  "events_accounted env ser cfg fin \<longleftrightarrow>
     (let (p, log) = ft_sink (fin_table fin); sk = snd (pipe_thread p); kp = sk_producer sk in
      eq_empty (sk_queue sk) \<and> int (length (sk_retry_buf sk)) \<le> cfg_sr_buffer_size cfg \<and>
      (\<exists>S U D. mset (accepted log) = mset S + mset U + mset D + mset (sk_retry_buf sk) \<and>
        sent (kp_calls kp) = map (message (env_ser env ser) (flow_id (env_ntop6 env))) S \<and>
        kp_metrics kp KafkaMessagesProduced = int (length S) \<and>
        kp_metrics kp AvroSerializationErrors = int (length U) \<and>
        count_list (sk_log sk) Retry_Buffer_Full = length D) \<and>
      (never_refuses (env_rk env) \<longrightarrow> sk_retry_buf sk = [] \<and>
        sent (kp_calls kp) = map (message (env_ser env ser) (flow_id (env_ntop6 env)))
          (filter (\<lambda>e. \<not> isl (env_ser env ser e)) (accepted log))))"

text \<open>When the thread has ended, the ledger covers every event accepted.\<close>

lemma sink_done_ledger:
  assumes "sink_done env sv cfg (p, log)"
  shows "ledger (env_ser env (sv_serializer sv)) (flow_id (env_ntop6 env)) (env_rk env) metrics_zero
    (cfg_sr_buffer_size cfg) (accepted log) (snd (pipe_thread p))"
proof -
  obtain pc sk where t: "pipe_thread p = (pc, sk)" by fastforce
  have "ring_ok kDefaultEventQueueCapacity (sk_queue sk)" "eq_empty (sk_queue sk)" "pc = Thread_Ended"
    using assms by (auto simp: sink_done_def on_ledger_def t)
  moreover from this have "eq_contents kDefaultEventQueueCapacity (sk_queue sk) = []"
    using eq_empty_iff [of kDefaultEventQueueCapacity "sk_queue sk"] by (simp add: ring_ok_def)
  ultimately show ?thesis using assms by (simp add: sink_done_def on_ledger_def t)
qed

lemma events_accountedI:
  assumes "sink_done env sv cfg (p, log)" and "ft_sink (fin_table fin) = (p, log)"
  shows "events_accounted env (sv_serializer sv) cfg fin"
proof -
  let ?ser = "env_ser env (sv_serializer sv)" and ?fid = "flow_id (env_ntop6 env)"
  obtain pc sk where t: "pipe_thread p = (pc, sk)" by fastforce
  note led = sink_done_ledger [OF assms(1)]
  then obtain S U D where "accounted ?ser ?fid metrics_zero (accepted log) S U D sk"
    by (auto simp: ledger_def t)
  with led assms(1) show ?thesis
    by (auto simp: events_accounted_def assms(2) t ledger_def accounted_def metrics_zero_def in_order_def
        sink_done_def)
qed

lemma run_accounted:
  assumes "whole_packets (env_pcap env)" and "capture_ends env cfg" and "valid_config cfg"
    and "startup lib cfg = Inr st"
  shows "\<exists>out fin. run_pipeline env cfg st = Ended (out, fin) \<and>
    packets_accounted (delivered (env_pcap env) (fin_calls fin)) fin \<and>
    events_accounted env (sv_serializer st) cfg fin \<and>
    (\<forall>k. lifecycle k (emitted (fin_table fin)) = Some (fm_find k (ft_flows (fin_table fin)) \<noteq> None)) \<and>
    (out = Returned \<longrightarrow> ft_flows (fin_table fin) = [])"
proof -
  from pipeline_ends [OF assms] obtain out fin ft ps p where
    run: "run_pipeline env cfg st = Ended (out, fin)" and ps: "ps = delivered (env_pcap env) (fin_calls fin)"
    and ft: "ft = run_table env cfg st out ps"
    and fin: "fin_table fin = (drops (undecodable ps) ft)\<lparr>ft_sink := (p, snd (ft_sink ft))\<rparr>"
    and p: "sink_done env st cfg (p, snd (ft_sink ft))" .
  have same: "emitted (fin_table fin) = emitted ft" "rejected (fin_table fin) = rejected ft"
    "ft_flows (fin_table fin) = ft_flows ft"
    by (simp_all add: fin emitted_def rejected_def)
  have "packets_accounted ps fin"
    using run_table_received [of env cfg st out ps] run_table_conserve [of env cfg st out ps]
      length_decodable [of ps]
    by (simp add: packets_accounted_def fin ft [symmetric] inv_conserve_def over_limit_def
        emitted_def rejected_def Let_def)
  moreover have "events_accounted env (sv_serializer st) cfg fin"
    by (rule events_accountedI [OF p]) (simp add: fin)
  moreover have "\<forall>k. lifecycle k (emitted (fin_table fin)) = Some (fm_find k (ft_flows (fin_table fin)) \<noteq> None)"
    using run_table_life [of env cfg st out ps] by (simp add: same ft [symmetric] inv_life_def)
  moreover have "out = Returned \<longrightarrow> ft_flows (fin_table fin) = []"
    using run_table_drained by (simp add: same ft)
  ultimately show ?thesis using run ps by blast
qed

subsection \<open>Properties\<close>

text \<open>Libraries where everything succeeds, and a capture of a UDP packet and of one too short to decode.\<close>

definition sample_libraries :: "(int, unit) libraries" where
  "sample_libraries =
     \<lparr>l_exposer = (\<lambda>_. None), l_http_get = (\<lambda>_ _ _. Http_Response 200 ''x''),
      l_json_parse = (\<lambda>_. Some 7), l_json_member = (\<lambda>j _. Some j), l_json_int32 = (\<lambda>j. Some (word_of_int j)),
      l_json_what = ''json'', l_stoi_what = (\<lambda>_. ''stoi''),
      l_read_file = (\<lambda>_. Some []), l_compile_schema = (\<lambda>_. Inr []), l_schema_dir = ''d'',
      l_rk_set = (\<lambda>_ _ _. None), l_rk_set_dr_cb = (\<lambda>_. None), l_rk_create = (\<lambda>_. None),
      l_cap_get_proc = None, l_cap_get_flag = (\<lambda>_. None)\<rparr>"

definition sample_capture :: "captured list" where
  "sample_capture =
     [(\<lparr>ph_ts = \<lparr>tv_sec = 1, tv_usec = 2\<rparr>, ph_caplen = 42\<rparr>, sample_udp),
      (\<lparr>ph_ts = \<lparr>tv_sec = 1, tv_usec = 3\<rparr>, ph_caplen = 3\<rparr>, [1, 2, 3])]"

definition sample_env :: env where
  "sample_env =
     \<lparr>env_pcap = \<lparr>lib_open = (\<lambda>_. Inr 7), lib_compile = (\<lambda>_. 0), lib_setfilter = (\<lambda>_. 0),
        lib_geterr = (\<lambda>_. []), lib_setnonblock = (\<lambda>_. (0, [])), lib_packets = (\<lambda>_. sample_capture),
        lib_result = (\<lambda>_. 0)\<rparr>,
      env_rk = fails_first, env_ntop6 = full_hex, env_encode = (\<lambda>_. Inr [1]), env_place = (\<lambda>_ _. 0),
      env_sig = (\<lambda>_. False), env_fuel = 0, env_sweeps = [[\<lparr>ts_sec = 1, ts_nsec = 0\<rparr>]], env_steps = [0, 3],
      env_last_sweeps = [\<lparr>ts_sec = 2, ts_nsec = 0\<rparr>], env_now = \<lparr>ts_sec = 9, ts_nsec = 0\<rparr>, env_late = [], env_flush_steps = 5, env_stop_steps = 2\<rparr>"

lemma whole_sample: "whole_packets (env_pcap sample_env)"
  by (simp add: whole_packets_def sample_env_def sample_capture_def)
    (simp add: sample_udp_def eth_header_def ipv4_header_def)

lemma decode_sample_capture: "length (decodable sample_capture) = 1" "undecodable sample_capture = 1"
  by (simp_all add: sample_capture_def decodable_def undecodable_def decoded_def decode_sample_udp
      map_filter_simps) (simp_all add: decode_def kEthHdrLen_def)

lemma sample_url: "parse_url (cfg_schema_registry_url default_config) = Inr (''localhost'', 8081)"
  by code_simp

lemma sample_started:
  obtains st where "startup sample_libraries (default_config\<lparr>cfg_pcap_file := ''f''\<rparr>) = Inr st"
    "src_name (st_source st) = ''f''" "src_bpf_filter (st_source st) = []" "as_schema_id (sv_serializer st) = 7"
proof -
  let ?cfg = "default_config\<lparr>cfg_pcap_file := ''f''\<rparr>"
  let ?kafka = "KafkaProducer (\<lambda>_ _ _. None) (\<lambda>_. None) (\<lambda>_. None) (\<lambda>_. Some []) ?cfg metrics_zero"
  have "\<not> isl ?kafka" by code_simp
  then obtain kp where kafka: "?kafka = Inr kp" by (cases ?kafka) simp_all
  have "startup sample_libraries ?cfg = Inr
      \<lparr>sv_metrics = MetricsRegistry (cfg_version ?cfg) (cfg_metrics_port ?cfg),
       sv_serializer = \<lparr>as_record = [], as_schema_id = 7\<rparr>, sv_producer = kp,
       st_source = PcapFileSource ''f'' [] True\<rparr>"
    unfolding startup_Inr_iff
    by (simp add: SchemaRegistryClient_def sample_url sample_libraries_def AvroSerializer_def kafka)
      (simp add: default_config_def)
  then show thesis by (rule that) (simp_all add: PcapFileSource_def)
qed

lemma sample_parse: "parse [''p'', ''--pcap'', ''f''] = Inr (default_config\<lparr>cfg_pcap_file := ''f''\<rparr>)"
  by code_simp

text \<open>
  C1.  Once the program has started, from a file or (if it is told to stop) a live capture, it ends,
  whatever the sweeps of the timer, the speed of the sink and the answers of librdkafka, and then: every packet
  libpcap handed over is, modulo \<open>2 ^ 64\<close>, counted in a flow, in an \<open>End\<close> event, or by
  \<open>packets_dropped\<close>; for every key the events are \<open>Start Stats* End\<close> repeated; every event
  the queue accepted was produced exactly once, was counted as not serializable, found the retry
  buffer full, or is one of the at most \<open>--sr-buffer\<close> events left in the retry buffer; and if
  librdkafka refuses nothing, the messages have the order of the events.  With exit status 0 no flow
  is left open.
\<close>

theorem main_accounts:
  assumes "parse argv = Inr cfg" and "startup lib cfg = Inr st"
    and "whole_packets (env_pcap env)" and "capture_ends env cfg"
  shows "\<exists>status msg fin. main lib env argv = Ended (status, msg, Some fin) \<and>
    packets_accounted (delivered (env_pcap env) (fin_calls fin)) fin \<and>
    events_accounted env (sv_serializer st) cfg fin \<and>
    (\<forall>k. lifecycle k (emitted (fin_table fin)) = Some (fm_find k (ft_flows (fin_table fin)) \<noteq> None)) \<and>
    (status = 0 \<longrightarrow> ft_flows (fin_table fin) = [])"
proof -
  from run_accounted [OF assms(3,4) parse_valid [OF assms(1)] assms(2)] obtain out fin where
    run: "run_pipeline env cfg st = Ended (out, fin)" and acc:
    "packets_accounted (delivered (env_pcap env) (fin_calls fin)) fin"
    "events_accounted env (sv_serializer st) cfg fin"
    "\<forall>k. lifecycle k (emitted (fin_table fin)) = Some (fm_find k (ft_flows (fin_table fin)) \<noteq> None)"
    "out = Returned \<longrightarrow> ft_flows (fin_table fin) = []" by blast
  show ?thesis
    by (cases out) (use run acc in \<open>simp_all add: main_started [OF assms(1,2)]\<close>)
qed

theorem main_accounts_witness:
  "\<exists>status msg fin. main sample_libraries sample_env [''p'', ''--pcap'', ''f''] = Ended (status, msg, Some fin) \<and>
    packets_accounted (delivered (env_pcap sample_env) (fin_calls fin)) fin"
proof -
  obtain st where "startup sample_libraries (default_config\<lparr>cfg_pcap_file := ''f''\<rparr>) = Inr st"
    by (rule sample_started)
  from main_accounts [OF sample_parse this whole_sample] show ?thesis
    by (auto simp: capture_ends_def)
qed

lemma main_cases:
  assumes "main lib env argv = Ended (status, msg, fin)"
  obtains e where "parse argv = Inl e" "status = 1" "msg = Stderr (''[error] '' @ what e @ [newline])" "fin = None"
  | cfg e where "parse argv = Inr cfg" "startup lib cfg = Inl e" "status = 1" "msg = Log_Error e" "fin = None"
  | cfg st e f where "parse argv = Inr cfg" "startup lib cfg = Inr st"
      "run_pipeline env cfg st = Ended (Runtime_Error e, f)" "status = 1" "msg = Log_Error e" "fin = Some f"
  | cfg st f where "parse argv = Inr cfg" "startup lib cfg = Inr st"
      "run_pipeline env cfg st = Ended (Returned, f)" "status = 0" "msg = No_Message" "fin = Some f"
proof (cases "parse argv")
  case (Inl e)
  with assms that(1) show thesis by (auto simp: main_def)
next
  case (Inr cfg)
  show thesis
  proof (cases "startup lib cfg")
    case (Inl e)
    with assms main_not_started [OF Inr Inl, of env] that(2) [OF Inr Inl] show thesis
      by (auto split: sum.splits option.splits)
  next
    case started: (Inr st)
    with assms main_started [OF Inr started, of env] that(3,4) [OF Inr started] show thesis
      by (auto split: result.splits outcome.splits)
  qed
qed

text \<open>
  C29.  The program exits with status 0 or 1, and prints or logs a message exactly with 1.  It is 0
  exactly if the arguments parse, the start-up succeeds and the capture returns without an exception (an error of
  \<open>pcap_loop\<close>, which a file source ignores, is none).  Then the metrics port could be bound, the registry gave a schema
  identifier, which is the one the serializer writes, the Kafka producer was created for the
  configured topic, and the source was the file given, or else the
  interface given, with the capability \<open>CAP_NET_RAW\<close>.  Arguments that do not parse end it before any
  library is used.
\<close>

theorem main_exit_status:
  assumes "main lib env argv = Ended (status, msg, fin)"
  shows "(status = 0 \<and> msg = No_Message \<or> status = 1 \<and> msg \<noteq> No_Message) \<and>
    (status = 0 \<longleftrightarrow> (\<exists>cfg st f. parse argv = Inr cfg \<and> startup lib cfg = Inr st \<and>
      run_pipeline env cfg st = Ended (Returned, f))) \<and>
    (status = 0 \<longrightarrow> (\<exists>cfg st f. parse argv = Inr cfg \<and> startup lib cfg = Inr st \<and> fin = Some f \<and>
      run_pipeline env cfg st = Ended (Returned, f) \<and>
      l_exposer lib (''0.0.0.0:'' @ dec_string (unat (cfg_metrics_port cfg))) = None \<and>
      SchemaRegistryClient (l_http_get lib) (l_json_parse lib) (l_json_member lib) (l_json_int32 lib)
        (cfg_schema_registry_url cfg) ''packetpipe-FlowEvent-value'' = Inr (as_schema_id (sv_serializer st)) \<and>
      kp_topic_name (sv_producer st) = cfg_kafka_topic cfg \<and>
      src_bpf_filter (st_source st) = cfg_bpf_filter cfg \<and>
      (if cfg_pcap_file cfg \<noteq> []
       then cfg_iface cfg = [] \<and> src_name (st_source st) = cfg_pcap_file cfg
       else cfg_iface cfg \<noteq> [] \<and> src_name (st_source st) = cfg_iface cfg \<and>
         has_cap_net_raw (l_cap_get_proc lib) (l_cap_get_flag lib)))) \<and>
    (\<forall>e lib' env'. parse argv = Inl e \<longrightarrow> main lib' env' argv = Ended (status, msg, None) \<and> status = 1)"
  using assms
proof (cases rule: main_cases)
  case (4 cfg st f)
  then show ?thesis
    using started_source [OF parse_one_source [OF 4(1)] 4(2)] 4(2)
    unfolding startup_Inr_iff started_metrics
    by (intro conjI impI exI [of _ cfg] exI [of _ st] exI [of _ f])
      (auto simp: started_metrics dest: created_serializer KafkaProducer_Inr)
qed (auto simp: main_def)

theorem main_exit_status_witness:
  "\<exists>status msg fin. main sample_libraries sample_env [''p'', ''--pcap'', ''f''] = Ended (status, msg, fin) \<and>
    status \<in> {0, 1} \<and> (msg = No_Message \<longleftrightarrow> status = 0)"
proof -
  obtain st where "startup sample_libraries (default_config\<lparr>cfg_pcap_file := ''f''\<rparr>) = Inr st"
    by (rule sample_started)
  from run_accounted [OF whole_sample _ parse_valid [OF sample_parse] this] obtain out fin where
    "run_pipeline sample_env (default_config\<lparr>cfg_pcap_file := ''f''\<rparr>) st = Ended (out, fin)"
    by (auto simp: capture_ends_def)
  then have "\<exists>status msg fin. main sample_libraries sample_env [''p'', ''--pcap'', ''f''] = Ended (status, msg, fin)"
    by (cases out) (simp_all add: main_started [OF sample_parse \<open>startup _ _ = _\<close>])
  then obtain status msg fin where
    "main sample_libraries sample_env [''p'', ''--pcap'', ''f''] = Ended (status, msg, fin)" by blast
  from main_exit_status [OF this] this show ?thesis by auto
qed

text \<open>
  C30.  When a step of the start-up fails the program exits with status 1 and logs that step's message.  If
  it is the packet source that cannot be created, which only happens for a live capture without the capability
  \<open>CAP_NET_RAW\<close>, the sink's thread is running already: its destructor stops and joins it, at whatever point it
  stands, and nothing has been produced.
\<close>

theorem main_startup_failure:
  assumes "parse argv = Inr cfg" and "startup lib cfg = Inl msg"
  shows "main lib env argv = Ended (1, Log_Error msg, None) \<and>
    (\<forall>sv. start_services lib cfg = Inr sv \<longrightarrow>
      cfg_pcap_file cfg = [] \<and> \<not> has_cap_net_raw (l_cap_get_proc lib) (l_cap_get_flag lib) \<and>
      (\<exists>sk. map_option pipe_thread (destroy_sink env (sv_serializer sv) (new_pipe env cfg (sv_producer sv))) =
          Some (Thread_Ended, sk) \<and>
        sent (kp_calls (sk_producer sk)) = [] \<and> sk_retry_buf sk = []))"
proof (cases "start_services lib cfg")
  case (Inl e)
  with main_not_started [OF assms] show ?thesis by simp
next
  case (Inr sv)
  from destroy_sink_ends [OF env_ok_new parse_valid [OF assms(1)] services_started [OF Inr], of env] obtain p where
    p: "destroy_sink env (sv_serializer sv) (new_pipe env cfg (sv_producer sv)) = Some p"
    and "sink_done env sv cfg (p, [])" by blast
  from this(2) have "fst (pipe_thread p) = Thread_Ended"
    "sent (kp_calls (sk_producer (snd (pipe_thread p)))) = []" "sk_retry_buf (snd (pipe_thread p)) = []"
    using sink_done_ledger [of env sv cfg p "[]"]
    by (auto simp: sink_done_def ledger_def accounted_def accepted_def)
  moreover from assms(2) have "create_source lib cfg = Inl msg"
    by (cases "create_source lib cfg") (simp_all add: startup_def Inr bind_result_def)
  then have "cfg_pcap_file cfg = [] \<and> \<not> has_cap_net_raw (l_cap_get_proc lib) (l_cap_get_flag lib)"
    by (auto simp: create_source_def LiveCaptureSource_def split: if_splits)
  ultimately show ?thesis
    using main_not_started [OF assms, of env] p Inr by (cases "pipe_thread p") simp
qed

theorem main_startup_failure_witness:
  "\<exists>msg sv sk. main sample_libraries sample_env [''p'', ''--iface'', ''lo''] = Ended (1, Log_Error msg, None) \<and>
    start_services sample_libraries (default_config\<lparr>cfg_iface := ''lo''\<rparr>) = Inr sv \<and>
    map_option pipe_thread (destroy_sink sample_env (sv_serializer sv)
      (new_pipe sample_env (default_config\<lparr>cfg_iface := ''lo''\<rparr>) (sv_producer sv))) = Some (Thread_Ended, sk)"
proof -
  let ?cfg = "default_config\<lparr>cfg_iface := ''lo''\<rparr>"
  let ?kafka = "KafkaProducer (\<lambda>_ _ _. None) (\<lambda>_. None) (\<lambda>_. None) (\<lambda>_. Some []) ?cfg metrics_zero"
  have parsed: "parse [''p'', ''--iface'', ''lo''] = Inr ?cfg" by code_simp
  have "\<not> isl ?kafka" by code_simp
  then obtain kp where kafka: "?kafka = Inr kp" by (cases ?kafka) simp_all
  have "\<exists>sv. start_services sample_libraries ?cfg = Inr sv"
    by (simp add: start_services_def SchemaRegistryClient_def sample_url sample_libraries_def
        AvroSerializer_def kafka bind_result_def)
  then obtain sv where sv: "start_services sample_libraries ?cfg = Inr sv" ..
  have "create_source sample_libraries ?cfg = Inl (projl (create_source sample_libraries ?cfg))"
    by (simp add: create_source_def LiveCaptureSource_def has_cap_net_raw_def sample_libraries_def)
      (simp add: default_config_def)
  with sv obtain msg where "startup sample_libraries ?cfg = Inl msg"
    by (metis startup_source_fails)
  from main_startup_failure [OF parsed this] sv show ?thesis by blast
qed

subsection \<open>The timer\<close>

text \<open>
  The interval of the timer thread overflows for intervals the parser accepts: from 4,294,968 seconds
  (about 50 days) on the product is not an \<open>int\<close>.
\<close>

lemma timer_interval_overflow:
  "timer_interval_ms cfg = None \<longleftrightarrow>
    4294967 < cfg_stats_interval_sec cfg \<and> 4294967 < cfg_flow_timeout_sec cfg"
  by (auto simp: timer_interval_ms_def INT_MAX_def Let_def)

lemma timer_interval_valid:
  "valid_config cfg \<Longrightarrow> timer_interval_ms cfg = Some i \<Longrightarrow>
    500 \<le> i \<and> i \<le> 500 * cfg_flow_timeout_sec cfg \<and> i \<le> 500 * cfg_stats_interval_sec cfg"
  by (auto simp: timer_interval_ms_def valid_config_def Let_def split: if_splits)

end
