(* ===== verification/Kafka_Order.thy ===== *)
theory Kafka_Order
  imports Whole_Program
begin

section \<open>What a consumer of the topic sees of one flow\<close>

text \<open>
  From the packets to the messages of one Kafka key: the decoder only produces keys with 16-byte
  addresses, the flow table only emits events with the keys of its packets, the flow identifier of
  such keys is injective, and the sink keeps the order of the queue.
\<close>

lemma decodable_wf: "pkt \<in> set (decodable ps) \<Longrightarrow> wf_packet pkt"
  by (auto simp: decodable_def decoded_def map_filter_def split: decoding.splits intro: decode_wf)

lemma capture_calls_packets: "Process pkt \<in> set (capture_calls pkts sweeps) \<Longrightarrow> pkt \<in> set pkts"
proof (induction pkts sweeps rule: capture_calls.induct)
  case (3 p pkts tss sweeps)
  have "Process pkt \<notin> set (timer_calls its)" for its
    by (induction its rule: timer_calls.induct) auto
  with 3 show ?case by auto
qed auto

lemma run_calls_packets: "Process pkt \<in> set (run_calls env out ps) \<Longrightarrow> wf_packet pkt"
proof -
  have "Process pkt \<notin> set (timer_calls its)" for its
    by (induction its rule: timer_calls.induct) auto
  then show "Process pkt \<in> set (run_calls env out ps) \<Longrightarrow> wf_packet pkt"
    by (cases out) (auto simp: run_calls_def dest: capture_calls_packets decodable_wf)
qed

text \<open>All keys, of the flows and of the events, are well formed if those of the packets are.\<close>

definition keys_wf :: "('q \<times> (flow_event \<times> bool) list) flow_table \<Rightarrow> bool" where
  "keys_wf ft \<longleftrightarrow> table_ok ft \<and> (\<forall>k s. fm_find k (ft_flows ft) = Some s \<longrightarrow> wf_key k) \<and>
     (\<forall>e \<in> set (emitted ft). wf_key (ev_key e))"

lemma wf_key_packet: "wf_packet pkt \<Longrightarrow> wf_key (key_from_packet pkt)"
  by (simp add: wf_packet_def wf_key_def key_from_packet_def)

interpretation wf: table_invariant_on place "logging f" wf_packet keys_wf
  for place and f :: "flow_event \<Rightarrow> 'q \<Rightarrow> bool \<times> 'q"
proof
  fix ft :: "('q \<times> (flow_event \<times> bool) list) flow_table" and k s now r pkt
  assume inv: "keys_wf ft"
  then have ok: "table_ok ft" by (simp add: keys_wf_def)
  then show "fm_ok (ft_flows ft)" by (simp add: table_ok_def)
  show "keys_wf (refuse (received ft))" "keys_wf (ft\<lparr>ft_last_heartbeat_us := now\<rparr>)"
    using inv by (simp_all add: keys_wf_def table_ok_refuse table_ok_heartbeat)
  show "keys_wf (admit place (logging f) pkt (received ft))"
    if "wf_packet pkt" "fm_find (key_from_packet pkt) (ft_flows ft) = None"
    using that inv by (auto simp: keys_wf_def table_ok_admit fm_find_emplace wf_key_packet split: if_splits)
  assume find: "fm_find k (ft_flows ft) = Some s"
  with ok have key: "fs_key s = k" by (simp add: table_ok_def)
  from inv find key show "keys_wf (emit (logging f) (stats_event now s) ft)"
    by (auto simp: keys_wf_def table_ok_stats)
  from inv find key show "keys_wf (expire_flow (logging f) (k, s) now r ft)"
    by (auto simp: keys_wf_def table_ok_expire fm_find_erase split: if_splits)
  from inv find show "keys_wf (store (fm_update k (touched pkt s) (ft_flows ft)) (received ft))"
    by (auto simp: keys_wf_def table_ok_touch fm_find_update split: if_splits)
qed

lemma run_table_wf: "keys_wf (run_table env cfg st out ps)"
  unfolding run_table_def new_table_fresh on_event_def
  by (rule wf.runs_on [OF _ run_calls_packets])
    (simp_all add: keys_wf_def, simp add: fresh_def table_ok_new)

subsection \<open>The messages of one key\<close>

definition messages_of :: "string \<Rightarrow> (string \<times> u8 list) list \<Rightarrow> u8 list list" where
  "messages_of key msgs = map snd (filter (\<lambda>m. fst m = key) msgs)"

lemma messages_of_events:
  assumes "\<And>e. e \<in> set evs \<Longrightarrow> fid (ev_key e) = fid k \<Longrightarrow> ev_key e = k"
  shows "messages_of (fid k) (map (message ser fid) evs) =
    map (\<lambda>e. projr (ser e)) (filter (\<lambda>e. ev_key e = k) evs)"
  using assms by (induction evs) (auto simp: messages_of_def message_def)

lemma lifecycle_filter: "lifecycle k (filter (\<lambda>e. ev_key e = k) evs) = lifecycle k evs"
  by (simp add: lifecycle_def)

lemma accepted_all: "\<forall>(e, taken) \<in> set log. taken \<Longrightarrow> accepted log = map fst log"
  unfolding accepted_def by (subst filter_True) auto

text \<open>
  C3.  If librdkafka refuses no message, the messages the program has produced under the Kafka key of a
  flow are exactly the payloads of that flow's accepted and serializable events, in the order in which the
  table emitted them: no event of another flow, none twice and none out of order, whatever the speed of the
  sink.  If the queue was never full and every event could be serialized, a run with exit status 0 has given
  the key complete life cycles: \<open>Start Stats* End\<close> repeated, the last one closed.
\<close>

theorem kafka_flow_order:
  assumes "parse argv = Inr cfg" and "startup lib cfg = Inr st"
    and "whole_packets (env_pcap env)" and "capture_ends env cfg"
    and "never_refuses (env_rk env)" and "ntop6_ok (env_ntop6 env)" and "wf_key k"
  shows "\<exists>status msg fin p log. main lib env argv = Ended (status, msg, Some fin) \<and>
    ft_sink (fin_table fin) = (p, log) \<and>
    (let ser = env_ser env (sv_serializer st);
         evs = filter (\<lambda>e. ev_key e = k) (accepted log);
         msgs = sent (kp_calls (sk_producer (snd (pipe_thread p)))) in
     messages_of (flow_id (env_ntop6 env) k) msgs = map (\<lambda>e. projr (ser e)) (filter (\<lambda>e. \<not> isl (ser e)) evs) \<and>
     (status = 0 \<and> (\<forall>(e, taken) \<in> set log. taken) \<longrightarrow> lifecycle k evs = Some False))"
proof -
  from pipeline_ends [OF assms(3,4) parse_valid [OF assms(1)] assms(2)] obtain out fin ft ps p where
    run: "run_pipeline env cfg st = Ended (out, fin)" and ft: "ft = run_table env cfg st out ps"
    and fin: "fin_table fin = (drops (undecodable ps) ft)\<lparr>ft_sink := (p, snd (ft_sink ft))\<rparr>"
    and p: "sink_done env st cfg (p, snd (ft_sink ft))" .
  let ?ser = "env_ser env (sv_serializer st)" and ?fid = "flow_id (env_ntop6 env)"
  let ?log = "snd (ft_sink ft)"
  have "wf_key (ev_key e)" if "e \<in> set (accepted ?log)" for e
    using that run_table_wf [of env cfg st out ps]
    by (auto simp: keys_wf_def accepted_def emitted_def ft [symmetric])
  then have inj: "ev_key e = k" if "e \<in> set (filter (\<lambda>e. \<not> isl (?ser e)) (accepted ?log))" "?fid (ev_key e) = ?fid k" for e
    using that flow_id_inj [OF assms(6) _ assms(7)] by auto
  have "sent (kp_calls (sk_producer (snd (pipe_thread p)))) =
      map (message ?ser ?fid) (filter (\<lambda>e. \<not> isl (?ser e)) (accepted ?log))"
    using sink_done_ledger [OF p] assms(5) by (simp add: ledger_def in_order_def)
  then have msgs: "messages_of (?fid k) (sent (kp_calls (sk_producer (snd (pipe_thread p))))) =
      map (\<lambda>e. projr (?ser e)) (filter (\<lambda>e. \<not> isl (?ser e)) (filter (\<lambda>e. ev_key e = k) (accepted ?log)))"
    using messages_of_events [of "filter (\<lambda>e. \<not> isl (?ser e)) (accepted ?log)" ?fid k ?ser, OF inj]
    by (simp add: conj_commute)
  have "lifecycle k (accepted ?log) = Some False" if "out = Returned" "\<forall>(e, taken) \<in> set ?log. taken"
    using accepted_all [OF that(2)] run_table_life [of env cfg st out ps] run_table_drained [of env cfg st ps] that(1)
    by (simp add: ft inv_life_def emitted_def)
  then show ?thesis
    using main_started [OF assms(1,2), of env] run msgs
    by (cases out) (simp_all add: fin lifecycle_filter)
qed

theorem kafka_flow_order_witness:
  "\<exists>(st :: started) status msg fin p log.
    main sample_libraries (sample_env\<lparr>env_rk := fails_first\<lparr>rk_produce := \<lambda>_ _ _ _. 0\<rparr>\<rparr>) [''p'', ''--pcap'', ''f''] =
      Ended (status, msg, Some fin) \<and> ft_sink (fin_table fin) = (p, log) \<and>
    messages_of (flow_id full_hex default_flow_key) (sent (kp_calls (sk_producer (snd (pipe_thread p))))) =
      map (\<lambda>e. projr (env_ser sample_env (sv_serializer st) e))
        (filter (\<lambda>e. \<not> isl (env_ser sample_env (sv_serializer st) e))
          (filter (\<lambda>e. ev_key e = default_flow_key) (accepted log)))"
proof -
  let ?env = "sample_env\<lparr>env_rk := fails_first\<lparr>rk_produce := \<lambda>_ _ _ _. 0\<rparr>\<rparr>"
  obtain st where st: "startup sample_libraries (default_config\<lparr>cfg_pcap_file := ''f''\<rparr>) = Inr st"
    by (rule sample_started)
  have "whole_packets (env_pcap ?env)" using whole_sample by simp
  moreover have "capture_ends ?env (default_config\<lparr>cfg_pcap_file := ''f''\<rparr>)" by (simp add: capture_ends_def)
  moreover have "never_refuses (env_rk ?env)" by (simp add: never_refuses_def)
  moreover have "ntop6_ok (env_ntop6 ?env)" using ntop6_ok_full_hex by (simp add: sample_env_def)
  moreover have "wf_key default_flow_key" by (simp add: wf_key_def default_flow_key_def)
  moreover have "env_ser ?env = env_ser sample_env" "env_ntop6 ?env = full_hex"
    by (auto simp: env_ser_def sample_env_def)
  ultimately show ?thesis
    using kafka_flow_order [OF sample_parse st, of ?env default_flow_key] by (auto simp: Let_def)
qed

end
