(* ===== verification/Program_Metrics.thy ===== *)
theory Program_Metrics
  imports Kafka_Order
begin

section \<open>What the metrics say after a run\<close>

text \<open>
  The program has one registry.  The flow table and the sources change one half of its series, the sink the other,
  so its values are the sums of the counts of the two models; and each is shown to count what its
  name says.
\<close>

definition program_metrics :: "finished \<Rightarrow> metrics" where
  "program_metrics fin x =
     ft_metrics (fin_table fin) x +
     kp_metrics (sk_producer (snd (pipe_thread (fst (ft_sink (fin_table fin)))))) x"

text \<open>The flow table leaves the sink's series alone.\<close>

definition table_series :: "'q flow_table \<Rightarrow> bool" where
  "table_series ft \<longleftrightarrow> table_ok ft \<and> (\<forall>x. kafka_counter x \<longrightarrow> ft_metrics ft x = 0)"

interpretation series: table_invariant place f table_series
  for place and f :: "flow_event \<Rightarrow> 'q \<Rightarrow> bool \<times> 'q"
proof
  fix ft :: "'q flow_table" and k s now r pkt
  assume inv: "table_series ft"
  then show "fm_ok (ft_flows ft)" by (simp add: table_series_def table_ok_def)
  from inv show "table_series (emit f (stats_event now s) ft)" "table_series (refuse (received ft))"
    "table_series (ft\<lparr>ft_last_heartbeat_us := now\<rparr>)"
    by (auto simp: table_series_def table_ok_steps ft_metrics_emit ft_metrics_refuse kafka_counter_def)
  from inv show "table_series (expire_flow f (k, s) now r ft)"
    by (simp add: table_series_def table_ok_expire)
      (auto simp: expire_flow_eq ft_metrics_emit kafka_counter_def)
  from inv show "table_series (admit place f pkt (received ft))"
    if "fm_find (key_from_packet pkt) (ft_flows ft) = None"
    using that by (simp add: table_series_def table_ok_admit)
      (auto simp: admit_def ft_metrics_emit kafka_counter_def)
  assume "fm_find k (ft_flows ft) = Some s"
  with inv show "table_series (store (fm_update k (touched pkt s) (ft_flows ft)) (received ft))"
    by (auto simp: table_series_def table_ok_touch kafka_counter_def)
qed

lemma run_table_series: "table_series (run_table env cfg st out ps)"
  unfolding run_table_def new_table_fresh
  by (rule series.runs, simp add: table_series_def)
    (simp add: fresh_def table_ok_new, simp add: FlowTable_def metrics_zero_def)

text \<open>The number of events in a ledger that cannot be serialized.\<close>

lemma ledger_unserializable:
  assumes "accounted ser fid m P S U D sk"
  shows "length U = length (filter (\<lambda>e. isl (ser e)) P)"
proof -
  have "filter_mset (\<lambda>e. isl (ser e)) (mset P) = mset U"
  proof -
    have none: "filter (\<lambda>e. isl (ser e)) xs = []" if "\<forall>e \<in> set xs. \<not> isl (ser e)" for xs
      using that by simp
    have "filter (\<lambda>e. isl (ser e)) U = U" using assms by (simp add: accounted_def)
    then show ?thesis
      using assms none [of S] none [of D] none [of "sk_retry_buf sk"]
      by (simp add: accounted_def flip: mset_filter)
  qed
  then show ?thesis by (metis mset_filter size_mset)
qed

lemma ledger_counts:
  assumes "ledger ser fid rk metrics_zero b P sk"
  shows "kp_metrics (sk_producer sk) KafkaMessagesProduced = int (length (sent (kp_calls (sk_producer sk))))"
    and "kp_metrics (sk_producer sk) AvroSerializationErrors = int (length (filter (\<lambda>e. isl (ser e)) P))"
    and "length P = length (sent (kp_calls (sk_producer sk))) + length (filter (\<lambda>e. isl (ser e)) P) +
      count_list (sk_log sk) Retry_Buffer_Full + length (sk_retry_buf sk)"
proof -
  from assms obtain S U D where acc: "accounted ser fid metrics_zero P S U D sk" by (auto simp: ledger_def)
  note U = ledger_unserializable [OF acc]
  from acc U show "kp_metrics (sk_producer sk) KafkaMessagesProduced = int (length (sent (kp_calls (sk_producer sk))))"
    "kp_metrics (sk_producer sk) AvroSerializationErrors = int (length (filter (\<lambda>e. isl (ser e)) P))"
    by (simp_all add: accounted_def metrics_zero_def)
  have "size (mset P) = size (mset S + mset U + mset D + mset (sk_retry_buf sk))"
    using acc by (simp only: accounted_def)
  then show "length P = length (sent (kp_calls (sk_producer sk))) + length (filter (\<lambda>e. isl (ser e)) P) +
      count_list (sk_log sk) Retry_Buffer_Full + length (sk_retry_buf sk)"
    using acc U by (simp add: accounted_def)
qed

text \<open>Each series comes from one of the two halves, the table's or the sink's.\<close>

lemma done_counters:
  assumes "sink_done env sv cfg (p, log)"
  defines "sk \<equiv> snd (pipe_thread p)"
  defines "r \<equiv> replay (cfg_sr_buffer_size cfg) (kp_calls (sk_producer sk))"
  shows "producer_counts (env_rk env) metrics_zero (rp_retries r) (rp_dropped r) (sk_producer sk)"
    and "map (message (env_ser env (sv_serializer sv)) (flow_id (env_ntop6 env))) (sk_retry_buf sk) = rp_waiting r"
    and "count_list (sk_log sk) Retry_Buffer_Full = rp_dropped r"
  using assms(1) by (simp_all add: sink_done_def replayed_def sk_def r_def Let_def)

lemma program_metrics_table:
  assumes "fin_table fin = (drops d ft)\<lparr>ft_sink := (p, log)\<rparr>" and "sink_done env st cfg (p, log)"
    and "\<not> kafka_counter x"
  shows "program_metrics fin x = ft_metrics ft x + (if x = PacketsDropped then int d else 0)"
  using done_counters(1) [OF assms(2)] assms(3)
  by (simp add: program_metrics_def assms(1) producer_counts_def metrics_zero_def)

lemma program_metrics_sink:
  assumes "fin_table fin = (drops d ft)\<lparr>ft_sink := (p, log)\<rparr>" and "table_series ft" and "kafka_counter x"
  shows "program_metrics fin x = kp_metrics (sk_producer (snd (pipe_thread p))) x"
  using assms(2,3) by (auto simp: program_metrics_def assms(1) table_series_def kafka_counter_def)

lemma program_metrics_kafka:
  assumes "fin_table fin = (drops d ft)\<lparr>ft_sink := (p, log)\<rparr>" and "table_series ft"
    and "sink_done env st cfg (p, log)"
  defines "calls \<equiv> kp_calls (sk_producer (snd (pipe_thread p)))"
  defines "r \<equiv> replay (cfg_sr_buffer_size cfg) calls" and "m \<equiv> program_metrics fin"
  shows "m KafkaMessagesProduced = int (length (sent calls))"
    and "m SchemaRegistryRetries = int (rp_retries r)"
    and "m KafkaDeliveryErrors =
      int (refused calls) + int (failed_reports (env_rk env) [] calls) + int (rp_dropped r)"
    and "m AvroSerializationErrors =
      int (length (filter (\<lambda>e. isl (env_ser env (sv_serializer st) e)) (accepted log)))"
    and "int (length (accepted log)) = m KafkaMessagesProduced + m AvroSerializationErrors +
      int (rp_dropped r) + int (length (rp_waiting r))"
proof -
  note k = program_metrics_sink [OF assms(1,2), folded m_def]
    and counters = done_counters [OF assms(3), folded calls_def, folded r_def]
    and counts = ledger_counts [OF sink_done_ledger [OF assms(3)], folded calls_def]
  have left: "length (sk_retry_buf (snd (pipe_thread p))) = length (rp_waiting r)"
    using counters(2) by (metis length_map)
  show "m KafkaMessagesProduced = int (length (sent calls))"
    "m AvroSerializationErrors =
      int (length (filter (\<lambda>e. isl (env_ser env (sv_serializer st) e)) (accepted log)))"
    "int (length (accepted log)) = m KafkaMessagesProduced + m AvroSerializationErrors +
      int (rp_dropped r) + int (length (rp_waiting r))"
    using counts counters(3) left by (simp_all add: k kafka_counter_def)
  show "m SchemaRegistryRetries = int (rp_retries r)"
    "m KafkaDeliveryErrors =
      int (refused calls) + int (failed_reports (env_rk env) [] calls) + int (rp_dropped r)"
    using counters(1) by (simp_all add: k kafka_counter_def producer_counts_def metrics_zero_def calls_def)
qed

text \<open>
  C6.  After a run of the program the metrics agree with what happened: \<open>packets_received\<close> counts the packets
  that decode; \<open>packets_dropped\<close> those that do not, the events the queue refused, and \<open>d\<close> packets refused at the flow
  limit, the only received packets that no flow counts; the flow series count table entries, \<open>Start\<close> and \<open>End\<close>
  events.  The series of the sink are what a replay of the recorded calls of librdkafka says:
  \<open>kafka_messages_produced\<close> counts the messages it took, \<open>schema_registry_retries\<close> those among them that had been refused
  before, and \<open>kafka_delivery_errors\<close> the calls of \<open>produce\<close> it refused, the failed deliveries it reported, and the events
  dropped because as many messages as the retry buffer holds were waiting; \<open>avro_serialization_errors\<close> counts the
  accepted events that could not be serialized.  The accepted events are those produced, not serializable,
  dropped, or left over, and the ones left over are the messages the replay still has waiting.
\<close>

theorem main_metrics:
  assumes "parse argv = Inr cfg" and "startup lib cfg = Inr st"
    and "whole_packets (env_pcap env)" and "capture_ends env cfg"
  shows "\<exists>status msg fin p log. main lib env argv = Ended (status, msg, Some fin) \<and>
    ft_sink (fin_table fin) = (p, log) \<and>
    (let ft = fin_table fin; evs = map fst log; sk = snd (pipe_thread p); m = program_metrics fin;
         ps = delivered (env_pcap env) (fin_calls fin); calls = kp_calls (sk_producer sk);
         r = replay (cfg_sr_buffer_size cfg) calls; ser = env_ser env (sv_serializer st) in
     m PacketsReceived = int (length (decodable ps)) \<and>
     (\<exists>d \<ge> 0. m PacketsDropped = int (undecodable ps) + int (length (filter (\<lambda>(e, taken). \<not> taken) log)) + d \<and>
       word_of_int (m PacketsReceived) =
         total_of fs_packet_count (ft_flows ft) + ended_packets evs + word_of_int d) \<and>
     m FlowsActive = int (length (ft_flows ft)) \<and> (status = 0 \<longrightarrow> m FlowsActive = 0) \<and>
     m FlowsCreated = int (starts evs) \<and> (\<forall>r. m (FlowsExpired r) = int (ends r evs)) \<and>
     m KafkaMessagesProduced = int (length (sent calls)) \<and>
     m SchemaRegistryRetries = int (rp_retries r) \<and>
     m KafkaDeliveryErrors =
       int (refused calls) + int (failed_reports (env_rk env) [] calls) + int (rp_dropped r) \<and>
     m AvroSerializationErrors = int (length (filter (\<lambda>e. isl (ser e)) (accepted log))) \<and>
     int (length (accepted log)) = m KafkaMessagesProduced + m AvroSerializationErrors +
       int (rp_dropped r) + int (length (rp_waiting r)) \<and>
     count_list (sk_log sk) Retry_Buffer_Full = rp_dropped r \<and>
     map (message ser (flow_id (env_ntop6 env))) (sk_retry_buf sk) = rp_waiting r)"
proof -
  from pipeline_ends [OF assms(3,4) parse_valid [OF assms(1)] assms(2)] obtain out fin ft ps p where
    run: "run_pipeline env cfg st = Ended (out, fin)" and ps: "ps = delivered (env_pcap env) (fin_calls fin)"
    and ft: "ft = run_table env cfg st out ps"
    and fin: "fin_table fin = (drops (undecodable ps) ft)\<lparr>ft_sink := (p, snd (ft_sink ft))\<rparr>"
    and p: "sink_done env st cfg (p, snd (ft_sink ft))" .
  let ?log = "snd (ft_sink ft)" and ?m = "program_metrics fin"
  note m = program_metrics_table [OF fin p]
    and kafka = program_metrics_kafka [OF fin run_table_series [of env cfg st out ps, folded ft] p]
  note table = run_table_metric [of env cfg st out ps, folded ft, unfolded inv_metrics_def emitted_def]
    and conserve = run_table_conserve [of env cfg st out ps, folded ft, unfolded inv_conserve_def emitted_def]
    and received = run_table_received [of env cfg st out ps, folded ft]
  have drops: "\<exists>d \<ge> 0. ?m PacketsDropped = int (undecodable ps) + int (length (filter (\<lambda>(e, taken). \<not> taken) ?log)) + d \<and>
      word_of_int (?m PacketsReceived) =
        total_of fs_packet_count (ft_flows ft) + ended_packets (map fst ?log) + word_of_int d"
    using conserve
    by (intro exI [of _ "over_limit ft"]) (simp add: m kafka_counter_def over_limit_def rejected_def)
  have idle: "ft_flows ft = []" if "out = Returned"
    using run_table_drained [of env cfg st ps] that by (simp add: ft)
  have flows: "?m PacketsReceived = int (length (decodable ps))" "?m FlowsActive = int (length (ft_flows ft))"
    "?m FlowsCreated = int (starts (map fst ?log))" "\<forall>r. ?m (FlowsExpired r) = int (ends r (map fst ?log))"
    using table received by (simp_all add: m kafka_counter_def)
  obtain status msg where "main lib env argv = Ended (status, msg, Some fin)" "status = 0 \<longrightarrow> ft_flows ft = []"
    using main_started [OF assms(1,2), of env] run idle by (cases out) simp_all
  moreover have "ft_sink (fin_table fin) = (p, ?log)" "ft_flows (fin_table fin) = ft_flows ft"
    by (simp_all add: fin)
  moreover have "delivered (env_pcap env) (fin_calls fin) = ps" by (simp add: ps)
  ultimately show ?thesis
    using drops flows kafka done_counters(2,3) [OF p]
    by (intro exI [of _ status] exI [of _ msg] exI [of _ fin] exI [of _ p] exI [of _ ?log]) simp
qed

theorem main_metrics_witness:
  "\<exists>status msg fin. main sample_libraries sample_env [''p'', ''--pcap'', ''f''] = Ended (status, msg, Some fin) \<and>
    program_metrics fin PacketsReceived =
      int (length (decodable (delivered (env_pcap sample_env) (fin_calls fin))))"
proof -
  obtain st where "startup sample_libraries (default_config\<lparr>cfg_pcap_file := ''f''\<rparr>) = Inr st"
    by (rule sample_started)
  from main_metrics [OF sample_parse this whole_sample] show ?thesis
    by (auto simp: capture_ends_def Let_def)
qed

end
