(* ===== verification/Flow_Table_Times.thy ===== *)
theory Flow_Table_Times
  imports Flow_Table_Spec
begin

section \<open>The times of the flow table as numbers\<close>

text \<open>
  The table computes with 64-bit signed microseconds, and the comparisons of \<open>timer_sweep\<close> are on differences
  that may wrap around.  As long as the times it is given are not negative and below \<open>2 ^ 62\<close>
  microseconds (more than a hundred thousand years after the epoch) no subtraction wraps, and
  the idle time the program compares is the exact difference.
\<close>

definition time_ok :: "i64 \<Rightarrow> bool" where
  "time_ok t \<longleftrightarrow> 0 \<le> sint t \<and> sint t < 2 ^ 62"

lemma sint_diff:
  assumes "time_ok a" and "time_ok b"
  shows "sint (a - b) = sint a - sint b"
proof -
  have "sint (a - b) = signed_take_bit 63 (sint a - sint b)"
    by (simp add: sint_word_ariths)
  also have "\<dots> = sint a - sint b"
    using assms by (intro signed_take_bit_int_eq_self) (simp_all add: time_ok_def)
  finally show ?thesis .
qed

lemma sint_of_small: "0 \<le> v \<Longrightarrow> v < 2 ^ 62 \<Longrightarrow> sint (word_of_int v :: i64) = v"
  by (simp add: signed_of_int signed_take_bit_int_eq_self)

lemma sint_seconds:
  assumes "0 \<le> n" and "n \<le> INT_MAX"
  shows "sint (seconds n) = n * 1000000"
proof -
  have "seconds n = word_of_int (n * 1000000)" by (simp add: seconds_def)
  then show ?thesis
    using assms sint_of_small [of "n * 1000000"] by (simp only:) (simp add: INT_MAX_def)
qed

lemma idle_exact:
  assumes "time_ok now" and "time_ok (fs_last_seen_us s)" and "0 \<le> n" and "n \<le> INT_MAX"
  shows "idle (seconds n) now s \<longleftrightarrow> n * 1000000 \<le> sint now - sint (fs_last_seen_us s)"
  using assms by (simp add: idle_def word_sle_eq sint_diff sint_seconds)

text \<open>The times the decoder produces: exact, and in range for any capture before the year 50,000.\<close>

lemma decode_network_time:
  "decode_network data len et offset pkt = Decoded (pkt', offset') \<Longrightarrow>
    pp_timestamp_us pkt' = pp_timestamp_us pkt"
  by (auto simp: decode_network_def decode_ipv4_def decode_ipv6_def and_then_Decoded_iff Let_def
      split: if_splits)

lemma decode_transport_time:
  "decode_transport data len offset pkt = Decoded pkt' \<Longrightarrow> pp_timestamp_us pkt' = pp_timestamp_us pkt"
  by (auto simp: decode_transport_def and_then_Decoded_iff split: if_splits)

definition timeval_ok :: "timeval \<Rightarrow> bool" where
  "timeval_ok ts \<longleftrightarrow> 0 \<le> sint (tv_sec ts) \<and> sint (tv_sec ts) < 2 ^ 41 \<and>
     0 \<le> sint (tv_usec ts) \<and> sint (tv_usec ts) < 1000000"

lemma decode_time:
  assumes "decode data len ts = Decoded pkt" and "timeval_ok ts"
  shows "sint (pp_timestamp_us pkt) = sint (tv_sec ts) * 1000000 + sint (tv_usec ts)"
    and "time_ok (pp_timestamp_us pkt)"
proof -
  from assms(1) obtain bytes where "decode (Some bytes) len ts = Decoded pkt"
    by (cases data) (auto simp: decode_def)
  then have "pp_timestamp_us pkt = tv_sec ts * 1000000 + tv_usec ts"
    by (rule decode_DecodedE) (simp add: decode_network_time decode_transport_time)
  also have "\<dots> = word_of_int (sint (tv_sec ts) * 1000000 + sint (tv_usec ts))" by simp
  finally have word: "pp_timestamp_us pkt = word_of_int (sint (tv_sec ts) * 1000000 + sint (tv_usec ts))" .
  show eq: "sint (pp_timestamp_us pkt) = sint (tv_sec ts) * 1000000 + sint (tv_usec ts)"
    unfolding word by (rule sint_of_small) (use assms(2) in \<open>auto simp: timeval_ok_def\<close>)
  from assms(2) show "time_ok (pp_timestamp_us pkt)" unfolding time_ok_def eq timeval_ok_def by simp
qed

definition times_ok :: "app_config \<Rightarrow> 'q flow_table \<Rightarrow> bool" where
  "times_ok cfg ft \<longleftrightarrow> intervals cfg ft \<and>
     (\<forall>k s. fm_find k (ft_flows ft) = Some s \<longrightarrow> time_ok (fs_last_seen_us s))"

lemma seen_fields [simp]:
  "fs_last_seen_us (touched pkt s) = pp_timestamp_us pkt" "fs_last_seen_us (opened pkt) = pp_timestamp_us pkt"
  by (simp_all add: touched_def opened_def)

interpretation times: table_invariant_on place f "\<lambda>pkt. time_ok (pp_timestamp_us pkt)" "times_ok cfg"
  for place and f :: "flow_event \<Rightarrow> 'q \<Rightarrow> bool \<times> 'q" and cfg
proof
  fix ft :: "'q flow_table" and k s now r pkt
  assume inv: "times_ok cfg ft"
  then have I: "intervals cfg ft" by (simp add: times_ok_def)
  then show fm: "fm_ok (ft_flows ft)" by (rule intervals.ok)
  from inv show "times_ok cfg (refuse (received ft))" "times_ok cfg (emit f (stats_event now s) ft)"
    "times_ok cfg (ft\<lparr>ft_last_heartbeat_us := now\<rparr>)"
    by (simp_all add: times_ok_def intervals_def table_ok_steps)
  show "times_ok cfg (admit place f pkt (received ft))"
    if "time_ok (pp_timestamp_us pkt)" "fm_find (key_from_packet pkt) (ft_flows ft) = None" "\<not> at_limit ft"
    using that inv by (auto simp: times_ok_def intervals.admit fm_find_emplace split: if_splits)
  assume find: "fm_find k (ft_flows ft) = Some s"
  from inv find show "times_ok cfg (expire_flow f (k, s) now r ft)"
    by (auto simp: times_ok_def intervals.expire fm_find_erase split: if_splits)
  from inv find show "times_ok cfg (store (fm_update k (touched pkt s) (ft_flows ft)) (received ft))"
    if "time_ok (pp_timestamp_us pkt)" "k = key_from_packet pkt"
    using that intervals.touch [OF I _ that(2) find]
    by (auto simp: times_ok_def fm_find_update split: if_splits)
qed

text \<open>
  C26.  With a configuration the parser accepts, and times from zero to \<open>2 ^ 62\<close> microseconds, a
  sweep of any reachable table keeps exactly the flows whose last packet is less than
  \<open>--flow-timeout\<close> seconds old, computed without wrap-around; a packet dated after the sweep
  does not make its flow idle.  A flow that is idle for exactly the time-out ends: here the code departs from
  docs/design/architecture.md, which ends a flow only when \<open>last_seen + timeout < now\<close>.
\<close>

theorem flow_idle_exact:
  assumes "parse argv = Inr cfg"
    and "\<And>pkt. Process pkt \<in> set calls \<Longrightarrow> time_ok (pp_timestamp_us pkt)" and "time_ok now"
  shows "let ft = run place f calls (FlowTable cfg m q) in
    ft_flows (timer_sweep f now ft) =
      filter (\<lambda>(k, s). sint now - sint (fs_last_seen_us s) < cfg_flow_timeout_sec cfg * 1000000) (ft_flows ft)"
proof -
  let ?ft = "run place f calls (FlowTable cfg m q)"
  have "times_ok cfg (FlowTable cfg m q)"
    by (simp add: times_ok_def intervals_def table_ok_new) (simp add: FlowTable_def seconds_def)
  then have inv: "times_ok cfg ?ft" using assms(2) by (rule times.runs_on)
  then have fm: "fm_ok (ft_flows ?ft)" by (rule times.ok)
  have cfg: "0 \<le> cfg_flow_timeout_sec cfg" "cfg_flow_timeout_sec cfg \<le> INT_MAX"
    using parse_valid [OF assms(1)] by (simp_all add: valid_config_def)
  have "\<not> idle (ft_idle_timeout_us ?ft) now s \<longleftrightarrow>
      sint now - sint (fs_last_seen_us s) < cfg_flow_timeout_sec cfg * 1000000"
    if "(k, s) \<in> set (ft_flows ?ft)" for k s
  proof -
    have "time_ok (fs_last_seen_us s)"
      using inv times.entries [OF inv that] by (simp add: times_ok_def)
    with inv cfg assms(3) show ?thesis by (auto simp: times_ok_def intervals_def idle_exact)
  qed
  then show ?thesis
    unfolding Let_def timer_sweep_flows [OF fm] by (intro filter_cong refl) (clarsimp simp: split_beta)
qed

theorem flow_idle_exact_witness:
  "let ft = run (\<lambda>_ _. 0) (\<lambda>e q. (True, q)) [Process (sample_packet 7 60 10 False)]
      (FlowTable (default_config\<lparr>cfg_iface := ''lo''\<rparr>) metrics_zero ())
   in ft_flows (timer_sweep (\<lambda>e q. (True, q)) 5 ft) = ft_flows ft \<and> ft_flows ft \<noteq> []"
proof -
  let ?cfg = "default_config\<lparr>cfg_iface := ''lo''\<rparr>"
  let ?p = "sample_packet 7 60 10 False"
  let ?ft = "run (\<lambda>_ _. 0) (\<lambda>e q. (True, q)) [Process ?p] (FlowTable ?cfg metrics_zero ())"
  have parsed: "parse [''p'', ''--iface'', ''lo''] = Inr ?cfg" by code_simp
  have flows: "ft_flows ?ft = [(key_from_packet ?p, opened ?p)]" by code_simp
  have kept: "filter (\<lambda>(k, s). sint (5 :: i64) - sint (fs_last_seen_us s) < cfg_flow_timeout_sec ?cfg * 1000000)
      [(key_from_packet ?p, opened ?p)] = [(key_from_packet ?p, opened ?p)]"
    by (simp add: sample_packet_def default_config_def)
  have "time_ok (pp_timestamp_us pkt)" if "Process pkt \<in> set [Process ?p]" for pkt
    using that by (simp add: sample_packet_def time_ok_def)
  moreover have "time_ok 5" by (simp add: time_ok_def)
  ultimately have "ft_flows (timer_sweep (\<lambda>e q. (True, q)) 5 ?ft) = [(key_from_packet ?p, opened ?p)]"
    using flow_idle_exact [OF parsed, of "[Process ?p]" 5 "\<lambda>_ _. 0" "\<lambda>e q. (True, q)" metrics_zero "()"]
    unfolding Let_def flows kept by blast
  then show ?thesis unfolding Let_def flows by simp
qed

subsection \<open>The times of the events\<close>

text \<open>What the time of an event means, given the times of the sweeps and of the drains.\<close>

definition on_time :: "app_config \<Rightarrow> i64 set \<Rightarrow> i64 set \<Rightarrow> flow_event \<Rightarrow> bool" where
  "on_time cfg sweeps drains e \<longleftrightarrow>
     (let s = ev_state e; now = ev_timestamp_us e;
          idle_us = sint now - sint (fs_last_seen_us s); limit = cfg_flow_timeout_sec cfg * 1000000
      in case ev_type e of
           Start \<Rightarrow> now = fs_start_us s \<and> fs_last_seen_us s = fs_start_us s \<and> fs_packet_count s = 1
         | Stats \<Rightarrow> now \<in> sweeps \<and> idle_us < limit
         | End \<Rightarrow>
             (case ev_reason e of
                TcpTeardown \<Rightarrow> now = fs_last_seen_us s \<and> fk_protocol (fs_key s) = IPPROTO_TCP
              | IdleTimeout \<Rightarrow> now \<in> sweeps \<and> limit \<le> idle_us \<or> now \<in> drains))"

definition sweep_times :: "ft_call list \<Rightarrow> i64 set" where
  "sweep_times calls = {now. Sweep now \<in> set calls}"

definition drain_times :: "ft_call list \<Rightarrow> i64 set" where
  "drain_times calls = {now. Drain now \<in> set calls}"

lemma on_time_mono:
  "on_time cfg sweeps drains e \<Longrightarrow> sweeps \<subseteq> sweeps' \<Longrightarrow> drains \<subseteq> drains' \<Longrightarrow> on_time cfg sweeps' drains' e"
  by (auto simp: on_time_def Let_def split: flow_event_type.splits expire_reason.splits)

lemma on_time_events [simp]:
  "on_time cfg sweeps drains (start_event (opened pkt))"
  "on_time cfg sweeps drains (stats_event now s) \<longleftrightarrow>
     now \<in> sweeps \<and> sint now - sint (fs_last_seen_us s) < cfg_flow_timeout_sec cfg * 1000000"
  "on_time cfg sweeps drains (end_event now TcpTeardown s) \<longleftrightarrow>
     now = fs_last_seen_us s \<and> fk_protocol (fs_key s) = IPPROTO_TCP"
  "on_time cfg sweeps drains (end_event now IdleTimeout s) \<longleftrightarrow>
     now \<in> sweeps \<and> cfg_flow_timeout_sec cfg * 1000000 \<le> sint now - sint (fs_last_seen_us s) \<or> now \<in> drains"
  by (simp_all add: on_time_def start_event_def stats_event_def end_event_def opened_def)

text \<open>Every event a call adds is on time.\<close>

lemma call_on_time:
  assumes inv: "times_ok cfg ft" and cfg: "0 \<le> cfg_flow_timeout_sec cfg" "cfg_flow_timeout_sec cfg \<le> INT_MAX"
    and now: "\<And>now. c = Sweep now \<Longrightarrow> time_ok now" and c: "c \<in> set calls"
    and old: "\<forall>e \<in> set (emitted ft). on_time cfg (sweep_times calls) (drain_times calls) e"
  shows "\<forall>e \<in> set (emitted (apply_call place (logging f) c ft)). on_time cfg (sweep_times calls) (drain_times calls) e"
proof (cases c)
  case (Process pkt)
  have state: "fk_protocol (fs_key s) = IPPROTO_TCP"
    if "fm_find (key_from_packet pkt) (ft_flows ft) = Some s" "teardown pkt" for s
  proof -
    have "fs_key s = key_from_packet pkt"
      using inv that(1) by (simp add: times_ok_def intervals_def table_ok_def)
    with that(2) show ?thesis by (simp add: teardown_def key_from_packet_def)
  qed
  with Process old show ?thesis
    by (auto simp: process_eq Let_def split: option.split)
next
  case (Drain now)
  with c old show ?thesis by (auto simp: drain_all_emitted drain_times_def)
next
  case (Sweep now)
  then have sweep: "time_ok now" "now \<in> sweep_times calls" using assms(4) c by (simp_all add: sweep_times_def)
  have fm: "fm_ok (ft_flows ft)" using inv by (rule times.ok)
  have exact: "idle (ft_idle_timeout_us ft) now s \<longleftrightarrow>
      cfg_flow_timeout_sec cfg * 1000000 \<le> sint now - sint (fs_last_seen_us s)"
    if "(k, s) \<in> set (ft_flows ft)" for k s
    using inv cfg sweep times.entries [OF inv that] by (simp add: times_ok_def intervals_def idle_exact)
  show ?thesis using old sweep by (auto simp: Sweep timer_sweep_emitted [OF fm] exact)
qed

text \<open>
  So every event of a run is: \<open>Start\<close> at its first packet; \<open>Stats\<close> at a sweep, for a flow that has been idle for
  less than \<open>--flow-timeout\<close> seconds; \<open>End\<close> with reason \<open>TcpTeardown\<close> at the last packet, of a TCP flow; \<open>End\<close> with
  reason \<open>IdleTimeout\<close> at a sweep that finds the flow idle for at least the time-out, or when
  the table is drained.
\<close>

lemma run_on_time:
  assumes "valid_config cfg"
    and "\<And>pkt. Process pkt \<in> set calls \<Longrightarrow> time_ok (pp_timestamp_us pkt)"
    and "\<And>now. Sweep now \<in> set calls \<Longrightarrow> time_ok now"
  shows "\<forall>e \<in> set (emitted (run place (logging f) calls (fresh cfg q))). on_time cfg (sweep_times calls) (drain_times calls) e"
  using assms(2,3)
proof (induction calls rule: rev_induct)
  case (snoc c cs)
  let ?ft = "run place (logging f) cs (fresh cfg q)"
  have "times_ok cfg (fresh cfg q)"
    by (simp add: times_ok_def intervals_def) (simp add: fresh_def table_ok_new, simp add: FlowTable_def seconds_def)
  then have inv: "times_ok cfg ?ft" using snoc.prems(1) by (intro times.runs_on) auto
  have "\<forall>e \<in> set (emitted ?ft). on_time cfg (sweep_times cs) (drain_times cs) e" using snoc by simp
  then have "\<forall>e \<in> set (emitted ?ft). on_time cfg (sweep_times (cs @ [c])) (drain_times (cs @ [c])) e"
    by (auto simp: sweep_times_def drain_times_def elim!: on_time_mono)
  moreover have "0 \<le> cfg_flow_timeout_sec cfg" "cfg_flow_timeout_sec cfg \<le> INT_MAX"
    using assms(1) by (simp_all add: valid_config_def)
  ultimately have "\<forall>e \<in> set (emitted (apply_call place (logging f) c ?ft)).
      on_time cfg (sweep_times (cs @ [c])) (drain_times (cs @ [c])) e"
    using snoc.prems(2) by (intro call_on_time [OF inv]) simp_all
  then show ?case by simp
qed simp

end
