(* ===== verification/Program_Times.thy ===== *)
theory Program_Times
  imports Program_Metrics Flow_Table_Times
begin

section \<open>When the events of a run are dated\<close>

text \<open>
  The clock of the timer thread and the times of the captured packets, from the structures the system fills
  to the times of the events.
\<close>

definition clock_ok :: "timespec \<Rightarrow> bool" where
  "clock_ok ts \<longleftrightarrow> 0 \<le> sint (ts_sec ts) \<and> sint (ts_sec ts) < 2 ^ 41 \<and>
     0 \<le> sint (ts_nsec ts) \<and> sint (ts_nsec ts) < 1000000000"

lemma now_us_exact:
  assumes "clock_ok ts"
  shows "sint (now_us ts) = sint (ts_sec ts) * 1000000 + sint (ts_nsec ts) div 1000"
    and "time_ok (now_us ts)"
proof -
  let ?v = "sint (ts_sec ts) * 1000000 + sint (ts_nsec ts) div 1000"
  have "sint (ts_nsec ts) sdiv 1000 = sint (ts_nsec ts) div 1000"
    using assms by (simp add: clock_ok_def signed_divide_int_def sgn_if)
  then have word: "now_us ts = word_of_int ?v" by (simp add: now_us_def)
  have v: "0 \<le> ?v" "?v < 2 ^ 62" using assms by (auto simp: clock_ok_def)
  then show eq: "sint (now_us ts) = ?v" unfolding word by (rule sint_of_small)
  show "time_ok (now_us ts)" unfolding time_ok_def eq using v by simp
qed

text \<open>All readings of the clock by the timer thread.\<close>

definition timer_clock :: "env \<Rightarrow> timespec set" where
  "timer_clock env =
     set (concat (env_sweeps env)) \<union> set (env_last_sweeps env) \<union> (\<lambda>(_, _, ts). ts) ` set (env_late env)"

lemma timer_calls_sweeps: "Sweep now \<in> set (timer_calls its) \<Longrightarrow> now \<in> now_us ` (\<lambda>(_, _, ts). ts) ` set its"
  by (induction its rule: timer_calls.induct) (auto split: if_splits)

lemma capture_calls_sweeps:
  "Sweep now \<in> set (capture_calls pkts sweeps) \<Longrightarrow> now \<in> now_us ` set (concat sweeps)"
proof (induction pkts sweeps rule: capture_calls.induct)
  case (3 pkt pkts tss sweeps)
  then show ?case
    using timer_calls_sweeps [of now "map (\<lambda>ts. (False, False, ts)) tss"] by (auto simp: image_image)
qed simp_all

lemma timer_calls_only: "Drain now \<notin> set (timer_calls its)" "Process pkt \<notin> set (timer_calls its)"
  by (induction its rule: timer_calls.induct) auto

lemma capture_calls_only: "Drain now \<notin> set (capture_calls pkts sweeps)"
  by (induction pkts sweeps rule: capture_calls.induct) (simp_all add: timer_calls_only)

lemma run_calls_times:
  shows "sweep_times (run_calls env out ps) \<subseteq> now_us ` timer_clock env"
    and "drain_times (run_calls env out ps) \<subseteq> {now_us (env_now env)}"
proof -
  have last: "Sweep now \<in> set (end_calls env out) \<Longrightarrow> now \<in> now_us ` set (env_last_sweeps env)" for now
    using timer_calls_sweeps [of now "map (\<lambda>ts. (False, False, ts)) (env_last_sweeps env)"]
    by (cases out) (auto simp: image_image)
  show "sweep_times (run_calls env out ps) \<subseteq> now_us ` timer_clock env"
    unfolding sweep_times_def run_calls_def timer_clock_def image_Un
    using capture_calls_sweeps timer_calls_sweeps last by (auto 0 4)
  show "drain_times (run_calls env out ps) \<subseteq> {now_us (env_now env)}"
    by (cases out) (auto simp: drain_times_def run_calls_def timer_calls_only capture_calls_only)
qed

text \<open>The captured packets have times in range.\<close>

definition packet_times_ok :: "pcap_lib \<Rightarrow> bool" where
  "packet_times_ok lib \<longleftrightarrow> (\<forall>evs. \<forall>p \<in> set (lib_packets lib evs). timeval_ok (ph_ts (fst p)))"

lemma delivered_times:
  assumes "packet_times_ok lib" and "p \<in> set (delivered lib evs)"
  shows "timeval_ok (ph_ts (fst p))"
  using assms(2)
  by (induction evs rule: rev_induct) (use assms(1) in \<open>auto simp: packet_times_ok_def split: if_splits\<close>)

lemma decodable_times:
  "\<forall>p \<in> set ps. timeval_ok (ph_ts (fst p)) \<Longrightarrow> pkt \<in> set (decodable ps) \<Longrightarrow> time_ok (pp_timestamp_us pkt)"
  by (auto simp: decodable_def decoded_def map_filter_def split: decoding.splits dest!: decode_time(2))

lemma run_calls_packet_times:
  assumes "packet_times_ok (env_pcap env)" and "ps = delivered (env_pcap env) evs"
    and "Process pkt \<in> set (run_calls env out ps)"
  shows "time_ok (pp_timestamp_us pkt)"
proof -
  have "pkt \<in> set (decodable ps)"
    using assms(3) by (cases out) (auto simp: run_calls_def timer_calls_only dest: capture_calls_packets)
  then show ?thesis using decodable_times [of ps] delivered_times [OF assms(1)] assms(2) by blast
qed

text \<open>
  C20.  In a run of the program whose packet times and clock readings are valid times before the year
  50,000, every event is dated as it should be: \<open>Start\<close> at its first packet; \<open>Stats\<close> at a
  reading of the timer thread's clock, for a flow idle for less than \<open>--flow-timeout\<close> seconds; \<open>End\<close> with reason
  \<open>TcpTeardown\<close> at the last packet, of a TCP flow; \<open>End\<close> with reason \<open>IdleTimeout\<close> at a
  reading that finds the flow idle for at least the time-out, or at the time of the drain.  (At exactly the
  time-out the code ends the flow; docs/design/architecture.md ends it only after, \<open>last_seen + timeout < now\<close>.)
\<close>

theorem main_events_on_time:
  assumes "parse argv = Inr cfg" and "startup lib cfg = Inr st"
    and "whole_packets (env_pcap env)" and "capture_ends env cfg"
    and "packet_times_ok (env_pcap env)" and "\<And>ts. ts \<in> timer_clock env \<Longrightarrow> clock_ok ts"
  shows "\<exists>status msg fin. main lib env argv = Ended (status, msg, Some fin) \<and>
    (\<forall>e \<in> set (emitted (fin_table fin)).
       on_time cfg (now_us ` timer_clock env) {now_us (env_now env)} e)"
proof -
  note valid = parse_valid [OF assms(1)]
  from pipeline_ends [OF assms(3,4) valid assms(2)] obtain out fin ft ps p where
    run: "run_pipeline env cfg st = Ended (out, fin)" and ps: "ps = delivered (env_pcap env) (fin_calls fin)"
    and ft: "ft = run_table env cfg st out ps"
    and fin: "fin_table fin = (drops (undecodable ps) ft)\<lparr>ft_sink := (p, snd (ft_sink ft))\<rparr>" .
  let ?calls = "run_calls env out ps"
  have sweeps: "time_ok now" if "Sweep now \<in> set ?calls" for now
    using that run_calls_times(1) [of env out ps] now_us_exact(2) assms(6) by (auto simp: sweep_times_def)
  have "\<forall>e \<in> set (emitted ft). on_time cfg (sweep_times ?calls) (drain_times ?calls) e"
    unfolding ft run_table_def new_table_fresh on_event_def
    by (rule run_on_time [OF valid run_calls_packet_times [OF assms(5) ps] sweeps])
  then have "\<forall>e \<in> set (emitted (fin_table fin)). on_time cfg (now_us ` timer_clock env) {now_us (env_now env)} e"
    using on_time_mono [OF _ run_calls_times] by (auto simp: fin emitted_def)
  moreover obtain status msg where "main lib env argv = Ended (status, msg, Some fin)"
    using main_started [OF assms(1,2), of env] run by (cases out) simp_all
  ultimately show ?thesis by blast
qed

theorem main_events_on_time_witness:
  "\<exists>status msg fin. main sample_libraries sample_env [''p'', ''--pcap'', ''f''] = Ended (status, msg, Some fin) \<and>
    (\<forall>e \<in> set (emitted (fin_table fin)).
       on_time (default_config\<lparr>cfg_pcap_file := ''f''\<rparr>) (now_us ` timer_clock sample_env) {9000000} e)"
proof -
  let ?cfg = "default_config\<lparr>cfg_pcap_file := ''f''\<rparr>"
  obtain st where st: "startup sample_libraries ?cfg = Inr st" by (rule sample_started)
  have ends: "capture_ends sample_env ?cfg" by (simp add: capture_ends_def)
  have times: "packet_times_ok (env_pcap sample_env)"
    by (simp add: packet_times_ok_def sample_env_def sample_capture_def timeval_ok_def)
  have clock: "clock_ok ts" if "ts \<in> timer_clock sample_env" for ts
    using that by (auto simp: timer_clock_def sample_env_def clock_ok_def)
  have "now_us (env_now sample_env) = 9000000" by (simp add: sample_env_def now_us_def)
  then show ?thesis using main_events_on_time [OF sample_parse st whole_sample ends times clock] by simp
qed

end
