(* ===== verification/Spec2Isabelle.thy ===== *)
theory Spec2Isabelle
  imports Event_Queue_Views Table_Lock Program_Times
begin

text \<open>
  PacketPipe reads packets from a capture file or a network interface, groups them into flows,
  and sends an event to Kafka when a flow starts, goes on, and ends.  This development models
  the program under \<^verbatim>\<open>src/src\<close> from its command line to its exit status and proves what it promises.

  \<^bold>\<open>The program and its model.\<close>

  \<^item> \<open>Prelude\<close>, \<open>Std_String\<close>: fixed-width integers, masking with a power of two, positions on a
    ring; \<open>std::stoi\<close>, \<open>std::to_string\<close>, searching in strings.
  \<^item> \<open>Flow_Key\<close>, \<open>Flow_Event\<close> (\<^verbatim>\<open>events/\<close>): \<open>FlowKey\<close> with its FNV-1a hash, \<open>FlowState\<close>, \<open>FlowEvent\<close>.
  \<^item> \<open>Metrics\<close> (\<^verbatim>\<open>metrics/\<close>): the accessors of \<open>IMetricsRegistry\<close> as the type \<open>metric_id\<close> and the
    series the registry creates.  Locale \<open>metrics_interface\<close>.
  \<^item> \<open>Event_Queue\<close> (\<^verbatim>\<open>events/event_queue.hpp\<close>): the ring buffer, sequentially; locales
    \<open>bounded_fifo\<close> and \<open>observed_fifo\<close> are the contract its users rely on.  \<open>Event_Queue_Conc\<close>: \<open>push\<close>
    and \<open>pop\<close> as an inductive step relation, one step per atomic access; \<open>Event_Queue_Views\<close>: the two models agree.
  \<^item> \<open>Packet_Decoder\<close> (\<^verbatim>\<open>packets/packet_decoder.cpp\<close>): every read of the buffer is checked, and one
    outside it is the value \<open>Bad_Read\<close>.
  \<^item> \<open>Config\<close> (\<^verbatim>\<open>config/\<close>): the command-line parser with its messages.
  \<^item> \<open>Flow_Table\<close> (\<^verbatim>\<open>flowtable/\<close>): the operations; locale \<open>keyed_map\<close> is the hash map.  \<open>Flow_Table_Runs\<close>:
    locale \<open>table_invariant_on\<close>, which reduces a property of all runs to the elementary actions, and
    \<open>table_invariant\<close>, the same for arbitrary packets; \<open>Flow_Table_Counts\<close>: counters incremented by others commute
    with the operations; \<open>Table_Lock\<close>: the bodies of the three operations split into
    steps, with the main and the timer thread interleaved under the mutex;
    \<open>Flow_Table_Invariants\<close> instantiates it for the life cycle of flows, the metrics, the conservation of
    packets and the limit; \<open>Flow_Table_Spec\<close> is the abstract specification by packet histories;
    \<open>Flow_Table_Times\<close> shows that the comparisons of times are exact and what the time of every event means.
  \<^item> \<open>Packet_Source\<close> (\<^verbatim>\<open>packets/pcap_file_source.cpp\<close>, \<^verbatim>\<open>packets/live_capture_source.cpp\<close>): both sources;
    every call of libpcap is recorded, and a signal handler may call \<open>stop\<close> after each of them (\<open>interrupt\<close>).
  \<^item> \<open>Schema_Registry\<close>, \<open>Avro_Serializer\<close> (\<^verbatim>\<open>avro/\<close>): the look-up of the schema identifier, the flow
    identifier and the wire format.
  \<^item> \<open>Kafka_Producer\<close>, \<open>Avro_Kafka_Sink\<close> (\<^verbatim>\<open>kafka/\<close>): configuration layers, production, and the sink
    thread with its retry buffer; \<open>Sink_Accounting\<close> is the ledger of its events.  \<open>Sink_Steps\<close> is the same
    thread as a machine with a program counter (\<open>sink_micro\<close>), with locale \<open>sink_ledger\<close> for what its steps
    keep, wherever it stands, and the inductive relation \<open>sink_reach\<close> of the states the threads can bring it into, with rules for a load
    of the producer's index that misses an event just pushed.  \<open>Sink_Counters\<close>: its metrics are those of a replay of
    the recorded calls of librdkafka.
  \<^item> \<open>Pipeline\<close> (\<^verbatim>\<open>main.cpp\<close>): start-up, capture, timer and sink threads, shutdown, exit status.
    \<open>Pipeline_Runs\<close> shows that a capture is a run of the flow table, with locale \<open>sink_contract\<close> for the
    callback; \<open>Whole_Program\<close> puts everything together, \<open>Kafka_Order\<close> says what a consumer of the topic
    sees of one flow, \<open>Program_Metrics\<close> what the metrics say after a run, and \<open>Program_Times\<close> when its events are dated.

  \<^bold>\<open>How the parts interact.\<close>  The capture thread calls \<open>process\<close> for every decoded packet and the timer
  thread calls \<open>timer_sweep\<close>; the mutex of the table makes them a sequence of whole
  operations (\<open>ft_call\<close>, \<open>run\<close>; proved in \<open>Table_Lock\<close>, with the one increment made before the mutex is taken), and lets
  one thread at a time push into the queue.  Events go through the callback into the queue, which the sink
  thread empties.  The table is proved for an arbitrary callback, the sink for arbitrary pushes,
  and \<open>main\<close> composes them with an arbitrary schedule: which sweeps run before each packet and
  before the drain, and how many single steps the sink thread makes before each push, before the flush by the
  main thread, and before stop is requested; it is then joined wherever it stands.  The ring's indices are read
  at their latest values in \<open>main\<close>; that a thread may see older ones, and what it then can do, is in
  \<open>Event_Queue_Conc\<close> and, for the sink, in \<open>sink_reach\<close>.  The events and the answers of the callback are
  recorded beside the table (\<open>logging\<close>); \<open>forget_apply_call\<close> shows that this changes nothing else.
  The table's counters and the sink's are two maps over disjoint series of the one
  registry.

  \<^bold>\<open>What is proved.\<close>  The decoder reads only captured bytes and decodes well-formed frames
  exactly; the queue is a bounded FIFO, also with producer and consumer interleaved at their
  atomic accesses, where each of its steps that takes effect is a step of the sequential queue; after any calls each flow has the events \<open>Start Stats* End\<close> with the state the packet
  history determines, and no packet is lost without being counted; the parser
  accepts its grammar and nothing else; the wire format holds the event and the flow identifier its
  key; at every step of the sink thread each accepted event has exactly one place, and the messages are in
  order unless librdkafka refuses one, so that the messages of one Kafka key are the life cycle of its flow;
  the step machine computes the thread function (\<open>sink_steps_thread\<close>) and can be joined wherever it stands; after a refusal two events of a
  flow can change places (\<open>sink_order_lost\<close>); the metrics of a run agree with what happened in it; the mutex makes a run of the table a sequence of whole calls,
  each of which returns under every schedule; events are dated
  as they should be; idle times are compared without wrap-around; the sources
  release their handles, and use one after closing it only if a signal falls between the close and the store
  after it; the whole program ends, also when its start-up fails, and accounts for every packet
  and event.

  \<^bold>\<open>Bounds and fuel.\<close>  Loops over lists are structural.  The dispatch loop of the live capture has
  fuel, enough for one dispatch more than \<open>stop\<close> has let pass since the handle was opened
  (\<open>live_capture_stops\<close>, \<open>capture_ends\<close>); every larger fuel gives the same result.  \<open>sink_loop\<close>
  has fuel; once stop is requested and nothing is pushed, the size of the ring is enough (\<open>sink_thread_ends\<close>).
  The join of the thread in \<open>main\<close> has none: it is a \<open>while_option\<close>, proved to return (\<open>joined\<close>).  Packet counts are compared modulo
  \<open>2 ^ 64\<close>, their type in the code.

  \<^bold>\<open>Parameters.\<close>  Code that is not in the repository is an argument: libpcap and libcap, librdkafka,
  the HTTP client, the JSON library, the Avro schema compiler and encoder, \<open>inet_ntop\<close> for IPv6, the place
  where \<open>unordered_map\<close> puts a new entry, the exposer of prometheus-cpp, files, clocks.  What is
  assumed of them is in the theorems: \<open>whole_packets\<close> (libpcap gives \<open>caplen\<close> bytes), \<open>breaks\<close>
  (\<open>pcap_breakloop\<close> sets a flag that ends the next dispatch), \<open>ntop6_ok\<close>, \<open>never_refuses\<close>; and for exact times that packets and clocks give times in range (\<open>packet_times_ok\<close>, \<open>clock_ok\<close>).

  \<^bold>\<open>Where the code and the documents differ.\<close>  A flow idle for exactly the time-out ends in the code and in
  every theorem here; docs/design/architecture.md ends it only when \<open>last_seen + timeout < now\<close>.  A packet with FIN or RST
  that opens a flow does not end it.  \<open>packets_received\<close> leaves out the packets that do not decode.

  \<^bold>\<open>Not modelled.\<close>  Log lines on success, the HTTP server of the metrics, the timing of the waits
  (\<open>wait_for\<close> may end at any time), destruction of the library objects, memory exhaustion, and a signal handler running after \<open>main\<close> has destroyed the source.
\<close>

end
